(* ===== verification/Pancake_Prelude.thy ===== *)
theory Pancake_Prelude
  imports Complex_Main "HOL-Library.Stream"
begin

text \<open>
  Shared vocabulary of the development: the result type with the ways a C++ function can
  leave (exceptions, failed assertions, undefined behaviour), its sequencing operator with
  the inversion rules collected in \<open>res_simps\<close>, the pieces of the C++ standard library the
  sources use (\<open>std::to_string\<close>, \<open>operator[]\<close> of maps and vectors, vector
  construction), and facts about lists and maps that several components share.
\<close>

named_theorems res_simps \<open>inversion rules for results\<close>

section \<open>Results\<close>

text \<open>
  \<open>Inl\<close> is every way of not returning normally. The build sets no \<open>NDEBUG\<close>, so a failed
  \<open>assert\<close> aborts. Reads out of range and divisions by zero are undefined behaviour in
  C++; the model makes each of them an outcome of its own, so that a theorem that a call
  returns \<open>Inr\<close> also excludes them; \<open>Undefined\<close> is a null pointer used and a value that is
  never returned. The first three are Thrift's \<open>TApplicationException\<close>,
  \<open>TProtocolException\<close> and \<open>TTransportException\<close>.
\<close>

datatype application_error = UNKNOWN | UNKNOWN_METHOD | MISSING_RESULT | Other_application int

datatype protocol_error = INVALID_DATA | Other_protocol int

datatype cpp_error =
    Application_exception application_error string
  | Protocol_exception protocol_error
  | Transport_exception string
  | Logic_error string
  | Runtime_error string
  | Length_error
  | Future_error
  | Out_of_range
  | Division_by_zero
  | Assertion_failed
  | Aborted
  | Exited int
  | Invalid_argument
  | Undefined

type_synonym 'a res = "cpp_error + 'a"

definition rbind :: "'e + 'a \<Rightarrow> ('a \<Rightarrow> 'e + 'b) \<Rightarrow> 'e + 'b" where
  "rbind m f = (case m of Inl e \<Rightarrow> Inl e | Inr x \<Rightarrow> f x)"

lemma rbind_simps [simp]:
  "rbind (Inl e) f = Inl e"
  "rbind (Inr x) f = f x"
  by (simp_all add: rbind_def)

lemma rbind_Inr_iff [res_simps]: "rbind m f = Inr y \<longleftrightarrow> (\<exists>x. m = Inr x \<and> f x = Inr y)"
  by (cases m) simp_all

lemma rbind_Inl_iff: "rbind m f = Inl e \<longleftrightarrow> m = Inl e \<or> (\<exists>x. m = Inr x \<and> f x = Inl e)"
  by (cases m) auto

lemma rbind_assoc: "rbind (rbind m f) g = rbind m (\<lambda>x. rbind (f x) g)"
  by (cases m) simp_all

lemma rbind_cong [fundef_cong]:
  "m = m' \<Longrightarrow> (\<And>x. m' = Inr x \<Longrightarrow> f x = f' x) \<Longrightarrow> rbind m f = rbind m' f'"
  by (cases m') auto

definition require :: "bool \<Rightarrow> 'e \<Rightarrow> 'e + unit" where
  "require b e = (if b then Inr () else Inl e)"

lemma require_simps [simp]: "require True e = Inr ()" "require False e = Inl e"
  by (simp_all add: require_def)

lemma require_Inr_iff [res_simps]: "require b e = Inr u \<longleftrightarrow> b"
  by (simp add: require_def)

section \<open>Vectors and maps of the standard library\<close>

text \<open>
  \<open>vec_at\<close> reads and \<open>vec_set\<close> writes an element by a C++ \<open>int\<close> index;
  \<open>mk_vector n x\<close> is \<open>std::vector(n, x)\<close>, where a negative \<open>int\<close> converts to a size
  beyond \<open>max_size\<close>; \<open>map_at\<close> is \<open>operator[]\<close> of an \<open>unordered_map\<close>, which inserts
  the default value for a missing key.
\<close>

definition vec_at :: "'a list \<Rightarrow> int \<Rightarrow> 'a res" where
  "vec_at xs i = (if 0 \<le> i \<and> i < int (length xs) then Inr (xs ! nat i) else Inl Out_of_range)"

definition vec_set :: "'a list \<Rightarrow> int \<Rightarrow> 'a \<Rightarrow> 'a list res" where
  "vec_set xs i x =
     (if 0 \<le> i \<and> i < int (length xs) then Inr (xs[nat i := x]) else Inl Out_of_range)"

definition mk_vector :: "int \<Rightarrow> 'a \<Rightarrow> 'a list res" where
  "mk_vector n x = (if 0 \<le> n then Inr (replicate (nat n) x) else Inl Length_error)"

definition map_at :: "'v \<Rightarrow> ('k \<rightharpoonup> 'v) \<Rightarrow> 'k \<Rightarrow> 'v \<times> ('k \<rightharpoonup> 'v)" where
  "map_at d m k = (case m k of Some v \<Rightarrow> (v, m) | None \<Rightarrow> (d, m(k \<mapsto> d)))"

lemma vec_at_Inr [res_simps]:
  "vec_at xs i = Inr x \<longleftrightarrow> 0 \<le> i \<and> i < int (length xs) \<and> x = xs ! nat i"
  by (auto simp: vec_at_def)

lemma vec_set_Inr [res_simps]:
  "vec_set xs i x = Inr ys \<longleftrightarrow> 0 \<le> i \<and> i < int (length xs) \<and> ys = xs[nat i := x]"
  by (auto simp: vec_set_def)

lemma mk_vector_Inr [res_simps]:
  "mk_vector n x = Inr ys \<longleftrightarrow> 0 \<le> n \<and> ys = replicate (nat n) x"
  by (auto simp: mk_vector_def)

lemma map_at_Some [simp]: "m k = Some v \<Longrightarrow> map_at d m k = (v, m)"
  by (simp add: map_at_def)

lemma map_at_None: "m k = None \<Longrightarrow> map_at d m k = (d, m(k \<mapsto> d))"
  by (simp add: map_at_def)

lemma dom_map_at: "dom (snd (map_at d m k)) = insert k (dom m)"
  by (auto simp: map_at_def split: option.splits)

section \<open>Decimal strings\<close>

text \<open>
  \<open>to_string\<close> is \<open>std::to_string\<close> on \<open>int\<close>; \<open>stoi\<close> is \<open>std::stoi\<close> on the strings it
  prints. A \<open>std::string\<close> is a list of 8-bit characters.
\<close>

fun nat_to_string :: "nat \<Rightarrow> string" where
  "nat_to_string n =
     (if n < 10 then [char_of (48 + n)]
      else nat_to_string (n div 10) @ [char_of (48 + n mod 10)])"

declare nat_to_string.simps [simp del]

definition to_string :: "int \<Rightarrow> string" where
  "to_string i = (if i < 0 then CHR ''-'' # nat_to_string (nat (- i)) else nat_to_string (nat i))"

definition is_digit :: "char \<Rightarrow> bool" where
  "is_digit c \<longleftrightarrow> 48 \<le> (of_char c :: nat) \<and> (of_char c :: nat) \<le> 57"

definition digits_value :: "string \<Rightarrow> nat" where
  "digits_value cs = foldl (\<lambda>n c. 10 * n + (of_char c - 48)) 0 cs"

text \<open>
  \<open>std::stoi\<close> skips white space and a sign and stops at the first character that is not
  a digit; with no digit at all it throws \<open>std::invalid_argument\<close>, and beyond the range of
  \<open>int\<close> \<open>std::out_of_range\<close>.
\<close>

definition is_space :: "char \<Rightarrow> bool" where
  "is_space c \<longleftrightarrow> c = CHR '' '' \<or> (9 \<le> (of_char c :: nat) \<and> (of_char c :: nat) \<le> 13)"

definition stoi :: "string \<Rightarrow> int res" where
  "stoi s0 =
     (let s = dropWhile is_space s0;
          neg = (s \<noteq> [] \<and> hd s = CHR ''-'');
          t = (if s \<noteq> [] \<and> (hd s = CHR ''-'' \<or> hd s = CHR ''+'') then tl s else s);
          ds = takeWhile is_digit t;
          x = (if neg then - int (digits_value ds) else int (digits_value ds))
      in if ds = [] then Inl Invalid_argument
         else if x < - (2 ^ 31) \<or> 2 ^ 31 \<le> x then Inl Out_of_range
         else Inr x)"

lemma of_char_digit [simp]:
  "d < 10 \<Longrightarrow> (of_char (char_of (48 + d) :: char) :: nat) = 48 + d"
  by (simp add: of_char_of)

lemma digits_value_snoc [simp]:
  "digits_value (cs @ [c]) = 10 * digits_value cs + (of_char c - 48)"
  by (simp add: digits_value_def)

lemma digits_value_nat_to_string [simp]: "digits_value (nat_to_string n) = n"
proof (induction n rule: nat_to_string.induct)
  case (1 n)
  show ?case
  proof (cases "n < 10")
    case True
    then show ?thesis
      by (subst nat_to_string.simps) (simp add: digits_value_def)
  next
    case False
    with 1 show ?thesis
      by (subst nat_to_string.simps) simp
  qed
qed

lemma nat_to_string_digits: "c \<in> set (nat_to_string n) \<Longrightarrow> is_digit c"
proof (induction n rule: nat_to_string.induct)
  case (1 n)
  show ?case
  proof (cases "n < 10")
    case True
    with 1 show ?thesis
      by (simp add: nat_to_string.simps [of n] is_digit_def)
  next
    case False
    with 1 show ?thesis
      by (auto simp: nat_to_string.simps [of n] is_digit_def)
  qed
qed

lemma nat_to_string_nonempty [simp]: "nat_to_string n \<noteq> []"
  by (subst nat_to_string.simps) simp

lemma nat_to_string_inject [simp]: "nat_to_string m = nat_to_string n \<longleftrightarrow> m = n"
  by (metis digits_value_nat_to_string)

lemma to_string_of_nat [simp]: "to_string (int n) = nat_to_string n"
  by (simp add: to_string_def)

lemma minus_not_digit [simp]: "\<not> is_digit (CHR ''-'')" "\<not> is_digit (CHR '' '')" "\<not> is_digit (CHR ''+'')"
  by (simp_all add: is_digit_def)

lemma hd_nat_to_string: "is_digit (hd (nat_to_string n))"
  by (rule nat_to_string_digits) (rule hd_in_set, simp)

lemma to_string_inject [simp]: "to_string i = to_string j \<longleftrightarrow> i = j"
proof -
  have neq: "nat_to_string n \<noteq> CHR ''-'' # s" for n s
    using hd_nat_to_string [of n] by (cases "nat_to_string n") auto
  show ?thesis
    by (auto simp: to_string_def neq neq [symmetric])
qed

lemma digit_not_space: "is_digit c \<Longrightarrow> \<not> is_space c"
  by (auto simp: is_digit_def is_space_def)

lemma takeWhile_digits [simp]: "takeWhile is_digit (nat_to_string k) = nat_to_string k"
  by (rule takeWhile_eq_all_conv [THEN iffD2]) (auto intro: nat_to_string_digits)

lemma stoi_nat_to_string: "n < 2 ^ 31 \<Longrightarrow> stoi (nat_to_string n) = Inr (int n)"
proof -
  assume n: "n < 2 ^ 31"
  have h: "is_digit (hd (nat_to_string n))" by (rule hd_nat_to_string)
  then have ne: "hd (nat_to_string n) \<noteq> CHR ''-''" "hd (nat_to_string n) \<noteq> CHR ''+''"
    "\<not> is_space (hd (nat_to_string n))"
    using digit_not_space by auto
  have dw: "dropWhile is_space (nat_to_string n) = nat_to_string n"
    using ne(3) by (cases "nat_to_string n") auto
  show ?thesis
    using n ne by (simp add: stoi_def dw)
qed

lemma stoi_to_string:
  assumes "- (2 ^ 31) \<le> i" and "i < 2 ^ 31"
  shows "stoi (to_string i) = Inr i"
proof (cases "i < 0")
  case True
  have "\<not> is_space (CHR ''-'')" by (simp add: is_space_def)
  with True assms(1) show ?thesis by (simp add: stoi_def to_string_def)
next
  case False
  then show ?thesis
    using assms(2) stoi_nat_to_string [of "nat i"] by (simp add: to_string_def nat_less_iff)
qed

end
