(* ===== verification/Io_Monad.thy ===== *)
theory Io_Monad
  imports Pancake_Prelude "HOL-Library.Word"
begin

text \<open>
  Code that acts on a shared world \<open>'w\<close> (connections, queues, handlers): an action takes the
  world and gives a result together with the world it leaves behind, also when it throws,
  since an exception does not undo what was done before it. \<open>None\<close> is an action that does
  not return.
\<close>

named_theorems io_simps \<open>evaluation rules for actions\<close>

type_synonym ('w, 'a) io = "'w \<Rightarrow> ((cpp_error + 'a) \<times> 'w) option"

definition iret :: "'a \<Rightarrow> ('w, 'a) io" where
  "iret x = (\<lambda>w. Some (Inr x, w))"

definition ithrow :: "cpp_error \<Rightarrow> ('w, 'a) io" where
  "ithrow e = (\<lambda>w. Some (Inl e, w))"

definition ibind :: "('w, 'a) io \<Rightarrow> ('a \<Rightarrow> ('w, 'b) io) \<Rightarrow> ('w, 'b) io" where
  "ibind m f = (\<lambda>w. Option.bind (m w) (\<lambda>(r, w'). case r of Inl e \<Rightarrow> Some (Inl e, w') | Inr x \<Rightarrow> f x w'))"

definition ithen :: "('w, 'a) io \<Rightarrow> ('w, 'b) io \<Rightarrow> ('w, 'b) io" where
  "ithen m k = ibind m (\<lambda>_. k)"

text \<open>\<open>ilift\<close> runs a result that does not touch the world, \<open>iget\<close> reads and \<open>iput\<close> changes the world.\<close>

definition ilift :: "'a res \<Rightarrow> ('w, 'a) io" where
  "ilift r = (\<lambda>w. Some (r, w))"

definition iget :: "('w \<Rightarrow> 'a) \<Rightarrow> ('w, 'a) io" where
  "iget f = (\<lambda>w. Some (Inr (f w), w))"

definition imodify :: "('w \<Rightarrow> 'w) \<Rightarrow> ('w, unit) io" where
  "imodify f = (\<lambda>w. Some (Inr (), f w))"

text \<open>\<open>ifinally m f\<close>: a destructor \<open>f\<close> that runs when \<open>m\<close> is left in any way.\<close>

definition ifinally :: "('w, 'a) io \<Rightarrow> ('w \<Rightarrow> 'w) \<Rightarrow> ('w, 'a) io" where
  "ifinally m f = (\<lambda>w. Option.bind (m w) (\<lambda>(r, w'). Some (r, f w')))"

definition iwhen :: "bool \<Rightarrow> ('w, unit) io \<Rightarrow> ('w, unit) io" where
  "iwhen b m = (if b then m else iret ())"

text \<open>A sequence of actions, and the sum of the numbers a sequence of actions returns.\<close>

fun iall :: "('w, unit) io list \<Rightarrow> ('w, unit) io" where
  "iall [] = iret ()"
| "iall (m # ms) = ithen m (iall ms)"

fun isum :: "32 word \<Rightarrow> ('w, 32 word) io list \<Rightarrow> ('w, 32 word) io" where
  "isum xfer [] = iret xfer"
| "isum xfer (m # ms) = ibind m (\<lambda>n. isum (xfer + n) ms)"

fun imap :: "('a \<Rightarrow> ('w, 'b) io) \<Rightarrow> 'a list \<Rightarrow> ('w, 'b list) io" where
  "imap f [] = iret []"
| "imap f (x # xs) = ibind (f x) (\<lambda>y. ibind (imap f xs) (\<lambda>ys. iret (y # ys)))"

text \<open>Which errors are a \<open>std::exception\<close>; the others end the process or are undefined.\<close>

fun is_exception :: "cpp_error \<Rightarrow> bool" where
  "is_exception (Application_exception _ _) = True"
| "is_exception (Protocol_exception _) = True"
| "is_exception (Transport_exception _) = True"
| "is_exception (Logic_error _) = True"
| "is_exception (Runtime_error _) = True"
| "is_exception Length_error = True"
| "is_exception Future_error = True"
| "is_exception Invalid_argument = True"
| "is_exception _ = False"

text \<open>\<open>catch (TTransportException e)\<close>.\<close>

fun is_transport :: "cpp_error \<Rightarrow> bool" where
  "is_transport (Transport_exception _) = True"
| "is_transport _ = False"

text \<open>
  \<open>iattempt m\<close> is \<open>try { m } catch (const std::exception &e)\<close>: the error becomes a result.
\<close>

definition iattempt :: "('w, 'a) io \<Rightarrow> ('w, cpp_error + 'a) io" where
  "iattempt m = (\<lambda>w. Option.bind (m w) (\<lambda>(r, w').
     case r of Inl e \<Rightarrow> if is_exception e then Some (Inr (Inl e), w') else Some (Inl e, w')
     | Inr x \<Rightarrow> Some (Inr (Inr x), w')))"

text \<open>
  \<open>izoom get put m\<close> runs \<open>m\<close> on a part of the world. \<open>icatch p m k\<close> is a handler for the errors
  in \<open>p\<close>.
\<close>

definition izoom :: "('w \<Rightarrow> 's) \<Rightarrow> ('s \<Rightarrow> 'w \<Rightarrow> 'w) \<Rightarrow> ('s, 'a) io \<Rightarrow> ('w, 'a) io" where
  "izoom get put m = (\<lambda>w. map_option (\<lambda>(r, s). (r, put s w)) (m (get w)))"

definition icatch :: "(cpp_error \<Rightarrow> bool) \<Rightarrow> ('w, 'a) io \<Rightarrow> ('w, 'a) io \<Rightarrow> ('w, 'a) io" where
  "icatch p m k = (\<lambda>w. Option.bind (m w) (\<lambda>(r, w').
     case r of Inl e \<Rightarrow> if p e then k w' else Some (Inl e, w') | Inr x \<Rightarrow> Some (Inr x, w')))"

section \<open>Laws\<close>

lemma izoom_Some [io_simps]: "m (get w) = Some (r, s) \<Longrightarrow> izoom get put m w = Some (r, put s w)"
  by (simp add: izoom_def)

lemma izoom_None [io_simps]: "m (get w) = None \<Longrightarrow> izoom get put m w = None"
  by (simp add: izoom_def)

lemma icatch_Inr [io_simps]: "m w = Some (Inr x, w') \<Longrightarrow> icatch p m k w = Some (Inr x, w')"
  by (simp add: icatch_def)

lemma icatch_Inl [io_simps]:
  "m w = Some (Inl e, w') \<Longrightarrow> icatch p m k w = (if p e then k w' else Some (Inl e, w'))"
  by (simp add: icatch_def)

lemma iret_apply [io_simps]: "iret x w = Some (Inr x, w)"
  by (simp add: iret_def)

lemma ithrow_apply [io_simps]: "ithrow e w = Some (Inl e, w)"
  by (simp add: ithrow_def)

lemma iget_apply [io_simps]: "iget f w = Some (Inr (f w), w)"
  by (simp add: iget_def)

lemma imodify_apply [io_simps]: "imodify f w = Some (Inr (), f w)"
  by (simp add: imodify_def)

lemma ilift_apply [io_simps]: "ilift r w = Some (r, w)"
  by (simp add: ilift_def)

lemma ibind_Inr [io_simps]: "m w = Some (Inr x, w') \<Longrightarrow> ibind m f w = f x w'"
  by (simp add: ibind_def)

lemma ibind_Inl [io_simps]: "m w = Some (Inl e, w') \<Longrightarrow> ibind m f w = Some (Inl e, w')"
  by (simp add: ibind_def)

lemma ibind_None [io_simps]: "m w = None \<Longrightarrow> ibind m f w = None"
  by (simp add: ibind_def)

lemma ithen_Inr [io_simps]: "m w = Some (Inr x, w') \<Longrightarrow> ithen m k w = k w'"
  by (simp add: ithen_def ibind_Inr)

lemma ithen_Inl [io_simps]: "m w = Some (Inl e, w') \<Longrightarrow> ithen m k w = Some (Inl e, w')"
  by (simp add: ithen_def ibind_Inl)

lemma iattempt_Inr [io_simps]: "m w = Some (Inr x, w') \<Longrightarrow> iattempt m w = Some (Inr (Inr x), w')"
  by (simp add: iattempt_def)

lemma iattempt_Inl [io_simps]:
  "m w = Some (Inl e, w') \<Longrightarrow>
   iattempt m w = (if is_exception e then Some (Inr (Inl e), w') else Some (Inl e, w'))"
  by (simp add: iattempt_def)

lemma ifinally_Some [io_simps]: "m w = Some (r, w') \<Longrightarrow> ifinally m f w = Some (r, f w')"
  by (simp add: ifinally_def)

lemma ibind_iret [simp]: "ibind (iret x) f = f x"
  by (simp add: ibind_def iret_def fun_eq_iff)

lemma ibind_iret_right: "ibind m iret = m"
proof
  fix w show "ibind m iret w = m w"
    by (cases "m w") (auto simp: ibind_def iret_def split: sum.splits)
qed

lemma ibind_Inr_iff: "ibind m f w = Some (Inr y, w'') \<longleftrightarrow>
   (\<exists>x w'. m w = Some (Inr x, w') \<and> f x w' = Some (Inr y, w''))"
  by (auto simp: ibind_def Option.bind_eq_Some_conv split: sum.split_asm)

lemma ibind_assoc: "ibind (ibind m f) g = ibind m (\<lambda>x. ibind (f x) g)"
  by (auto simp: ibind_def fun_eq_iff Option.bind_eq_None_conv split: sum.splits
      Option.bind_split)

text \<open>Sequencing is monotone, so that loops of unbounded length can be defined over it.\<close>

lemma ibind_mono [partial_function_mono]:
  assumes "mono_option (\<lambda>F. B F w)" and "\<And>y w'. mono_option (\<lambda>F. C y F w')"
  shows "mono_option (\<lambda>F. ibind (B F) (\<lambda>y. C y F) w)"
proof -
  have "mono_option (\<lambda>F. case r of Inl e \<Rightarrow> Some (Inl e, w') | Inr x \<Rightarrow> C x F w')" for r w'
  proof (cases r)
    case (Inr x)
    with assms(2) show ?thesis by simp
  qed (simp add: monotone_def fun_ord_def flat_ord_def)
  then show ?thesis
    unfolding ibind_def
    by (intro bind_mono assms(1)) (simp add: case_prod_beta)
qed

end
