(* ===== verification/Thrift_Protocol.thy ===== *)
theory Thrift_Protocol
  imports Io_Monad
begin

text \<open>
  The Thrift protocol object (\<open>TProtocol\<close> and its transport, library code) as a record of
  actions, the reading and writing shapes that the generated code in
  \<^verbatim>\<open>service/src\<close> repeats for every struct, and the contract of a protocol: the tokens a
  writer emits are read back. The contract is two locales, \<open>thrift_input\<close> and
  \<open>thrift_output\<close>; everything about a struct follows from \<open>read_struct_takes\<close> and
  \<open>write_struct_gives\<close>.
\<close>

section \<open>The protocol object\<close>

datatype ttype =
    T_STOP | T_BOOL | T_BYTE | T_DOUBLE | T_I16 | T_I32 | T_I64 | T_STRING | T_STRUCT
  | T_MAP | T_SET | T_LIST | T_OTHER nat

datatype message_type = T_CALL | T_REPLY | T_EXCEPTION | T_ONEWAY | T_UNKNOWN_MESSAGE nat

text \<open>
  Each action returns, besides what it reads, the number of bytes (\<open>uint32_t\<close>) the code
  adds up in \<open>xfer\<close>. \<open>enter\<close> and \<open>leave\<close> are the constructor and destructor of the
  recursion trackers.
\<close>

record 'w tproto =
  readMessageBegin :: "('w, string \<times> message_type \<times> 32 word) io"
  readMessageEnd :: "('w, 32 word) io"
  readStructBegin :: "('w, 32 word) io"
  readStructEnd :: "('w, 32 word) io"
  readFieldBegin :: "('w, (ttype \<times> 16 word) \<times> 32 word) io"
  readFieldEnd :: "('w, 32 word) io"
  readI32 :: "('w, 32 word \<times> 32 word) io"
  readI64 :: "('w, 64 word \<times> 32 word) io"
  readString :: "('w, string \<times> 32 word) io"
  readListBegin :: "('w, (ttype \<times> 32 word) \<times> 32 word) io"
  readListEnd :: "('w, 32 word) io"
  skip :: "ttype \<Rightarrow> ('w, 32 word) io"
  enter_input :: "('w, unit) io"
  leave_input :: "'w \<Rightarrow> 'w"
  read_exception :: "('w, application_error \<times> string) io"
  transport_readEnd :: "('w, 32 word) io"
  writeMessageBegin :: "string \<Rightarrow> message_type \<Rightarrow> 32 word \<Rightarrow> ('w, 32 word) io"
  writeMessageEnd :: "('w, 32 word) io"
  writeStructBegin :: "string \<Rightarrow> ('w, 32 word) io"
  writeStructEnd :: "('w, 32 word) io"
  writeFieldBegin :: "string \<Rightarrow> ttype \<Rightarrow> 16 word \<Rightarrow> ('w, 32 word) io"
  writeFieldEnd :: "('w, 32 word) io"
  writeFieldStop :: "('w, 32 word) io"
  writeI32 :: "32 word \<Rightarrow> ('w, 32 word) io"
  writeI64 :: "64 word \<Rightarrow> ('w, 32 word) io"
  writeString :: "string \<Rightarrow> ('w, 32 word) io"
  writeListBegin :: "ttype \<Rightarrow> 32 word \<Rightarrow> ('w, 32 word) io"
  writeListEnd :: "('w, 32 word) io"
  enter_output :: "('w, unit) io"
  leave_output :: "'w \<Rightarrow> 'w"
  write_exception :: "application_error \<Rightarrow> string \<Rightarrow> ('w, 32 word) io"
  transport_writeEnd :: "('w, 32 word) io"
  transport_flush :: "('w, unit) io"

section \<open>Reading a struct\<close>

definition input_tracked :: "'w tproto \<Rightarrow> ('w, 'a) io \<Rightarrow> ('w, 'a) io" where
  "input_tracked P m = ithen (enter_input P) (ifinally m (leave_input P))"

text \<open>
  The loop \<open>while (true)\<close> over the fields of a struct, where \<open>field\<close> is the \<open>switch\<close> on the
  field's number and type. It ends at the field stop, or not at all.
\<close>

partial_function (option) read_loop ::
    "'w tproto \<Rightarrow> (16 word \<Rightarrow> ttype \<Rightarrow> 'r \<Rightarrow> ('w, 'r \<times> 32 word) io) \<Rightarrow> 'r \<Rightarrow> 32 word \<Rightarrow> 'w \<Rightarrow>
     ((cpp_error + 'r \<times> 32 word) \<times> 'w) option" where
  "read_loop P field x xfer w =
     ibind (readFieldBegin P) (\<lambda>r w1.
       if fst (fst r) = T_STOP then Some (Inr (x, xfer + snd r), w1)
       else ibind (field (snd (fst r)) (fst (fst r)) x) (\<lambda>y.
              ibind (readFieldEnd P) (\<lambda>k.
                read_loop P field (fst y) (xfer + snd r + snd y + k))) w1) w"

definition skip_field :: "'w tproto \<Rightarrow> ttype \<Rightarrow> 'r \<Rightarrow> ('w, 'r \<times> 32 word) io" where
  "skip_field P ftype x = ibind (skip P ftype) (\<lambda>n. iret (x, n))"

definition read_if ::
    "'w tproto \<Rightarrow> ttype \<Rightarrow> ttype \<Rightarrow> ('w, 'v \<times> 32 word) io \<Rightarrow> ('v \<Rightarrow> 'r) \<Rightarrow> 'r \<Rightarrow> ('w, 'r \<times> 32 word) io" where
  "read_if P ftype want reader upd x =
     (if ftype = want then ibind reader (\<lambda>(v, n). iret (upd v, n)) else skip_field P ftype x)"

definition read_struct ::
    "'w tproto \<Rightarrow> (16 word \<Rightarrow> ttype \<Rightarrow> 'r \<Rightarrow> ('w, 'r \<times> 32 word) io) \<Rightarrow> 'r \<Rightarrow> ('w, 'r \<times> 32 word) io" where
  "read_struct P field x =
     input_tracked P
       (ibind (readStructBegin P) (\<lambda>n.
        ibind (read_loop P field x n) (\<lambda>(x', m).
        ibind (readStructEnd P) (\<lambda>k. iret (x', m + k)))))"

text \<open>A list of strings; the element type that was read is not looked at.\<close>

fun read_strings :: "'w tproto \<Rightarrow> nat \<Rightarrow> ('w, string list \<times> 32 word) io" where
  "read_strings P 0 = iret ([], 0)"
| "read_strings P (Suc n) =
     ibind (readString P) (\<lambda>(s, k). ibind (read_strings P n) (\<lambda>(ss, m). iret (s # ss, k + m)))"

definition read_string_list :: "'w tproto \<Rightarrow> ('w, string list \<times> 32 word) io" where
  "read_string_list P =
     ibind (readListBegin P) (\<lambda>((etype, size), n).
     ibind (read_strings P (unat size)) (\<lambda>(ss, m).
     ibind (readListEnd P) (\<lambda>k. iret (ss, n + m + k))))"

section \<open>Writing a struct\<close>

definition output_tracked :: "'w tproto \<Rightarrow> ('w, 'a) io \<Rightarrow> ('w, 'a) io" where
  "output_tracked P m = ithen (enter_output P) (ifinally m (leave_output P))"

definition write_field ::
    "'w tproto \<Rightarrow> string \<Rightarrow> ttype \<Rightarrow> 16 word \<Rightarrow> ('w, 32 word) io \<Rightarrow> ('w, 32 word) io list" where
  "write_field P name ty fid m = [writeFieldBegin P name ty fid, m, writeFieldEnd P]"

definition write_body :: "'w tproto \<Rightarrow> string \<Rightarrow> ('w, 32 word) io list list \<Rightarrow> ('w, 32 word) io" where
  "write_body P name fs =
     isum 0 (writeStructBegin P name # concat fs @ [writeFieldStop P, writeStructEnd P])"

definition write_struct :: "'w tproto \<Rightarrow> string \<Rightarrow> ('w, 32 word) io list list \<Rightarrow> ('w, 32 word) io" where
  "write_struct P name fs = output_tracked P (write_body P name fs)"

definition write_string_list :: "'w tproto \<Rightarrow> string list \<Rightarrow> ('w, 32 word) io" where
  "write_string_list P ss =
     isum 0 (writeListBegin P T_STRING (of_nat (length ss)) # map (writeString P) ss @ [writeListEnd P])"

section \<open>Tokens\<close>

text \<open>What passes over a connection, apart from how the protocol encodes it in bytes.\<close>

datatype token =
    Tk_Message string message_type "32 word" | Tk_MessageEnd
  | Tk_StructBegin | Tk_StructEnd
  | Tk_Field ttype "16 word" | Tk_FieldEnd | Tk_Stop
  | Tk_I32 "32 word" | Tk_I64 "64 word" | Tk_String string
  | Tk_ListBegin ttype "32 word" | Tk_ListEnd
  | Tk_Exception application_error string

datatype tvalue =
    V_I32 "32 word" | V_I64 "64 word" | V_String string | V_List "string list"
  | V_Struct "(16 word \<times> tvalue) list"

fun value_type :: "tvalue \<Rightarrow> ttype" where
  "value_type (V_I32 _) = T_I32"
| "value_type (V_I64 _) = T_I64"
| "value_type (V_String _) = T_STRING"
| "value_type (V_List _) = T_LIST"
| "value_type (V_Struct _) = T_STRUCT"

fun value_tokens :: "tvalue \<Rightarrow> token list" where
  "value_tokens (V_I32 x) = [Tk_I32 x]"
| "value_tokens (V_I64 x) = [Tk_I64 x]"
| "value_tokens (V_String s) = [Tk_String s]"
| "value_tokens (V_List ss) =
     Tk_ListBegin T_STRING (of_nat (length ss)) # map Tk_String ss @ [Tk_ListEnd]"
| "value_tokens (V_Struct fs) =
     Tk_StructBegin #
       concat (map (\<lambda>(fid, v). Tk_Field (value_type v) fid # value_tokens v @ [Tk_FieldEnd]) fs) @
     [Tk_Stop, Tk_StructEnd]"

text \<open>How deep \<open>skip\<close> nests on a value.\<close>

fun value_depth :: "tvalue \<Rightarrow> nat" where
  "value_depth (V_List _) = 2"
| "value_depth (V_Struct fs) = Suc (foldr (\<lambda>(fid, v) d. max (value_depth v) d) fs 0)"
| "value_depth _ = 1"

text \<open>Strings and lists have lengths below \<open>2 ^ 31\<close>.\<close>

fun value_ok :: "tvalue \<Rightarrow> bool" where
  "value_ok (V_String s) \<longleftrightarrow> length s < 2 ^ 31"
| "value_ok (V_List ss) \<longleftrightarrow> length ss < 2 ^ 31 \<and> (\<forall>s\<in>set ss. length s < 2 ^ 31)"
| "value_ok (V_Struct fs) \<longleftrightarrow> list_all (\<lambda>(fid, v). value_ok v) fs"
| "value_ok _ \<longleftrightarrow> True"

abbreviation field_tokens :: "(16 word \<times> tvalue) list \<Rightarrow> token list" where
  "field_tokens fs \<equiv>
     concat (map (\<lambda>(fid, v). Tk_Field (value_type v) fid # value_tokens v @ [Tk_FieldEnd]) fs)"

lemma value_type_not_stop [simp]: "value_type v \<noteq> T_STOP"
  by (cases v) simp_all

section \<open>The contract of a protocol\<close>

text \<open>
  \<open>conn w a h\<close>: in the world \<open>w\<close> the connection has the unread tokens, the written tokens
  and the nesting depths of \<open>a\<close>, and \<open>h\<close> is everything else. \<open>takes\<close> says what an action
  reads and returns, \<open>gives\<close> what it writes; neither touches \<open>h\<close>.
\<close>

record wire =
  w_in :: "token list"
  w_in_depth :: nat
  w_out :: "token list"
  w_out_depth :: nat

definition recursion_limit :: nat where
  "recursion_limit = 64"

definition takes ::
    "('w \<Rightarrow> wire \<Rightarrow> 'h \<Rightarrow> bool) \<Rightarrow> nat \<Rightarrow> ('w, 'a) io \<Rightarrow> token list \<Rightarrow> 'a \<Rightarrow> bool" where
  "takes conn d m ts x \<longleftrightarrow>
     (\<forall>w a h rest. conn w a h \<longrightarrow> w_in a = ts @ rest \<longrightarrow> w_in_depth a + d \<le> recursion_limit \<longrightarrow>
        (\<exists>w'. m w = Some (Inr x, w') \<and> conn w' (a\<lparr>w_in := rest\<rparr>) h))"

definition gives ::
    "('w \<Rightarrow> wire \<Rightarrow> 'h \<Rightarrow> bool) \<Rightarrow> nat \<Rightarrow> ('w, 'a) io \<Rightarrow> token list \<Rightarrow> 'a \<Rightarrow> bool" where
  "gives conn d m ts x \<longleftrightarrow>
     (\<forall>w a h. conn w a h \<longrightarrow> w_out_depth a + d \<le> recursion_limit \<longrightarrow>
        (\<exists>w'. m w = Some (Inr x, w') \<and> conn w' (a\<lparr>w_out := w_out a @ ts\<rparr>) h))"

lemma takesD:
  "takes conn d m ts x \<Longrightarrow> conn w a h \<Longrightarrow> w_in a = ts @ rest \<Longrightarrow> w_in_depth a + d \<le> recursion_limit \<Longrightarrow>
   \<exists>w'. m w = Some (Inr x, w') \<and> conn w' (a\<lparr>w_in := rest\<rparr>) h"
  by (simp add: takes_def)

lemma givesD:
  "gives conn d m ts x \<Longrightarrow> conn w a h \<Longrightarrow> w_out_depth a + d \<le> recursion_limit \<Longrightarrow>
   \<exists>w'. m w = Some (Inr x, w') \<and> conn w' (a\<lparr>w_out := w_out a @ ts\<rparr>) h"
  by (simp add: gives_def)

lemma takes_iret: "takes conn d (iret x) [] x"
  by (auto simp: takes_def iret_def)

lemma gives_iret: "gives conn d (iret x) [] x"
  by (auto simp: gives_def iret_def)

lemma takes_mono: "takes conn d m ts x \<Longrightarrow> d \<le> d' \<Longrightarrow> takes conn d' m ts x"
  unfolding takes_def by (meson add_left_mono order_trans)

lemma gives_mono: "gives conn d m ts x \<Longrightarrow> d \<le> d' \<Longrightarrow> gives conn d' m ts x"
  unfolding gives_def by (meson add_left_mono order_trans)

lemma takes_bind:
  assumes "takes conn d m ts x" and "takes conn d (f x) us y"
  shows "takes conn d (ibind m f) (ts @ us) y"
  unfolding takes_def
proof (intro allI impI)
  fix w a h rest
  assume c: "conn w a h" "w_in a = (ts @ us) @ rest" "w_in_depth a + d \<le> recursion_limit"
  obtain w1 where 1: "m w = Some (Inr x, w1)" "conn w1 (a\<lparr>w_in := us @ rest\<rparr>) h"
    using takesD [OF assms(1) c(1) _ c(3), of "us @ rest"] c(2) by auto
  then obtain w2 where "f x w1 = Some (Inr y, w2)" "conn w2 (a\<lparr>w_in := us @ rest\<rparr>\<lparr>w_in := rest\<rparr>) h"
    using takesD [OF assms(2) 1(2), of rest] c(3) by auto
  with 1 show "\<exists>w'. ibind m f w = Some (Inr y, w') \<and> conn w' (a\<lparr>w_in := rest\<rparr>) h"
    by (simp add: ibind_Inr)
qed

lemma gives_bind:
  assumes "gives conn d m ts x" and "gives conn d (f x) us y"
  shows "gives conn d (ibind m f) (ts @ us) y"
  unfolding gives_def
proof (intro allI impI)
  fix w a h
  assume c: "conn w a h" "w_out_depth a + d \<le> recursion_limit"
  obtain w1 where 1: "m w = Some (Inr x, w1)" "conn w1 (a\<lparr>w_out := w_out a @ ts\<rparr>) h"
    using givesD [OF assms(1) c] by blast
  then obtain w2 where "f x w1 = Some (Inr y, w2)"
      "conn w2 (a\<lparr>w_out := w_out a @ ts\<rparr>\<lparr>w_out := (w_out a @ ts) @ us\<rparr>) h"
    using givesD [OF assms(2) 1(2)] c(2) by auto
  with 1 show "\<exists>w'. ibind m f w = Some (Inr y, w') \<and> conn w' (a\<lparr>w_out := w_out a @ (ts @ us)\<rparr>) h"
    by (simp add: ibind_Inr)
qed

text \<open>A sum of writes writes the tokens one after the other.\<close>

lemma gives_isum:
  assumes "list_all2 (\<lambda>m tn. gives conn d m (fst tn) (snd tn)) ms tns"
  shows "gives conn d (isum xfer ms) (concat (map fst tns)) (xfer + sum_list (map snd tns))"
  using assms
proof (induction ms tns arbitrary: xfer rule: list_all2_induct)
  case Nil
  show ?case by (simp add: gives_iret)
next
  case (Cons m ms tn tns)
  from gives_bind [where f = "\<lambda>n. isum (xfer + n) ms", OF Cons.hyps(1) Cons.IH [of "xfer + snd tn"]]
  show ?case by (simp add: add.assoc)
qed


lemma isum_append: "isum xfer (ms @ ns) = ibind (isum xfer ms) (\<lambda>y. isum y ns)"
  by (induction ms arbitrary: xfer) (simp_all add: ibind_assoc)

lemma takes_ibind_iret: "takes conn d m ts x \<Longrightarrow> takes conn d (ibind m (\<lambda>y. iret (f y))) ts (f x)"
  using takes_bind [where f = "\<lambda>y. iret (f y)", OF _ takes_iret] by fastforce

locale thrift_input =
  fixes P :: "'w tproto"
    and conn :: "'w \<Rightarrow> wire \<Rightarrow> 'h \<Rightarrow> bool"
    and sz :: "token \<Rightarrow> 32 word"
  assumes in_structBegin: "takes conn 0 (readStructBegin P) [Tk_StructBegin] (sz Tk_StructBegin)"
    and in_structEnd: "takes conn 0 (readStructEnd P) [Tk_StructEnd] (sz Tk_StructEnd)"
    and in_fieldBegin: "ty \<noteq> T_STOP \<Longrightarrow>
      takes conn 0 (readFieldBegin P) [Tk_Field ty fid] ((ty, fid), sz (Tk_Field ty fid))"
    and in_fieldStop: "takes conn 0 (readFieldBegin P) [Tk_Stop] ((T_STOP, 0), sz Tk_Stop)"
    and in_fieldEnd: "takes conn 0 (readFieldEnd P) [Tk_FieldEnd] (sz Tk_FieldEnd)"
    and in_I32: "takes conn 0 (readI32 P) [Tk_I32 i] (i, sz (Tk_I32 i))"
    and in_I64: "takes conn 0 (readI64 P) [Tk_I64 l] (l, sz (Tk_I64 l))"
    and in_String: "length s < 2 ^ 31 \<Longrightarrow> takes conn 0 (readString P) [Tk_String s] (s, sz (Tk_String s))"
    and in_listBegin: "takes conn 0 (readListBegin P) [Tk_ListBegin ty n] ((ty, n), sz (Tk_ListBegin ty n))"
    and in_listEnd: "takes conn 0 (readListEnd P) [Tk_ListEnd] (sz Tk_ListEnd)"
    and in_skip: "value_ok v \<Longrightarrow>
      takes conn (value_depth v) (skip P (value_type v)) (value_tokens v) (sum_list (map sz (value_tokens v)))"
    and in_enter: "conn w a h \<Longrightarrow> w_in_depth a < recursion_limit \<Longrightarrow>
      \<exists>w'. enter_input P w = Some (Inr (), w') \<and> conn w' (a\<lparr>w_in_depth := Suc (w_in_depth a)\<rparr>) h"
    and in_leave: "conn w a h \<Longrightarrow> w_in_depth a = Suc j \<Longrightarrow> conn (leave_input P w) (a\<lparr>w_in_depth := j\<rparr>) h"
    and in_message: "takes conn 0 (readMessageBegin P) [Tk_Message name mty seqid] (name, mty, seqid)"
    and in_messageEnd: "takes conn 0 (readMessageEnd P) [Tk_MessageEnd] (sz Tk_MessageEnd)"
    and in_exception: "length s < 2 ^ 31 \<Longrightarrow> takes conn 2 (read_exception P) [Tk_Exception e s] (e, s)"
    and in_readEnd: "conn w a h \<Longrightarrow> \<exists>n w'. transport_readEnd P w = Some (Inr n, w') \<and> conn w' a h"
begin

lemma tracked_takes:
  assumes "takes conn d m ts x"
  shows "takes conn (Suc d) (input_tracked P m) ts x"
  unfolding takes_def
proof (intro allI impI)
  fix w a h rest
  assume c: "conn w a h" "w_in a = ts @ rest" "w_in_depth a + Suc d \<le> recursion_limit"
  obtain w1 where 1: "enter_input P w = Some (Inr (), w1)" "conn w1 (a\<lparr>w_in_depth := Suc (w_in_depth a)\<rparr>) h"
    using in_enter [OF c(1)] c(3) by auto
  obtain w2 where 2: "m w1 = Some (Inr x, w2)"
      "conn w2 (a\<lparr>w_in_depth := Suc (w_in_depth a)\<rparr>\<lparr>w_in := rest\<rparr>) h"
    using takesD [OF assms 1(2), of rest] c(2,3) by auto
  have "conn (leave_input P w2)
      (a\<lparr>w_in_depth := Suc (w_in_depth a)\<rparr>\<lparr>w_in := rest\<rparr>\<lparr>w_in_depth := w_in_depth a\<rparr>) h"
    by (rule in_leave [OF 2(2)]) simp
  then have "conn (leave_input P w2) (a\<lparr>w_in := rest\<rparr>) h" by simp
  with 1 2 show "\<exists>w'. input_tracked P m w = Some (Inr x, w') \<and> conn w' (a\<lparr>w_in := rest\<rparr>) h"
    by (simp add: input_tracked_def ithen_Inr ifinally_Some)
qed

text \<open>What a field of a struct does to the value read so far, for any sequence of fields.\<close>

lemma read_loop_takes:
  assumes "\<And>fid v x. (fid, v) \<in> set fs \<Longrightarrow>
      takes conn d (field fid (value_type v) x) (value_tokens v) (upd fid v x, sum_list (map sz (value_tokens v)))"
  shows "takes conn d (read_loop P field x xfer) (field_tokens fs @ [Tk_Stop])
     (fold (\<lambda>(fid, v). upd fid v) fs x, xfer + sum_list (map sz (field_tokens fs @ [Tk_Stop])))"
  using assms
proof (induction fs arbitrary: x xfer)
  case Nil
  show ?case
    unfolding takes_def
  proof (intro allI impI)
    fix w a h rest
    assume c: "conn w a h" "w_in a = (field_tokens [] @ [Tk_Stop]) @ rest" "w_in_depth a + d \<le> recursion_limit"
    obtain w' where "readFieldBegin P w = Some (Inr ((T_STOP, 0), sz Tk_Stop), w')" "conn w' (a\<lparr>w_in := rest\<rparr>) h"
      using takesD [OF in_fieldStop c(1), of rest] c by auto
    then show "\<exists>w'. read_loop P field x xfer w = Some (Inr (fold (\<lambda>(fid, v). upd fid v) [] x,
        xfer + sum_list (map sz (field_tokens [] @ [Tk_Stop]))), w') \<and> conn w' (a\<lparr>w_in := rest\<rparr>) h"
      by (subst read_loop.simps) (simp add: ibind_Inr)
  qed
next
  case (Cons fv fs)
  obtain fid v where fv: "fv = (fid, v)" by (cases fv)
  let ?vs = "sum_list (map sz (value_tokens v))"
  let ?x' = "upd fid v x"
  let ?n = "xfer + sz (Tk_Field (value_type v) fid) + ?vs + sz Tk_FieldEnd"
  have f: "takes conn d (field fid (value_type v) x) (value_tokens v) (?x', ?vs)"
    using Cons.prems fv by simp
  have ih: "takes conn d (read_loop P field ?x' ?n) (field_tokens fs @ [Tk_Stop])
     (fold (\<lambda>(fid, v). upd fid v) fs ?x', ?n + sum_list (map sz (field_tokens fs @ [Tk_Stop])))"
    by (rule Cons.IH) (rule Cons.prems, simp)
  show ?case
    unfolding takes_def
  proof (intro allI impI)
    fix w a h rest
    let ?r3 = "field_tokens fs @ [Tk_Stop] @ rest"
    let ?r2 = "Tk_FieldEnd # ?r3"
    let ?r1 = "value_tokens v @ ?r2"
    assume c: "conn w a h" "w_in a = (field_tokens (fv # fs) @ [Tk_Stop]) @ rest"
      "w_in_depth a + d \<le> recursion_limit"
    obtain w1 where 1: "readFieldBegin P w
        = Some (Inr ((value_type v, fid), sz (Tk_Field (value_type v) fid)), w1)" "conn w1 (a\<lparr>w_in := ?r1\<rparr>) h"
      using takesD [OF in_fieldBegin [OF value_type_not_stop] c(1), of v fid ?r1] c(2,3) fv by auto
    obtain w2 where 2: "field fid (value_type v) x w1 = Some (Inr (?x', ?vs), w2)" "conn w2 (a\<lparr>w_in := ?r2\<rparr>) h"
      using takesD [OF f 1(2), of ?r2] c(3) by auto
    obtain w3 where 3: "readFieldEnd P w2 = Some (Inr (sz Tk_FieldEnd), w3)" "conn w3 (a\<lparr>w_in := ?r3\<rparr>) h"
      using takesD [OF in_fieldEnd 2(2), of ?r3] c(3) by auto
    obtain w4 where 4: "read_loop P field ?x' ?n w3 = Some (Inr (fold (\<lambda>(fid, v). upd fid v) fs ?x',
        ?n + sum_list (map sz (field_tokens fs @ [Tk_Stop]))), w4)" "conn w4 (a\<lparr>w_in := rest\<rparr>) h"
      using takesD [OF ih 3(2), of rest] c(3) by auto
    have "read_loop P field x xfer w = Some (Inr (fold (\<lambda>(fid, v). upd fid v) fs ?x',
        ?n + sum_list (map sz (field_tokens fs @ [Tk_Stop]))), w4)"
      by (subst read_loop.simps) (simp add: ibind_Inr 1(1) 2(1) 3(1) 4(1))
    with 4(2) show "\<exists>w'. read_loop P field x xfer w = Some (Inr (fold (\<lambda>(fid, v). upd fid v) (fv # fs) x,
        xfer + sum_list (map sz (field_tokens (fv # fs) @ [Tk_Stop]))), w') \<and> conn w' (a\<lparr>w_in := rest\<rparr>) h"
      by (simp add: fv ac_simps)
  qed
qed

lemma read_struct_takes:
  assumes "\<And>fid v x. (fid, v) \<in> set fs \<Longrightarrow>
      takes conn d (field fid (value_type v) x) (value_tokens v) (upd fid v x, sum_list (map sz (value_tokens v)))"
  shows "takes conn (Suc d) (read_struct P field x) (value_tokens (V_Struct fs))
     (fold (\<lambda>(fid, v). upd fid v) fs x, sum_list (map sz (value_tokens (V_Struct fs))))"
proof -
  let ?y = "fold (\<lambda>(fid, v). upd fid v) fs x"
  let ?m = "sz Tk_StructBegin + sum_list (map sz (field_tokens fs @ [Tk_Stop]))"
  have "takes conn d (ibind (readStructEnd P) (\<lambda>k. iret (?y, ?m + k))) [Tk_StructEnd] (?y, ?m + sz Tk_StructEnd)"
    by (rule takes_ibind_iret) (rule takes_mono [OF in_structEnd], simp)
  then have "takes conn d ((\<lambda>(x', m). ibind (readStructEnd P) (\<lambda>k. iret (x', m + k))) (?y, ?m))
      [Tk_StructEnd] (?y, ?m + sz Tk_StructEnd)"
    by simp
  moreover have "takes conn d (read_loop P field x (sz Tk_StructBegin)) (field_tokens fs @ [Tk_Stop]) (?y, ?m)"
    by (rule read_loop_takes) (rule assms)
  ultimately have "takes conn d (ibind (read_loop P field x (sz Tk_StructBegin)) (\<lambda>(x', m).
      ibind (readStructEnd P) (\<lambda>k. iret (x', m + k))))
      ((field_tokens fs @ [Tk_Stop]) @ [Tk_StructEnd]) (?y, ?m + sz Tk_StructEnd)"
    by (rule takes_bind [rotated])
  then have "takes conn d (ibind (readStructBegin P) (\<lambda>n. ibind (read_loop P field x n) (\<lambda>(x', m).
      ibind (readStructEnd P) (\<lambda>k. iret (x', m + k)))))
      ([Tk_StructBegin] @ (field_tokens fs @ [Tk_Stop]) @ [Tk_StructEnd]) (?y, ?m + sz Tk_StructEnd)"
    by (rule takes_bind [OF takes_mono [OF in_structBegin le0]])
  then have "takes conn (Suc d) (read_struct P field x)
      ([Tk_StructBegin] @ (field_tokens fs @ [Tk_Stop]) @ [Tk_StructEnd]) (?y, ?m + sz Tk_StructEnd)"
    unfolding read_struct_def by (rule tracked_takes)
  then show ?thesis by (simp add: ac_simps)
qed

lemma skip_field_takes:
  "value_ok v \<Longrightarrow> value_depth v \<le> d \<Longrightarrow>
   takes conn d (skip_field P (value_type v) x) (value_tokens v) (x, sum_list (map sz (value_tokens v)))"
  unfolding skip_field_def
  by (rule takes_ibind_iret [where f = "\<lambda>n. (x, n)"]) (rule takes_mono [OF in_skip])

lemma read_if_takes:
  assumes "value_ok v" and "value_depth v \<le> d"
    and "value_type v = want \<Longrightarrow>
      takes conn d reader (value_tokens v) (f v, sum_list (map sz (value_tokens v)))"
  shows "takes conn d (read_if P (value_type v) want reader upd x) (value_tokens v)
     (if value_type v = want then upd (f v) else x, sum_list (map sz (value_tokens v)))"
proof (cases "value_type v = want")
  case True
  then have "takes conn d (ibind reader (\<lambda>y. iret (upd (fst y), snd y))) (value_tokens v)
      (upd (fst (f v, sum_list (map sz (value_tokens v)))), snd (f v, sum_list (map sz (value_tokens v))))"
    by (intro takes_ibind_iret [where f = "\<lambda>y. (upd (fst y), snd y)"] assms(3))
  with True show ?thesis by (simp add: read_if_def case_prod_beta')
next
  case False
  then show ?thesis using skip_field_takes [OF assms(1,2)] by (simp add: read_if_def)
qed

lemma read_strings_takes:
  "\<forall>s\<in>set ss. length s < 2 ^ 31 \<Longrightarrow>
   takes conn 0 (read_strings P (length ss)) (map Tk_String ss) (ss, sum_list (map sz (map Tk_String ss)))"
proof (induction ss)
  case Nil
  show ?case by (simp add: takes_iret)
next
  case (Cons s ss)
  let ?n = "sum_list (map sz (map Tk_String ss))"
  have "takes conn 0 (ibind (read_strings P (length ss)) (\<lambda>r. iret (s # fst r, sz (Tk_String s) + snd r)))
      (map Tk_String ss) (s # fst (ss, ?n), sz (Tk_String s) + snd (ss, ?n))"
    by (rule takes_ibind_iret [where f = "\<lambda>r. (s # fst r, sz (Tk_String s) + snd r)"])
      (rule Cons.IH, use Cons.prems in simp)
  then have rest: "takes conn 0 (ibind (read_strings P (length ss)) (\<lambda>(ss', m). iret (s # ss', sz (Tk_String s) + m)))
      (map Tk_String ss) (s # ss, sz (Tk_String s) + ?n)"
    by (simp add: case_prod_beta')
  have "takes conn 0 (readString P) [Tk_String s] (s, sz (Tk_String s))"
    using Cons.prems by (intro in_String) simp
  from takes_bind [where f = "\<lambda>(s, k). ibind (read_strings P (length ss)) (\<lambda>(ss', m). iret (s # ss', k + m))",
      OF this] rest
  show ?case by simp
qed

lemma read_string_list_takes:
  assumes "length ss < 2 ^ 31" and "\<forall>s\<in>set ss. length s < 2 ^ 31"
  shows "takes conn 0 (read_string_list P) (value_tokens (V_List ss))
     (ss, sum_list (map sz (value_tokens (V_List ss))))"
proof -
  let ?b = "Tk_ListBegin T_STRING (of_nat (length ss))"
  let ?n = "sum_list (map sz (map Tk_String ss))"
  have len: "unat (of_nat (length ss) :: 32 word) = length ss"
    using assms(1) by (simp add: unat_of_nat take_bit_nat_eq_self)
  have "takes conn 0 (ibind (readListEnd P) (\<lambda>k. iret (ss, sz ?b + ?n + k))) [Tk_ListEnd]
      (ss, sz ?b + ?n + sz Tk_ListEnd)"
    by (rule takes_ibind_iret [where f = "\<lambda>k. (ss, sz ?b + ?n + k)"]) (rule in_listEnd)
  then have "takes conn 0 (ibind (read_strings P (length ss)) (\<lambda>(ss, m).
      ibind (readListEnd P) (\<lambda>k. iret (ss, sz ?b + m + k)))) (map Tk_String ss @ [Tk_ListEnd])
      (ss, sz ?b + ?n + sz Tk_ListEnd)"
    using takes_bind [where f = "\<lambda>(ss, m). ibind (readListEnd P) (\<lambda>k. iret (ss, sz ?b + m + k))",
        OF read_strings_takes [OF assms(2)]] by simp
  then have "takes conn 0 (read_string_list P) ([?b] @ map Tk_String ss @ [Tk_ListEnd])
      (ss, sz ?b + ?n + sz Tk_ListEnd)"
    unfolding read_string_list_def
    by (intro takes_bind [OF in_listBegin]) (simp add: len)
  then show ?thesis by (simp add: ac_simps)
qed

end

locale thrift_output =
  fixes P :: "'w tproto"
    and conn :: "'w \<Rightarrow> wire \<Rightarrow> 'h \<Rightarrow> bool"
    and sz :: "token \<Rightarrow> 32 word"
  assumes out_structBegin: "gives conn 0 (writeStructBegin P nm) [Tk_StructBegin] (sz Tk_StructBegin)"
    and out_structEnd: "gives conn 0 (writeStructEnd P) [Tk_StructEnd] (sz Tk_StructEnd)"
    and out_fieldBegin: "ty \<noteq> T_STOP \<Longrightarrow>
      gives conn 0 (writeFieldBegin P nm ty fid) [Tk_Field ty fid] (sz (Tk_Field ty fid))"
    and out_fieldStop: "gives conn 0 (writeFieldStop P) [Tk_Stop] (sz Tk_Stop)"
    and out_fieldEnd: "gives conn 0 (writeFieldEnd P) [Tk_FieldEnd] (sz Tk_FieldEnd)"
    and out_I32: "gives conn 0 (writeI32 P i) [Tk_I32 i] (sz (Tk_I32 i))"
    and out_I64: "gives conn 0 (writeI64 P l) [Tk_I64 l] (sz (Tk_I64 l))"
    and out_String: "length s < 2 ^ 31 \<Longrightarrow> gives conn 0 (writeString P s) [Tk_String s] (sz (Tk_String s))"
    and out_listBegin: "gives conn 0 (writeListBegin P ty n) [Tk_ListBegin ty n] (sz (Tk_ListBegin ty n))"
    and out_listEnd: "gives conn 0 (writeListEnd P) [Tk_ListEnd] (sz Tk_ListEnd)"
    and out_enter: "conn w a h \<Longrightarrow> w_out_depth a < recursion_limit \<Longrightarrow>
      \<exists>w'. enter_output P w = Some (Inr (), w') \<and> conn w' (a\<lparr>w_out_depth := Suc (w_out_depth a)\<rparr>) h"
    and out_leave: "conn w a h \<Longrightarrow> w_out_depth a = Suc j \<Longrightarrow> conn (leave_output P w) (a\<lparr>w_out_depth := j\<rparr>) h"
    and out_message: "gives conn 0 (writeMessageBegin P name mty seqid) [Tk_Message name mty seqid]
      (sz (Tk_Message name mty seqid))"
    and out_messageEnd: "gives conn 0 (writeMessageEnd P) [Tk_MessageEnd] (sz Tk_MessageEnd)"
    and out_exception: "length s < 2 ^ 31 \<Longrightarrow>
      gives conn 2 (write_exception P e s) [Tk_Exception e s] (sz (Tk_Exception e s))"
    and out_writeEnd: "conn w a h \<Longrightarrow> \<exists>n w'. transport_writeEnd P w = Some (Inr n, w') \<and> conn w' a h"
    and out_flush: "conn w a h \<Longrightarrow> \<exists>w'. transport_flush P w = Some (Inr (), w') \<and> conn w' a h"
begin

lemma tracked_gives:
  assumes "gives conn d m ts x"
  shows "gives conn (Suc d) (output_tracked P m) ts x"
  unfolding gives_def
proof (intro allI impI)
  fix w a h
  assume c: "conn w a h" "w_out_depth a + Suc d \<le> recursion_limit"
  obtain w1 where 1: "enter_output P w = Some (Inr (), w1)" "conn w1 (a\<lparr>w_out_depth := Suc (w_out_depth a)\<rparr>) h"
    using out_enter [OF c(1)] c(2) by auto
  obtain w2 where 2: "m w1 = Some (Inr x, w2)"
      "conn w2 (a\<lparr>w_out_depth := Suc (w_out_depth a)\<rparr>\<lparr>w_out := w_out a @ ts\<rparr>) h"
    using givesD [OF assms 1(2)] c(2) by auto
  have "conn (leave_output P w2)
      (a\<lparr>w_out_depth := Suc (w_out_depth a)\<rparr>\<lparr>w_out := w_out a @ ts\<rparr>\<lparr>w_out_depth := w_out_depth a\<rparr>) h"
    by (rule out_leave [OF 2(2)]) simp
  then have "conn (leave_output P w2) (a\<lparr>w_out := w_out a @ ts\<rparr>) h" by simp
  with 1 2 show "\<exists>w'. output_tracked P m w = Some (Inr x, w') \<and> conn w' (a\<lparr>w_out := w_out a @ ts\<rparr>) h"
    by (simp add: output_tracked_def ithen_Inr ifinally_Some)
qed

definition field_gives :: "nat \<Rightarrow> ('w, 32 word) io list \<Rightarrow> 16 word \<times> tvalue \<Rightarrow> bool" where
  "field_gives d acts fv \<longleftrightarrow>
     (\<exists>nm m. acts = write_field P nm (value_type (snd fv)) (fst fv) m \<and>
        gives conn d m (value_tokens (snd fv)) (sum_list (map sz (value_tokens (snd fv)))))"

lemma field_givesI:
  "gives conn d m (value_tokens v) (sum_list (map sz (value_tokens v))) \<Longrightarrow> ty = value_type v \<Longrightarrow>
   field_gives d (write_field P nm ty fid m) (fid, v)"
  by (auto simp: field_gives_def)

lemma fields_gives:
  assumes "list_all2 (field_gives d) ffs fs"
  shows "gives conn d (isum xfer (concat ffs)) (field_tokens fs) (xfer + sum_list (map sz (field_tokens fs)))"
  using assms
proof (induction ffs fs arbitrary: xfer rule: list_all2_induct)
  case Nil
  show ?case by (simp add: gives_iret)
next
  case (Cons acts ffs fv fs)
  obtain fid v where fv: "fv = (fid, v)" by (cases fv)
  obtain nm m where m: "acts = write_field P nm (value_type v) fid m"
      "gives conn d m (value_tokens v) (sum_list (map sz (value_tokens v)))"
    using Cons.hyps(1) fv by (auto simp: field_gives_def)
  let ?n = "sum_list (map sz (Tk_Field (value_type v) fid # value_tokens v @ [Tk_FieldEnd]))"
  have f: "gives conn d (isum xfer acts) (Tk_Field (value_type v) fid # value_tokens v @ [Tk_FieldEnd])
      (xfer + ?n)"
    using gives_isum [where conn = conn and d = d and xfer = xfer and ms = acts and
        tns = "[([Tk_Field (value_type v) fid], sz (Tk_Field (value_type v) fid)),
          (value_tokens v, sum_list (map sz (value_tokens v))), ([Tk_FieldEnd], sz Tk_FieldEnd)]"] m
      gives_mono [OF out_fieldBegin [OF value_type_not_stop] le0] gives_mono [OF out_fieldEnd le0]
    by (simp add: write_field_def add.assoc)
  from gives_bind [where f = "\<lambda>y. isum y (concat ffs)", OF f Cons.IH]
  show ?case by (simp add: isum_append fv ac_simps)
qed

lemma write_body_gives:
  assumes "list_all2 (field_gives d) ffs fs"
  shows "gives conn d (write_body P nm ffs) (value_tokens (V_Struct fs))
     (sum_list (map sz (value_tokens (V_Struct fs))))"
proof -
  let ?m = "sz Tk_StructBegin + sum_list (map sz (field_tokens fs))"
  have e: "gives conn d (isum ?m [writeFieldStop P, writeStructEnd P]) [Tk_Stop, Tk_StructEnd]
      (?m + (sz Tk_Stop + sz Tk_StructEnd))"
    using gives_isum [where conn = conn and d = d and xfer = ?m and ms = "[writeFieldStop P, writeStructEnd P]"
        and tns = "[([Tk_Stop], sz Tk_Stop), ([Tk_StructEnd], sz Tk_StructEnd)]"]
      gives_mono [OF out_fieldStop le0] gives_mono [OF out_structEnd le0] by simp
  have "gives conn d (isum (sz Tk_StructBegin) (concat ffs @ [writeFieldStop P, writeStructEnd P]))
      (field_tokens fs @ [Tk_Stop, Tk_StructEnd]) (?m + (sz Tk_Stop + sz Tk_StructEnd))"
    unfolding isum_append
    by (rule gives_bind) (rule fields_gives [OF assms], rule e)
  from gives_bind [where f = "\<lambda>n. isum (0 + n) (concat ffs @ [writeFieldStop P, writeStructEnd P])",
      OF gives_mono [OF out_structBegin le0], of d] this
  show ?thesis by (simp add: write_body_def ac_simps)
qed

lemma write_struct_gives:
  "list_all2 (field_gives d) ffs fs \<Longrightarrow>
   gives conn (Suc d) (write_struct P nm ffs) (value_tokens (V_Struct fs))
     (sum_list (map sz (value_tokens (V_Struct fs))))"
  unfolding write_struct_def by (intro tracked_gives write_body_gives)

lemma write_string_list_gives:
  assumes "length ss < 2 ^ 31" and "\<forall>s\<in>set ss. length s < 2 ^ 31"
  shows "gives conn d (write_string_list P ss) (value_tokens (V_List ss))
     (sum_list (map sz (value_tokens (V_List ss))))"
proof -
  let ?b = "Tk_ListBegin T_STRING (of_nat (length ss))"
  let ?tns = "([?b], sz ?b) # map (\<lambda>s. ([Tk_String s], sz (Tk_String s))) ss @ [([Tk_ListEnd], sz Tk_ListEnd)]"
  have "list_all2 (\<lambda>m tn. gives conn d m (fst tn) (snd tn)) (map (writeString P) ss)
      (map (\<lambda>s. ([Tk_String s], sz (Tk_String s))) ss)"
    using assms(2) by (induction ss) (auto intro!: gives_mono [OF out_String le0])
  then have "list_all2 (\<lambda>m tn. gives conn d m (fst tn) (snd tn))
      (writeListBegin P T_STRING (of_nat (length ss)) # map (writeString P) ss @ [writeListEnd P]) ?tns"
    by (intro list.rel_intros(2) list_all2_appendI)
      (simp_all add: gives_mono [OF out_listBegin le0] gives_mono [OF out_listEnd le0])
  from gives_isum [OF this, of 0]
  show ?thesis by (simp add: write_string_list_def o_def add.assoc)
qed

end

end
