(* ===== verification/Thrift_Types.thy ===== *)
theory Thrift_Types
  imports Thrift_Protocol
begin

text \<open>
  \<^verbatim>\<open>service/src/proxy_types.h\<close> and \<^verbatim>\<open>proxy_types.cpp\<close>: \<open>sequence_id\<close>, the identifier a
  request carries to its response, with its three required fields. Reading it is proved for
  every sequence of fields: in any order, with unknown fields in between, the last value of a
  field wins, and a missing field is \<open>INVALID_DATA\<close>.
\<close>

section \<open>The type\<close>

record sequence_id =
  sq_client_id :: "64 word"
  sq_client_seq_no :: "64 word"
  sq_server_seq_no :: "64 word"

definition sequence_id_new :: sequence_id where
  "sequence_id_new = \<lparr>sq_client_id = 0, sq_client_seq_no = 0, sq_server_seq_no = 0\<rparr>"

definition set_client_id :: "64 word \<Rightarrow> sequence_id \<Rightarrow> sequence_id" where
  "set_client_id val s = s\<lparr>sq_client_id := val\<rparr>"

definition set_client_seq_no :: "64 word \<Rightarrow> sequence_id \<Rightarrow> sequence_id" where
  "set_client_seq_no val s = s\<lparr>sq_client_seq_no := val\<rparr>"

definition set_server_seq_no :: "64 word \<Rightarrow> sequence_id \<Rightarrow> sequence_id" where
  "set_server_seq_no val s = s\<lparr>sq_server_seq_no := val\<rparr>"

definition sequence_id_eq :: "sequence_id \<Rightarrow> sequence_id \<Rightarrow> bool" where
  "sequence_id_eq a rhs =
     (if \<not> (sq_client_id a = sq_client_id rhs) then False
      else if \<not> (sq_client_seq_no a = sq_client_seq_no rhs) then False
      else if \<not> (sq_server_seq_no a = sq_server_seq_no rhs) then False
      else True)"

definition sequence_id_neq :: "sequence_id \<Rightarrow> sequence_id \<Rightarrow> bool" where
  "sequence_id_neq a rhs = (\<not> sequence_id_eq a rhs)"

definition sequence_id_copy :: "sequence_id \<Rightarrow> sequence_id" where
  "sequence_id_copy other0 =
     \<lparr>sq_client_id = sq_client_id other0, sq_client_seq_no = sq_client_seq_no other0,
      sq_server_seq_no = sq_server_seq_no other0\<rparr>"

definition sequence_id_assign :: "sequence_id \<Rightarrow> sequence_id \<Rightarrow> sequence_id" where
  "sequence_id_assign this other1 =
     this\<lparr>sq_client_id := sq_client_id other1, sq_client_seq_no := sq_client_seq_no other1,
          sq_server_seq_no := sq_server_seq_no other1\<rparr>"

definition sequence_id_swap :: "sequence_id \<Rightarrow> sequence_id \<Rightarrow> sequence_id \<times> sequence_id" where
  "sequence_id_swap a b =
     (let (a1, b1) = (a\<lparr>sq_client_id := sq_client_id b\<rparr>, b\<lparr>sq_client_id := sq_client_id a\<rparr>);
          (a2, b2) = (a1\<lparr>sq_client_seq_no := sq_client_seq_no b1\<rparr>, b1\<lparr>sq_client_seq_no := sq_client_seq_no a1\<rparr>)
      in (a2\<lparr>sq_server_seq_no := sq_server_seq_no b2\<rparr>, b2\<lparr>sq_server_seq_no := sq_server_seq_no a2\<rparr>))"

definition sequence_id_printTo :: "sequence_id \<Rightarrow> string" where
  "sequence_id_printTo s =
     ''sequence_id('' @ ''client_id='' @ to_string (sint (sq_client_id s))
       @ '', '' @ ''client_seq_no='' @ to_string (sint (sq_client_seq_no s))
       @ '', '' @ ''server_seq_no='' @ to_string (sint (sq_server_seq_no s)) @ '')''"

lemma sequence_id_eq_iff: "sequence_id_eq a b \<longleftrightarrow> a = b"
  by (auto simp: sequence_id_eq_def)

lemma sequence_id_swap_eq: "sequence_id_swap a b = (b, a)"
  by (simp add: sequence_id_swap_def)

lemma sequence_id_copies: "sequence_id_copy s = s" "sequence_id_assign t s = s"
  by (simp_all add: sequence_id_copy_def sequence_id_assign_def)

section \<open>Reading and writing\<close>

text \<open>The value read so far, and the three local flags \<open>isset_\<dots>\<close>.\<close>

type_synonym seq_reading = "sequence_id \<times> bool \<times> bool \<times> bool"

definition sequence_id_field ::
    "'w tproto \<Rightarrow> 16 word \<Rightarrow> ttype \<Rightarrow> seq_reading \<Rightarrow> ('w, seq_reading \<times> 32 word) io" where
  "sequence_id_field P fid ftype r =
     (case r of (x, s1, s2, s3) \<Rightarrow>
       if fid = 1 then
         read_if P ftype T_I64 (readI64 P) (\<lambda>v. (x\<lparr>sq_client_id := v\<rparr>, True, s2, s3)) r
       else if fid = 2 then
         read_if P ftype T_I64 (readI64 P) (\<lambda>v. (x\<lparr>sq_client_seq_no := v\<rparr>, s1, True, s3)) r
       else if fid = 3 then
         read_if P ftype T_I64 (readI64 P) (\<lambda>v. (x\<lparr>sq_server_seq_no := v\<rparr>, s1, s2, True)) r
       else skip_field P ftype r)"

definition sequence_id_read :: "'w tproto \<Rightarrow> sequence_id \<Rightarrow> ('w, sequence_id \<times> 32 word) io" where
  "sequence_id_read P this =
     ibind (read_struct P (sequence_id_field P) (this, False, False, False))
       (\<lambda>((x, s1, s2, s3), xfer).
          if \<not> s1 then ithrow (Protocol_exception INVALID_DATA)
          else if \<not> s2 then ithrow (Protocol_exception INVALID_DATA)
          else if \<not> s3 then ithrow (Protocol_exception INVALID_DATA)
          else iret (x, xfer))"

definition sequence_id_write :: "'w tproto \<Rightarrow> sequence_id \<Rightarrow> ('w, 32 word) io" where
  "sequence_id_write P this =
     write_struct P ''sequence_id''
       [write_field P ''client_id'' T_I64 1 (writeI64 P (sq_client_id this)),
        write_field P ''client_seq_no'' T_I64 2 (writeI64 P (sq_client_seq_no this)),
        write_field P ''server_seq_no'' T_I64 3 (writeI64 P (sq_server_seq_no this))]"

section \<open>What reading and writing mean\<close>

text \<open>A field of the right type goes to \<open>f\<close>; any other leaves \<open>x\<close>.\<close>

definition on_i32 :: "tvalue \<Rightarrow> (32 word \<Rightarrow> 'r) \<Rightarrow> 'r \<Rightarrow> 'r" where
  "on_i32 v f x = (case v of V_I32 i \<Rightarrow> f i | _ \<Rightarrow> x)"

definition on_i64 :: "tvalue \<Rightarrow> (64 word \<Rightarrow> 'r) \<Rightarrow> 'r \<Rightarrow> 'r" where
  "on_i64 v f x = (case v of V_I64 l \<Rightarrow> f l | _ \<Rightarrow> x)"

definition on_string :: "tvalue \<Rightarrow> (string \<Rightarrow> 'r) \<Rightarrow> 'r \<Rightarrow> 'r" where
  "on_string v f x = (case v of V_String s \<Rightarrow> f s | _ \<Rightarrow> x)"

definition on_list :: "tvalue \<Rightarrow> (string list \<Rightarrow> 'r) \<Rightarrow> 'r \<Rightarrow> 'r" where
  "on_list v f x = (case v of V_List ss \<Rightarrow> f ss | _ \<Rightarrow> x)"

lemmas on_value_defs = on_i32_def on_i64_def on_string_def on_list_def

definition seq_upd :: "16 word \<Rightarrow> tvalue \<Rightarrow> seq_reading \<Rightarrow> seq_reading" where
  "seq_upd fid v r =
     (case r of (x, s1, s2, s3) \<Rightarrow>
       if fid = 1 then on_i64 v (\<lambda>l. (x\<lparr>sq_client_id := l\<rparr>, True, s2, s3)) r
       else if fid = 2 then on_i64 v (\<lambda>l. (x\<lparr>sq_client_seq_no := l\<rparr>, s1, True, s3)) r
       else if fid = 3 then on_i64 v (\<lambda>l. (x\<lparr>sq_server_seq_no := l\<rparr>, s1, s2, True)) r
       else r)"

definition seq_fields :: "sequence_id \<Rightarrow> (16 word \<times> tvalue) list \<Rightarrow> seq_reading" where
  "seq_fields x fs = fold (\<lambda>(fid, v). seq_upd fid v) fs (x, False, False, False)"

definition seq_complete :: "(16 word \<times> tvalue) list \<Rightarrow> bool" where
  "seq_complete fs \<longleftrightarrow> snd (seq_fields sequence_id_new fs) = (True, True, True)"

definition seq_value :: "sequence_id \<Rightarrow> tvalue" where
  "seq_value s = V_Struct [(1, V_I64 (sq_client_id s)), (2, V_I64 (sq_client_seq_no s)),
     (3, V_I64 (sq_server_seq_no s))]"

text \<open>\<open>fields_ok d fs\<close>: fields that a reader with \<open>d\<close> levels of nesting left accepts.\<close>

definition fields_ok :: "nat \<Rightarrow> (16 word \<times> tvalue) list \<Rightarrow> bool" where
  "fields_ok d fs \<longleftrightarrow> (\<forall>(fid, v)\<in>set fs. value_ok v \<and> value_depth v \<le> d)"

lemma fields_okD: "fields_ok d fs \<Longrightarrow> (fid, v) \<in> set fs \<Longrightarrow> value_ok v \<and> value_depth v \<le> d"
  by (auto simp: fields_ok_def)

lemma fields_ok_simps [simp]:
  "fields_ok d []"
  "fields_ok d ((fid, v) # fs) \<longleftrightarrow> value_ok v \<and> value_depth v \<le> d \<and> fields_ok d fs"
  by (auto simp: fields_ok_def)

lemma fields_ok_struct: "value_ok (V_Struct fs) \<Longrightarrow> value_depth (V_Struct fs) \<le> Suc d \<Longrightarrow> fields_ok d fs"
  by (induction fs) auto

lemma seq_flags: "snd (fold (\<lambda>(fid, v). seq_upd fid v) fs (x, s)) = snd (fold (\<lambda>(fid, v). seq_upd fid v) fs (y, s))"
proof (induction fs arbitrary: x y s)
  case (Cons fv fs)
  obtain fid v where fv: "fv = (fid, v)" by (cases fv)
  obtain s1 s2 s3 where s: "s = (s1, s2, s3)" by (cases s)
  have "\<exists>x' y' s'. seq_upd fid v (x, s) = (x', s') \<and> seq_upd fid v (y, s) = (y', s')"
    by (auto simp: seq_upd_def on_i64_def s split: tvalue.splits)
  with Cons fv show ?case by auto
qed simp

lemma seq_complete_any: "seq_complete fs \<Longrightarrow> snd (seq_fields x fs) = (True, True, True)"
  unfolding seq_complete_def seq_fields_def using seq_flags by metis

lemma seq_value_simps [simp]:
  "value_type (seq_value s) = T_STRUCT" "value_ok (seq_value s)" "value_depth (seq_value s) = 2"
  by (simp_all add: seq_value_def)

lemma seq_value_reads:
  "seq_fields x [(1, V_I64 (sq_client_id s)), (2, V_I64 (sq_client_seq_no s)), (3, V_I64 (sq_server_seq_no s))]
     = (s, True, True, True)"
  by (simp add: seq_fields_def seq_upd_def on_i64_def)

context thrift_input begin

abbreviation size_of :: "token list \<Rightarrow> 32 word" where
  "size_of ts \<equiv> sum_list (map sz ts)"

lemma read_i32_takes:
  "value_ok v \<Longrightarrow> value_depth v \<le> d \<Longrightarrow>
   takes conn d (read_if P (value_type v) T_I32 (readI32 P) upd x) (value_tokens v)
     (on_i32 v upd x, size_of (value_tokens v))"
  using read_if_takes [where v = v and d = d and want = T_I32 and reader = "readI32 P" and upd = upd and x = x
      and f = "\<lambda>v. case v of V_I32 i \<Rightarrow> i"] takes_mono [OF in_I32 le0]
  by (cases v) (simp_all add: on_value_defs)

lemma read_i64_takes:
  "value_ok v \<Longrightarrow> value_depth v \<le> d \<Longrightarrow>
   takes conn d (read_if P (value_type v) T_I64 (readI64 P) upd x) (value_tokens v)
     (on_i64 v upd x, size_of (value_tokens v))"
  using read_if_takes [where v = v and d = d and want = T_I64 and reader = "readI64 P" and upd = upd and x = x
      and f = "\<lambda>v. case v of V_I64 i \<Rightarrow> i"] takes_mono [OF in_I64 le0]
  by (cases v) (simp_all add: on_value_defs)

lemma read_string_takes:
  "value_ok v \<Longrightarrow> value_depth v \<le> d \<Longrightarrow>
   takes conn d (read_if P (value_type v) T_STRING (readString P) upd x) (value_tokens v)
     (on_string v upd x, size_of (value_tokens v))"
  using read_if_takes [where v = v and d = d and want = T_STRING and reader = "readString P" and upd = upd and x = x
      and f = "\<lambda>v. case v of V_String i \<Rightarrow> i"] takes_mono [OF in_String le0]
  by (cases v) (simp_all add: on_value_defs)

lemma read_list_takes:
  assumes "value_ok v" and "value_depth v \<le> d"
  shows "takes conn d (read_if P (value_type v) T_LIST (read_string_list P) upd x) (value_tokens v)
     (on_list v upd x, size_of (value_tokens v))"
proof (cases v)
  case (V_List ss)
  have "takes conn d (read_string_list P) (value_tokens v) (ss, size_of (value_tokens v))"
    unfolding V_List by (rule takes_mono [OF read_string_list_takes le0]) (use assms(1) V_List in simp_all)
  with read_if_takes [OF assms, where want = T_LIST and reader = "read_string_list P" and upd = upd and x = x
      and f = "\<lambda>v. case v of V_List i \<Rightarrow> i"]
  show ?thesis by (simp add: V_List on_list_def del: value_tokens.simps)
qed (use skip_field_takes [OF assms] in \<open>simp_all add: on_list_def read_if_def del: value_tokens.simps\<close>)

lemmas field_takes = read_i32_takes read_i64_takes read_string_takes read_list_takes skip_field_takes

lemma sequence_id_field_takes:
  "value_ok v \<Longrightarrow> value_depth v \<le> d \<Longrightarrow>
   takes conn d (sequence_id_field P fid (value_type v) r) (value_tokens v)
     (seq_upd fid v r, size_of (value_tokens v))"
  by (cases r) (simp add: sequence_id_field_def seq_upd_def field_takes)

lemma sequence_id_loop_takes:
  "fields_ok d fs \<Longrightarrow>
   takes conn (Suc d) (read_struct P (sequence_id_field P) (x, False, False, False)) (value_tokens (V_Struct fs))
     (seq_fields x fs, size_of (value_tokens (V_Struct fs)))"
  unfolding seq_fields_def
  by (rule read_struct_takes) (blast dest: fields_okD intro: sequence_id_field_takes)

lemma sequence_id_read_takes:
  assumes "fields_ok d fs" and "seq_complete fs"
  shows "takes conn (Suc d) (sequence_id_read P x) (value_tokens (V_Struct fs))
     (fst (seq_fields x fs), size_of (value_tokens (V_Struct fs)))"
proof -
  obtain y where y: "seq_fields x fs = (y, True, True, True)"
    using seq_complete_any [OF assms(2)] by (metis prod.collapse)
  have "takes conn (Suc d) (sequence_id_read P x) (value_tokens (V_Struct fs) @ [])
      (y, size_of (value_tokens (V_Struct fs)))"
    unfolding sequence_id_read_def
    by (rule takes_bind [OF sequence_id_loop_takes [OF assms(1), of x, unfolded y]])
      (simp add: takes_iret)
  then show ?thesis by (simp add: y)
qed

lemma sequence_id_read_missing:
  assumes "fields_ok d fs" and "\<not> seq_complete fs"
    and "conn w a h" and "w_in a = value_tokens (V_Struct fs) @ rest" and "w_in_depth a + Suc d \<le> recursion_limit"
  shows "\<exists>w'. sequence_id_read P x w = Some (Inl (Protocol_exception INVALID_DATA), w') \<and>
    conn w' (a\<lparr>w_in := rest\<rparr>) h"
proof -
  obtain y s1 s2 s3 where y: "seq_fields x fs = (y, s1, s2, s3)" by (cases "seq_fields x fs") auto
  have "snd (seq_fields x fs) = snd (seq_fields sequence_id_new fs)"
    unfolding seq_fields_def by (rule seq_flags)
  then have "\<not> (s1 \<and> s2 \<and> s3)" using assms(2) y by (auto simp: seq_complete_def)
  moreover obtain w' where "read_struct P (sequence_id_field P) (x, False, False, False) w
      = Some (Inr ((y, s1, s2, s3), size_of (value_tokens (V_Struct fs))), w')" "conn w' (a\<lparr>w_in := rest\<rparr>) h"
    using takesD [OF sequence_id_loop_takes [OF assms(1), of x, unfolded y] assms(3-5)] by blast
  ultimately show ?thesis
    by (auto simp: sequence_id_read_def ibind_Inr ithrow_apply)
qed

lemma read_seq_takes:
  assumes "value_ok v" and "value_depth v \<le> d" and "\<And>fs. v = V_Struct fs \<Longrightarrow> seq_complete fs"
  shows "takes conn d (read_if P (value_type v) T_STRUCT (sequence_id_read P y) upd x) (value_tokens v)
     (case v of V_Struct fs \<Rightarrow> upd (fst (seq_fields y fs)) | _ \<Rightarrow> x, size_of (value_tokens v))"
proof (cases v)
  case (V_Struct fs)
  obtain d' where d: "d = Suc d'" using assms(2) V_Struct by (cases d) simp_all
  have "takes conn d (sequence_id_read P y) (value_tokens v) (fst (seq_fields y fs), size_of (value_tokens v))"
    unfolding V_Struct d
    by (rule sequence_id_read_takes) (use assms V_Struct d in \<open>auto intro: fields_ok_struct\<close>)
  with read_if_takes [OF assms(1,2), where want = T_STRUCT and reader = "sequence_id_read P y" and upd = upd
      and x = x and f = "\<lambda>v. case v of V_Struct fs \<Rightarrow> fst (seq_fields y fs)"]
  show ?thesis by (simp add: V_Struct del: value_tokens.simps)
qed (use skip_field_takes [OF assms(1,2)] in \<open>simp_all add: read_if_def del: value_tokens.simps\<close>)

lemma seq_arg_takes:
  assumes "fields_ok d fs" and "\<And>fs'. (1, V_Struct fs') \<in> set fs \<Longrightarrow> seq_complete fs'" and "(1, v) \<in> set fs"
  shows "takes conn d (read_if P (value_type v) T_STRUCT (sequence_id_read P y) upd x) (value_tokens v)
     (case v of V_Struct fs \<Rightarrow> upd (fst (seq_fields y fs)) | _ \<Rightarrow> x, size_of (value_tokens v))"
  by (rule read_seq_takes) (use assms in \<open>auto dest: fields_okD\<close>)

end

context thrift_output begin

lemma field_i32: "field_gives d (write_field P nm T_I32 fid (writeI32 P i)) (fid, V_I32 i)"
  using gives_mono [OF out_I32 le0] by (auto intro!: field_givesI)

lemma field_i64: "field_gives d (write_field P nm T_I64 fid (writeI64 P l)) (fid, V_I64 l)"
  using gives_mono [OF out_I64 le0] by (auto intro!: field_givesI)

lemma field_string:
  "length s < 2 ^ 31 \<Longrightarrow> field_gives d (write_field P nm T_STRING fid (writeString P s)) (fid, V_String s)"
  using gives_mono [OF out_String le0] by (auto intro!: field_givesI)

lemma field_list:
  "value_ok (V_List ss) \<Longrightarrow> field_gives d (write_field P nm T_LIST fid (write_string_list P ss)) (fid, V_List ss)"
  using write_string_list_gives by (auto intro!: field_givesI simp del: value_tokens.simps)

lemma sequence_id_write_gives:
  "gives conn (Suc d) (sequence_id_write P s) (value_tokens (seq_value s)) (sum_list (map sz (value_tokens (seq_value s))))"
  unfolding sequence_id_write_def seq_value_def
  by (rule write_struct_gives) (simp add: field_i64)

lemma field_seq: "field_gives (Suc d) (write_field P nm T_STRUCT fid (sequence_id_write P s)) (fid, seq_value s)"
  by (rule field_givesI) (simp_all add: sequence_id_write_gives)

lemmas field_writes = field_i32 field_i64 field_string field_list field_seq

end

end
