(* ===== verification/Thrift_Args.thy ===== *)
theory Thrift_Args
  imports Thrift_Types
begin

text \<open>
  The argument and result structs of the ten methods of \<open>pancake_thrift\<close>
  (\<^verbatim>\<open>service/src/thrift.h\<close> and the first half of \<^verbatim>\<open>thrift.cpp\<close>): for each method the
  struct with its \<open>__isset\<close> flags, the \<open>switch\<close> of its \<open>read\<close> (\<open>_field\<close>), \<open>read\<close>,
  \<open>write\<close>, and the \<open>write\<close> of its \<open>pargs\<close> and \<open>read\<close> of its \<open>presult\<close>, which are the
  same structs over pointers. A struct without fields is \<open>unit\<close>. The names drop the
  prefix \<open>pancake_thrift_\<close>.
\<close>

section \<open>The structs\<close>

subsection \<open>\<^verbatim>\<open>get_client_id\<close>\<close>

definition get_client_id_args_read :: "'w tproto \<Rightarrow> ('w, unit \<times> 32 word) io" where
  "get_client_id_args_read P = read_struct P (\<lambda>fid ftype x. skip_field P ftype x) ()"

definition get_client_id_args_write :: "'w tproto \<Rightarrow> ('w, 32 word) io" where
  "get_client_id_args_write P = write_struct P ''pancake_thrift_get_client_id_args'' []"

definition get_client_id_pargs_write :: "'w tproto \<Rightarrow> ('w, 32 word) io" where
  "get_client_id_pargs_write P = write_struct P ''pancake_thrift_get_client_id_pargs'' []"

record get_client_id_result =
  gcr_success :: "64 word"
  gcr_isset_success :: bool

definition get_client_id_result_new :: get_client_id_result where
  "get_client_id_result_new =
     \<lparr>gcr_success = 0,
      gcr_isset_success = False\<rparr>"

definition get_client_id_result_eq :: "get_client_id_result \<Rightarrow> get_client_id_result \<Rightarrow> bool" where
  "get_client_id_result_eq a rhs =
     (if \<not> (gcr_success a = gcr_success rhs) then False
      else True)"

definition get_client_id_result_neq :: "get_client_id_result \<Rightarrow> get_client_id_result \<Rightarrow> bool" where
  "get_client_id_result_neq a rhs = (\<not> get_client_id_result_eq a rhs)"

definition get_client_id_result_field ::
    "'w tproto \<Rightarrow> 16 word \<Rightarrow> ttype \<Rightarrow> get_client_id_result \<Rightarrow> ('w, get_client_id_result \<times> 32 word) io" where
  "get_client_id_result_field P fid ftype x =
     (if fid = 0 then
        read_if P ftype T_I64 (readI64 P) (\<lambda>v. x\<lparr>gcr_success := v, gcr_isset_success := True\<rparr>) x
      else skip_field P ftype x)"

definition get_client_id_result_read :: "'w tproto \<Rightarrow> get_client_id_result \<Rightarrow> ('w, get_client_id_result \<times> 32 word) io" where
  "get_client_id_result_read P this = read_struct P (get_client_id_result_field P) this"

definition get_client_id_result_write :: "'w tproto \<Rightarrow> get_client_id_result \<Rightarrow> ('w, 32 word) io" where
  "get_client_id_result_write P this =
     write_body P ''pancake_thrift_get_client_id_result''
       (if gcr_isset_success this then
          [write_field P ''success'' T_I64 0 (writeI64 P (gcr_success this))]
        else [])"

text \<open>The \<open>presult\<close> reads through a pointer to the caller's variable.\<close>

definition get_client_id_presult_read :: "'w tproto \<Rightarrow> get_client_id_result \<Rightarrow> ('w, get_client_id_result \<times> 32 word) io" where
  "get_client_id_presult_read P this = read_struct P (get_client_id_result_field P) this"

subsection \<open>\<^verbatim>\<open>register_client_id\<close>\<close>

record register_client_id_args =
  rc_block_id :: "32 word"
  rc_client_id :: "64 word"
  rc_isset_block_id :: bool
  rc_isset_client_id :: bool

definition register_client_id_args_new :: register_client_id_args where
  "register_client_id_args_new =
     \<lparr>rc_block_id = 0, rc_client_id = 0,
      rc_isset_block_id = False, rc_isset_client_id = False\<rparr>"

definition register_client_id_args_eq :: "register_client_id_args \<Rightarrow> register_client_id_args \<Rightarrow> bool" where
  "register_client_id_args_eq a rhs =
     (if \<not> (rc_block_id a = rc_block_id rhs) then False
      else if \<not> (rc_client_id a = rc_client_id rhs) then False
      else True)"

definition register_client_id_args_neq :: "register_client_id_args \<Rightarrow> register_client_id_args \<Rightarrow> bool" where
  "register_client_id_args_neq a rhs = (\<not> register_client_id_args_eq a rhs)"

definition register_client_id_args_field ::
    "'w tproto \<Rightarrow> 16 word \<Rightarrow> ttype \<Rightarrow> register_client_id_args \<Rightarrow> ('w, register_client_id_args \<times> 32 word) io" where
  "register_client_id_args_field P fid ftype x =
     (if fid = 1 then
        read_if P ftype T_I32 (readI32 P) (\<lambda>v. x\<lparr>rc_block_id := v, rc_isset_block_id := True\<rparr>) x
      else if fid = 2 then
        read_if P ftype T_I64 (readI64 P) (\<lambda>v. x\<lparr>rc_client_id := v, rc_isset_client_id := True\<rparr>) x
      else skip_field P ftype x)"

definition register_client_id_args_read :: "'w tproto \<Rightarrow> register_client_id_args \<Rightarrow> ('w, register_client_id_args \<times> 32 word) io" where
  "register_client_id_args_read P this = read_struct P (register_client_id_args_field P) this"

definition register_client_id_args_write :: "'w tproto \<Rightarrow> register_client_id_args \<Rightarrow> ('w, 32 word) io" where
  "register_client_id_args_write P this =
     write_struct P ''pancake_thrift_register_client_id_args''
       [write_field P ''block_id'' T_I32 1 (writeI32 P (rc_block_id this)),
        write_field P ''client_id'' T_I64 2 (writeI64 P (rc_client_id this))]"

definition register_client_id_pargs_write :: "'w tproto \<Rightarrow> 32 word \<Rightarrow> 64 word \<Rightarrow> ('w, 32 word) io" where
  "register_client_id_pargs_write P block_id client_id =
     write_struct P ''pancake_thrift_register_client_id_pargs''
       [write_field P ''block_id'' T_I32 1 (writeI32 P block_id),
        write_field P ''client_id'' T_I64 2 (writeI64 P client_id)]"

definition register_client_id_result_read :: "'w tproto \<Rightarrow> ('w, unit \<times> 32 word) io" where
  "register_client_id_result_read P = read_struct P (\<lambda>fid ftype x. skip_field P ftype x) ()"

definition register_client_id_result_write :: "'w tproto \<Rightarrow> ('w, 32 word) io" where
  "register_client_id_result_write P = write_body P ''pancake_thrift_register_client_id_result'' []"

definition register_client_id_presult_read :: "'w tproto \<Rightarrow> ('w, unit \<times> 32 word) io" where
  "register_client_id_presult_read P = read_struct P (\<lambda>fid ftype x. skip_field P ftype x) ()"

subsection \<open>\<^verbatim>\<open>async_get\<close>\<close>

record async_get_args =
  ag_seq_id :: sequence_id
  ag_key :: string
  ag_isset_seq_id :: bool
  ag_isset_key :: bool

definition async_get_args_new :: async_get_args where
  "async_get_args_new =
     \<lparr>ag_seq_id = sequence_id_new, ag_key = [],
      ag_isset_seq_id = False, ag_isset_key = False\<rparr>"

definition async_get_args_eq :: "async_get_args \<Rightarrow> async_get_args \<Rightarrow> bool" where
  "async_get_args_eq a rhs =
     (if \<not> sequence_id_eq (ag_seq_id a) (ag_seq_id rhs) then False
      else if \<not> (ag_key a = ag_key rhs) then False
      else True)"

definition async_get_args_neq :: "async_get_args \<Rightarrow> async_get_args \<Rightarrow> bool" where
  "async_get_args_neq a rhs = (\<not> async_get_args_eq a rhs)"

definition async_get_args_field ::
    "'w tproto \<Rightarrow> 16 word \<Rightarrow> ttype \<Rightarrow> async_get_args \<Rightarrow> ('w, async_get_args \<times> 32 word) io" where
  "async_get_args_field P fid ftype x =
     (if fid = 1 then
        read_if P ftype T_STRUCT (sequence_id_read P (ag_seq_id x)) (\<lambda>v. x\<lparr>ag_seq_id := v, ag_isset_seq_id := True\<rparr>) x
      else if fid = 2 then
        read_if P ftype T_STRING (readString P) (\<lambda>v. x\<lparr>ag_key := v, ag_isset_key := True\<rparr>) x
      else skip_field P ftype x)"

definition async_get_args_read :: "'w tproto \<Rightarrow> async_get_args \<Rightarrow> ('w, async_get_args \<times> 32 word) io" where
  "async_get_args_read P this = read_struct P (async_get_args_field P) this"

definition async_get_args_write :: "'w tproto \<Rightarrow> async_get_args \<Rightarrow> ('w, 32 word) io" where
  "async_get_args_write P this =
     write_struct P ''pancake_thrift_async_get_args''
       [write_field P ''seq_id'' T_STRUCT 1 (sequence_id_write P (ag_seq_id this)),
        write_field P ''key'' T_STRING 2 (writeString P (ag_key this))]"

definition async_get_pargs_write :: "'w tproto \<Rightarrow> sequence_id \<Rightarrow> string \<Rightarrow> ('w, 32 word) io" where
  "async_get_pargs_write P seq_id key =
     write_struct P ''pancake_thrift_async_get_pargs''
       [write_field P ''seq_id'' T_STRUCT 1 (sequence_id_write P seq_id),
        write_field P ''key'' T_STRING 2 (writeString P key)]"

subsection \<open>\<^verbatim>\<open>async_put\<close>\<close>

record async_put_args =
  ap_seq_id :: sequence_id
  ap_key :: string
  ap_value :: string
  ap_isset_seq_id :: bool
  ap_isset_key :: bool
  ap_isset_value :: bool

definition async_put_args_new :: async_put_args where
  "async_put_args_new =
     \<lparr>ap_seq_id = sequence_id_new, ap_key = [], ap_value = [],
      ap_isset_seq_id = False, ap_isset_key = False, ap_isset_value = False\<rparr>"

definition async_put_args_eq :: "async_put_args \<Rightarrow> async_put_args \<Rightarrow> bool" where
  "async_put_args_eq a rhs =
     (if \<not> sequence_id_eq (ap_seq_id a) (ap_seq_id rhs) then False
      else if \<not> (ap_key a = ap_key rhs) then False
      else if \<not> (ap_value a = ap_value rhs) then False
      else True)"

definition async_put_args_neq :: "async_put_args \<Rightarrow> async_put_args \<Rightarrow> bool" where
  "async_put_args_neq a rhs = (\<not> async_put_args_eq a rhs)"

definition async_put_args_field ::
    "'w tproto \<Rightarrow> 16 word \<Rightarrow> ttype \<Rightarrow> async_put_args \<Rightarrow> ('w, async_put_args \<times> 32 word) io" where
  "async_put_args_field P fid ftype x =
     (if fid = 1 then
        read_if P ftype T_STRUCT (sequence_id_read P (ap_seq_id x)) (\<lambda>v. x\<lparr>ap_seq_id := v, ap_isset_seq_id := True\<rparr>) x
      else if fid = 2 then
        read_if P ftype T_STRING (readString P) (\<lambda>v. x\<lparr>ap_key := v, ap_isset_key := True\<rparr>) x
      else if fid = 3 then
        read_if P ftype T_STRING (readString P) (\<lambda>v. x\<lparr>ap_value := v, ap_isset_value := True\<rparr>) x
      else skip_field P ftype x)"

definition async_put_args_read :: "'w tproto \<Rightarrow> async_put_args \<Rightarrow> ('w, async_put_args \<times> 32 word) io" where
  "async_put_args_read P this = read_struct P (async_put_args_field P) this"

definition async_put_args_write :: "'w tproto \<Rightarrow> async_put_args \<Rightarrow> ('w, 32 word) io" where
  "async_put_args_write P this =
     write_struct P ''pancake_thrift_async_put_args''
       [write_field P ''seq_id'' T_STRUCT 1 (sequence_id_write P (ap_seq_id this)),
        write_field P ''key'' T_STRING 2 (writeString P (ap_key this)),
        write_field P ''value'' T_STRING 3 (writeString P (ap_value this))]"

definition async_put_pargs_write :: "'w tproto \<Rightarrow> sequence_id \<Rightarrow> string \<Rightarrow> string \<Rightarrow> ('w, 32 word) io" where
  "async_put_pargs_write P seq_id key value =
     write_struct P ''pancake_thrift_async_put_pargs''
       [write_field P ''seq_id'' T_STRUCT 1 (sequence_id_write P seq_id),
        write_field P ''key'' T_STRING 2 (writeString P key),
        write_field P ''value'' T_STRING 3 (writeString P value)]"

subsection \<open>\<^verbatim>\<open>async_get_batch\<close>\<close>

record async_get_batch_args =
  agb_seq_id :: sequence_id
  agb_keys :: "string list"
  agb_isset_seq_id :: bool
  agb_isset_keys :: bool

definition async_get_batch_args_new :: async_get_batch_args where
  "async_get_batch_args_new =
     \<lparr>agb_seq_id = sequence_id_new, agb_keys = [],
      agb_isset_seq_id = False, agb_isset_keys = False\<rparr>"

definition async_get_batch_args_eq :: "async_get_batch_args \<Rightarrow> async_get_batch_args \<Rightarrow> bool" where
  "async_get_batch_args_eq a rhs =
     (if \<not> sequence_id_eq (agb_seq_id a) (agb_seq_id rhs) then False
      else if \<not> (agb_keys a = agb_keys rhs) then False
      else True)"

definition async_get_batch_args_neq :: "async_get_batch_args \<Rightarrow> async_get_batch_args \<Rightarrow> bool" where
  "async_get_batch_args_neq a rhs = (\<not> async_get_batch_args_eq a rhs)"

definition async_get_batch_args_field ::
    "'w tproto \<Rightarrow> 16 word \<Rightarrow> ttype \<Rightarrow> async_get_batch_args \<Rightarrow> ('w, async_get_batch_args \<times> 32 word) io" where
  "async_get_batch_args_field P fid ftype x =
     (if fid = 1 then
        read_if P ftype T_STRUCT (sequence_id_read P (agb_seq_id x)) (\<lambda>v. x\<lparr>agb_seq_id := v, agb_isset_seq_id := True\<rparr>) x
      else if fid = 2 then
        read_if P ftype T_LIST (read_string_list P) (\<lambda>v. x\<lparr>agb_keys := v, agb_isset_keys := True\<rparr>) x
      else skip_field P ftype x)"

definition async_get_batch_args_read :: "'w tproto \<Rightarrow> async_get_batch_args \<Rightarrow> ('w, async_get_batch_args \<times> 32 word) io" where
  "async_get_batch_args_read P this = read_struct P (async_get_batch_args_field P) this"

definition async_get_batch_args_write :: "'w tproto \<Rightarrow> async_get_batch_args \<Rightarrow> ('w, 32 word) io" where
  "async_get_batch_args_write P this =
     write_struct P ''pancake_thrift_async_get_batch_args''
       [write_field P ''seq_id'' T_STRUCT 1 (sequence_id_write P (agb_seq_id this)),
        write_field P ''keys'' T_LIST 2 (write_string_list P (agb_keys this))]"

definition async_get_batch_pargs_write :: "'w tproto \<Rightarrow> sequence_id \<Rightarrow> string list \<Rightarrow> ('w, 32 word) io" where
  "async_get_batch_pargs_write P seq_id keys =
     write_struct P ''pancake_thrift_async_get_batch_pargs''
       [write_field P ''seq_id'' T_STRUCT 1 (sequence_id_write P seq_id),
        write_field P ''keys'' T_LIST 2 (write_string_list P keys)]"

subsection \<open>\<^verbatim>\<open>async_put_batch\<close>\<close>

record async_put_batch_args =
  apb_seq_id :: sequence_id
  apb_keys :: "string list"
  apb_values :: "string list"
  apb_isset_seq_id :: bool
  apb_isset_keys :: bool
  apb_isset_values :: bool

definition async_put_batch_args_new :: async_put_batch_args where
  "async_put_batch_args_new =
     \<lparr>apb_seq_id = sequence_id_new, apb_keys = [], apb_values = [],
      apb_isset_seq_id = False, apb_isset_keys = False, apb_isset_values = False\<rparr>"

definition async_put_batch_args_eq :: "async_put_batch_args \<Rightarrow> async_put_batch_args \<Rightarrow> bool" where
  "async_put_batch_args_eq a rhs =
     (if \<not> sequence_id_eq (apb_seq_id a) (apb_seq_id rhs) then False
      else if \<not> (apb_keys a = apb_keys rhs) then False
      else if \<not> (apb_values a = apb_values rhs) then False
      else True)"

definition async_put_batch_args_neq :: "async_put_batch_args \<Rightarrow> async_put_batch_args \<Rightarrow> bool" where
  "async_put_batch_args_neq a rhs = (\<not> async_put_batch_args_eq a rhs)"

definition async_put_batch_args_field ::
    "'w tproto \<Rightarrow> 16 word \<Rightarrow> ttype \<Rightarrow> async_put_batch_args \<Rightarrow> ('w, async_put_batch_args \<times> 32 word) io" where
  "async_put_batch_args_field P fid ftype x =
     (if fid = 1 then
        read_if P ftype T_STRUCT (sequence_id_read P (apb_seq_id x)) (\<lambda>v. x\<lparr>apb_seq_id := v, apb_isset_seq_id := True\<rparr>) x
      else if fid = 2 then
        read_if P ftype T_LIST (read_string_list P) (\<lambda>v. x\<lparr>apb_keys := v, apb_isset_keys := True\<rparr>) x
      else if fid = 3 then
        read_if P ftype T_LIST (read_string_list P) (\<lambda>v. x\<lparr>apb_values := v, apb_isset_values := True\<rparr>) x
      else skip_field P ftype x)"

definition async_put_batch_args_read :: "'w tproto \<Rightarrow> async_put_batch_args \<Rightarrow> ('w, async_put_batch_args \<times> 32 word) io" where
  "async_put_batch_args_read P this = read_struct P (async_put_batch_args_field P) this"

definition async_put_batch_args_write :: "'w tproto \<Rightarrow> async_put_batch_args \<Rightarrow> ('w, 32 word) io" where
  "async_put_batch_args_write P this =
     write_struct P ''pancake_thrift_async_put_batch_args''
       [write_field P ''seq_id'' T_STRUCT 1 (sequence_id_write P (apb_seq_id this)),
        write_field P ''keys'' T_LIST 2 (write_string_list P (apb_keys this)),
        write_field P ''values'' T_LIST 3 (write_string_list P (apb_values this))]"

definition async_put_batch_pargs_write :: "'w tproto \<Rightarrow> sequence_id \<Rightarrow> string list \<Rightarrow> string list \<Rightarrow> ('w, 32 word) io" where
  "async_put_batch_pargs_write P seq_id keys values =
     write_struct P ''pancake_thrift_async_put_batch_pargs''
       [write_field P ''seq_id'' T_STRUCT 1 (sequence_id_write P seq_id),
        write_field P ''keys'' T_LIST 2 (write_string_list P keys),
        write_field P ''values'' T_LIST 3 (write_string_list P values)]"

subsection \<open>\<^verbatim>\<open>get\<close>\<close>

record get_args =
  g_key :: string
  g_isset_key :: bool

definition get_args_new :: get_args where
  "get_args_new =
     \<lparr>g_key = [],
      g_isset_key = False\<rparr>"

definition get_args_eq :: "get_args \<Rightarrow> get_args \<Rightarrow> bool" where
  "get_args_eq a rhs =
     (if \<not> (g_key a = g_key rhs) then False
      else True)"

definition get_args_neq :: "get_args \<Rightarrow> get_args \<Rightarrow> bool" where
  "get_args_neq a rhs = (\<not> get_args_eq a rhs)"

definition get_args_field ::
    "'w tproto \<Rightarrow> 16 word \<Rightarrow> ttype \<Rightarrow> get_args \<Rightarrow> ('w, get_args \<times> 32 word) io" where
  "get_args_field P fid ftype x =
     (if fid = 1 then
        read_if P ftype T_STRING (readString P) (\<lambda>v. x\<lparr>g_key := v, g_isset_key := True\<rparr>) x
      else skip_field P ftype x)"

definition get_args_read :: "'w tproto \<Rightarrow> get_args \<Rightarrow> ('w, get_args \<times> 32 word) io" where
  "get_args_read P this = read_struct P (get_args_field P) this"

definition get_args_write :: "'w tproto \<Rightarrow> get_args \<Rightarrow> ('w, 32 word) io" where
  "get_args_write P this =
     write_struct P ''pancake_thrift_get_args''
       [write_field P ''key'' T_STRING 1 (writeString P (g_key this))]"

definition get_pargs_write :: "'w tproto \<Rightarrow> string \<Rightarrow> ('w, 32 word) io" where
  "get_pargs_write P key =
     write_struct P ''pancake_thrift_get_pargs''
       [write_field P ''key'' T_STRING 1 (writeString P key)]"

record get_result =
  gr_success :: string
  gr_isset_success :: bool

definition get_result_new :: get_result where
  "get_result_new =
     \<lparr>gr_success = [],
      gr_isset_success = False\<rparr>"

definition get_result_eq :: "get_result \<Rightarrow> get_result \<Rightarrow> bool" where
  "get_result_eq a rhs =
     (if \<not> (gr_success a = gr_success rhs) then False
      else True)"

definition get_result_neq :: "get_result \<Rightarrow> get_result \<Rightarrow> bool" where
  "get_result_neq a rhs = (\<not> get_result_eq a rhs)"

definition get_result_field ::
    "'w tproto \<Rightarrow> 16 word \<Rightarrow> ttype \<Rightarrow> get_result \<Rightarrow> ('w, get_result \<times> 32 word) io" where
  "get_result_field P fid ftype x =
     (if fid = 0 then
        read_if P ftype T_STRING (readString P) (\<lambda>v. x\<lparr>gr_success := v, gr_isset_success := True\<rparr>) x
      else skip_field P ftype x)"

definition get_result_read :: "'w tproto \<Rightarrow> get_result \<Rightarrow> ('w, get_result \<times> 32 word) io" where
  "get_result_read P this = read_struct P (get_result_field P) this"

definition get_result_write :: "'w tproto \<Rightarrow> get_result \<Rightarrow> ('w, 32 word) io" where
  "get_result_write P this =
     write_body P ''pancake_thrift_get_result''
       (if gr_isset_success this then
          [write_field P ''success'' T_STRING 0 (writeString P (gr_success this))]
        else [])"

text \<open>The \<open>presult\<close> reads through a pointer to the caller's variable.\<close>

definition get_presult_read :: "'w tproto \<Rightarrow> get_result \<Rightarrow> ('w, get_result \<times> 32 word) io" where
  "get_presult_read P this = read_struct P (get_result_field P) this"

subsection \<open>\<^verbatim>\<open>put\<close>\<close>

record put_args =
  p_key :: string
  p_value :: string
  p_isset_key :: bool
  p_isset_value :: bool

definition put_args_new :: put_args where
  "put_args_new =
     \<lparr>p_key = [], p_value = [],
      p_isset_key = False, p_isset_value = False\<rparr>"

definition put_args_eq :: "put_args \<Rightarrow> put_args \<Rightarrow> bool" where
  "put_args_eq a rhs =
     (if \<not> (p_key a = p_key rhs) then False
      else if \<not> (p_value a = p_value rhs) then False
      else True)"

definition put_args_neq :: "put_args \<Rightarrow> put_args \<Rightarrow> bool" where
  "put_args_neq a rhs = (\<not> put_args_eq a rhs)"

definition put_args_field ::
    "'w tproto \<Rightarrow> 16 word \<Rightarrow> ttype \<Rightarrow> put_args \<Rightarrow> ('w, put_args \<times> 32 word) io" where
  "put_args_field P fid ftype x =
     (if fid = 1 then
        read_if P ftype T_STRING (readString P) (\<lambda>v. x\<lparr>p_key := v, p_isset_key := True\<rparr>) x
      else if fid = 2 then
        read_if P ftype T_STRING (readString P) (\<lambda>v. x\<lparr>p_value := v, p_isset_value := True\<rparr>) x
      else skip_field P ftype x)"

definition put_args_read :: "'w tproto \<Rightarrow> put_args \<Rightarrow> ('w, put_args \<times> 32 word) io" where
  "put_args_read P this = read_struct P (put_args_field P) this"

definition put_args_write :: "'w tproto \<Rightarrow> put_args \<Rightarrow> ('w, 32 word) io" where
  "put_args_write P this =
     write_struct P ''pancake_thrift_put_args''
       [write_field P ''key'' T_STRING 1 (writeString P (p_key this)),
        write_field P ''value'' T_STRING 2 (writeString P (p_value this))]"

definition put_pargs_write :: "'w tproto \<Rightarrow> string \<Rightarrow> string \<Rightarrow> ('w, 32 word) io" where
  "put_pargs_write P key value =
     write_struct P ''pancake_thrift_put_pargs''
       [write_field P ''key'' T_STRING 1 (writeString P key),
        write_field P ''value'' T_STRING 2 (writeString P value)]"

definition put_result_read :: "'w tproto \<Rightarrow> ('w, unit \<times> 32 word) io" where
  "put_result_read P = read_struct P (\<lambda>fid ftype x. skip_field P ftype x) ()"

definition put_result_write :: "'w tproto \<Rightarrow> ('w, 32 word) io" where
  "put_result_write P = write_body P ''pancake_thrift_put_result'' []"

definition put_presult_read :: "'w tproto \<Rightarrow> ('w, unit \<times> 32 word) io" where
  "put_presult_read P = read_struct P (\<lambda>fid ftype x. skip_field P ftype x) ()"

subsection \<open>\<^verbatim>\<open>get_batch\<close>\<close>

record get_batch_args =
  gb_keys :: "string list"
  gb_isset_keys :: bool

definition get_batch_args_new :: get_batch_args where
  "get_batch_args_new =
     \<lparr>gb_keys = [],
      gb_isset_keys = False\<rparr>"

definition get_batch_args_eq :: "get_batch_args \<Rightarrow> get_batch_args \<Rightarrow> bool" where
  "get_batch_args_eq a rhs =
     (if \<not> (gb_keys a = gb_keys rhs) then False
      else True)"

definition get_batch_args_neq :: "get_batch_args \<Rightarrow> get_batch_args \<Rightarrow> bool" where
  "get_batch_args_neq a rhs = (\<not> get_batch_args_eq a rhs)"

definition get_batch_args_field ::
    "'w tproto \<Rightarrow> 16 word \<Rightarrow> ttype \<Rightarrow> get_batch_args \<Rightarrow> ('w, get_batch_args \<times> 32 word) io" where
  "get_batch_args_field P fid ftype x =
     (if fid = 1 then
        read_if P ftype T_LIST (read_string_list P) (\<lambda>v. x\<lparr>gb_keys := v, gb_isset_keys := True\<rparr>) x
      else skip_field P ftype x)"

definition get_batch_args_read :: "'w tproto \<Rightarrow> get_batch_args \<Rightarrow> ('w, get_batch_args \<times> 32 word) io" where
  "get_batch_args_read P this = read_struct P (get_batch_args_field P) this"

definition get_batch_args_write :: "'w tproto \<Rightarrow> get_batch_args \<Rightarrow> ('w, 32 word) io" where
  "get_batch_args_write P this =
     write_struct P ''pancake_thrift_get_batch_args''
       [write_field P ''keys'' T_LIST 1 (write_string_list P (gb_keys this))]"

definition get_batch_pargs_write :: "'w tproto \<Rightarrow> string list \<Rightarrow> ('w, 32 word) io" where
  "get_batch_pargs_write P keys =
     write_struct P ''pancake_thrift_get_batch_pargs''
       [write_field P ''keys'' T_LIST 1 (write_string_list P keys)]"

record get_batch_result =
  gbr_success :: "string list"
  gbr_isset_success :: bool

definition get_batch_result_new :: get_batch_result where
  "get_batch_result_new =
     \<lparr>gbr_success = [],
      gbr_isset_success = False\<rparr>"

definition get_batch_result_eq :: "get_batch_result \<Rightarrow> get_batch_result \<Rightarrow> bool" where
  "get_batch_result_eq a rhs =
     (if \<not> (gbr_success a = gbr_success rhs) then False
      else True)"

definition get_batch_result_neq :: "get_batch_result \<Rightarrow> get_batch_result \<Rightarrow> bool" where
  "get_batch_result_neq a rhs = (\<not> get_batch_result_eq a rhs)"

definition get_batch_result_field ::
    "'w tproto \<Rightarrow> 16 word \<Rightarrow> ttype \<Rightarrow> get_batch_result \<Rightarrow> ('w, get_batch_result \<times> 32 word) io" where
  "get_batch_result_field P fid ftype x =
     (if fid = 0 then
        read_if P ftype T_LIST (read_string_list P) (\<lambda>v. x\<lparr>gbr_success := v, gbr_isset_success := True\<rparr>) x
      else skip_field P ftype x)"

definition get_batch_result_read :: "'w tproto \<Rightarrow> get_batch_result \<Rightarrow> ('w, get_batch_result \<times> 32 word) io" where
  "get_batch_result_read P this = read_struct P (get_batch_result_field P) this"

definition get_batch_result_write :: "'w tproto \<Rightarrow> get_batch_result \<Rightarrow> ('w, 32 word) io" where
  "get_batch_result_write P this =
     write_body P ''pancake_thrift_get_batch_result''
       (if gbr_isset_success this then
          [write_field P ''success'' T_LIST 0 (write_string_list P (gbr_success this))]
        else [])"

text \<open>The \<open>presult\<close> reads through a pointer to the caller's variable.\<close>

definition get_batch_presult_read :: "'w tproto \<Rightarrow> get_batch_result \<Rightarrow> ('w, get_batch_result \<times> 32 word) io" where
  "get_batch_presult_read P this = read_struct P (get_batch_result_field P) this"

subsection \<open>\<^verbatim>\<open>put_batch\<close>\<close>

record put_batch_args =
  pb_keys :: "string list"
  pb_values :: "string list"
  pb_isset_keys :: bool
  pb_isset_values :: bool

definition put_batch_args_new :: put_batch_args where
  "put_batch_args_new =
     \<lparr>pb_keys = [], pb_values = [],
      pb_isset_keys = False, pb_isset_values = False\<rparr>"

definition put_batch_args_eq :: "put_batch_args \<Rightarrow> put_batch_args \<Rightarrow> bool" where
  "put_batch_args_eq a rhs =
     (if \<not> (pb_keys a = pb_keys rhs) then False
      else if \<not> (pb_values a = pb_values rhs) then False
      else True)"

definition put_batch_args_neq :: "put_batch_args \<Rightarrow> put_batch_args \<Rightarrow> bool" where
  "put_batch_args_neq a rhs = (\<not> put_batch_args_eq a rhs)"

definition put_batch_args_field ::
    "'w tproto \<Rightarrow> 16 word \<Rightarrow> ttype \<Rightarrow> put_batch_args \<Rightarrow> ('w, put_batch_args \<times> 32 word) io" where
  "put_batch_args_field P fid ftype x =
     (if fid = 1 then
        read_if P ftype T_LIST (read_string_list P) (\<lambda>v. x\<lparr>pb_keys := v, pb_isset_keys := True\<rparr>) x
      else if fid = 2 then
        read_if P ftype T_LIST (read_string_list P) (\<lambda>v. x\<lparr>pb_values := v, pb_isset_values := True\<rparr>) x
      else skip_field P ftype x)"

definition put_batch_args_read :: "'w tproto \<Rightarrow> put_batch_args \<Rightarrow> ('w, put_batch_args \<times> 32 word) io" where
  "put_batch_args_read P this = read_struct P (put_batch_args_field P) this"

definition put_batch_args_write :: "'w tproto \<Rightarrow> put_batch_args \<Rightarrow> ('w, 32 word) io" where
  "put_batch_args_write P this =
     write_struct P ''pancake_thrift_put_batch_args''
       [write_field P ''keys'' T_LIST 1 (write_string_list P (pb_keys this)),
        write_field P ''values'' T_LIST 2 (write_string_list P (pb_values this))]"

definition put_batch_pargs_write :: "'w tproto \<Rightarrow> string list \<Rightarrow> string list \<Rightarrow> ('w, 32 word) io" where
  "put_batch_pargs_write P keys values =
     write_struct P ''pancake_thrift_put_batch_pargs''
       [write_field P ''keys'' T_LIST 1 (write_string_list P keys),
        write_field P ''values'' T_LIST 2 (write_string_list P values)]"

definition put_batch_result_read :: "'w tproto \<Rightarrow> ('w, unit \<times> 32 word) io" where
  "put_batch_result_read P = read_struct P (\<lambda>fid ftype x. skip_field P ftype x) ()"

definition put_batch_result_write :: "'w tproto \<Rightarrow> ('w, 32 word) io" where
  "put_batch_result_write P = write_body P ''pancake_thrift_put_batch_result'' []"

definition put_batch_presult_read :: "'w tproto \<Rightarrow> ('w, unit \<times> 32 word) io" where
  "put_batch_presult_read P = read_struct P (\<lambda>fid ftype x. skip_field P ftype x) ()"

section \<open>What a reader makes of any sequence of fields\<close>

definition get_client_id_result_upd :: "16 word \<Rightarrow> tvalue \<Rightarrow> get_client_id_result \<Rightarrow> get_client_id_result" where
  "get_client_id_result_upd fid v x =
     (if fid = 0 then on_i64 v (\<lambda>y. x\<lparr>gcr_success := y, gcr_isset_success := True\<rparr>) x
      else x)"

definition register_client_id_args_upd :: "16 word \<Rightarrow> tvalue \<Rightarrow> register_client_id_args \<Rightarrow> register_client_id_args" where
  "register_client_id_args_upd fid v x =
     (if fid = 1 then on_i32 v (\<lambda>y. x\<lparr>rc_block_id := y, rc_isset_block_id := True\<rparr>) x
      else if fid = 2 then on_i64 v (\<lambda>y. x\<lparr>rc_client_id := y, rc_isset_client_id := True\<rparr>) x
      else x)"

definition async_get_args_upd :: "16 word \<Rightarrow> tvalue \<Rightarrow> async_get_args \<Rightarrow> async_get_args" where
  "async_get_args_upd fid v x =
     (if fid = 1 then
        (case v of V_Struct fs \<Rightarrow> x\<lparr>ag_seq_id := fst (seq_fields (ag_seq_id x) fs), ag_isset_seq_id := True\<rparr> | _ \<Rightarrow> x)
      else if fid = 2 then on_string v (\<lambda>y. x\<lparr>ag_key := y, ag_isset_key := True\<rparr>) x
      else x)"

definition async_put_args_upd :: "16 word \<Rightarrow> tvalue \<Rightarrow> async_put_args \<Rightarrow> async_put_args" where
  "async_put_args_upd fid v x =
     (if fid = 1 then
        (case v of V_Struct fs \<Rightarrow> x\<lparr>ap_seq_id := fst (seq_fields (ap_seq_id x) fs), ap_isset_seq_id := True\<rparr> | _ \<Rightarrow> x)
      else if fid = 2 then on_string v (\<lambda>y. x\<lparr>ap_key := y, ap_isset_key := True\<rparr>) x
      else if fid = 3 then on_string v (\<lambda>y. x\<lparr>ap_value := y, ap_isset_value := True\<rparr>) x
      else x)"

definition async_get_batch_args_upd :: "16 word \<Rightarrow> tvalue \<Rightarrow> async_get_batch_args \<Rightarrow> async_get_batch_args" where
  "async_get_batch_args_upd fid v x =
     (if fid = 1 then
        (case v of V_Struct fs \<Rightarrow> x\<lparr>agb_seq_id := fst (seq_fields (agb_seq_id x) fs), agb_isset_seq_id := True\<rparr> | _ \<Rightarrow> x)
      else if fid = 2 then on_list v (\<lambda>y. x\<lparr>agb_keys := y, agb_isset_keys := True\<rparr>) x
      else x)"

definition async_put_batch_args_upd :: "16 word \<Rightarrow> tvalue \<Rightarrow> async_put_batch_args \<Rightarrow> async_put_batch_args" where
  "async_put_batch_args_upd fid v x =
     (if fid = 1 then
        (case v of V_Struct fs \<Rightarrow> x\<lparr>apb_seq_id := fst (seq_fields (apb_seq_id x) fs), apb_isset_seq_id := True\<rparr> | _ \<Rightarrow> x)
      else if fid = 2 then on_list v (\<lambda>y. x\<lparr>apb_keys := y, apb_isset_keys := True\<rparr>) x
      else if fid = 3 then on_list v (\<lambda>y. x\<lparr>apb_values := y, apb_isset_values := True\<rparr>) x
      else x)"

definition get_args_upd :: "16 word \<Rightarrow> tvalue \<Rightarrow> get_args \<Rightarrow> get_args" where
  "get_args_upd fid v x =
     (if fid = 1 then on_string v (\<lambda>y. x\<lparr>g_key := y, g_isset_key := True\<rparr>) x
      else x)"

definition get_result_upd :: "16 word \<Rightarrow> tvalue \<Rightarrow> get_result \<Rightarrow> get_result" where
  "get_result_upd fid v x =
     (if fid = 0 then on_string v (\<lambda>y. x\<lparr>gr_success := y, gr_isset_success := True\<rparr>) x
      else x)"

definition put_args_upd :: "16 word \<Rightarrow> tvalue \<Rightarrow> put_args \<Rightarrow> put_args" where
  "put_args_upd fid v x =
     (if fid = 1 then on_string v (\<lambda>y. x\<lparr>p_key := y, p_isset_key := True\<rparr>) x
      else if fid = 2 then on_string v (\<lambda>y. x\<lparr>p_value := y, p_isset_value := True\<rparr>) x
      else x)"

definition get_batch_args_upd :: "16 word \<Rightarrow> tvalue \<Rightarrow> get_batch_args \<Rightarrow> get_batch_args" where
  "get_batch_args_upd fid v x =
     (if fid = 1 then on_list v (\<lambda>y. x\<lparr>gb_keys := y, gb_isset_keys := True\<rparr>) x
      else x)"

definition get_batch_result_upd :: "16 word \<Rightarrow> tvalue \<Rightarrow> get_batch_result \<Rightarrow> get_batch_result" where
  "get_batch_result_upd fid v x =
     (if fid = 0 then on_list v (\<lambda>y. x\<lparr>gbr_success := y, gbr_isset_success := True\<rparr>) x
      else x)"

definition put_batch_args_upd :: "16 word \<Rightarrow> tvalue \<Rightarrow> put_batch_args \<Rightarrow> put_batch_args" where
  "put_batch_args_upd fid v x =
     (if fid = 1 then on_list v (\<lambda>y. x\<lparr>pb_keys := y, pb_isset_keys := True\<rparr>) x
      else if fid = 2 then on_list v (\<lambda>y. x\<lparr>pb_values := y, pb_isset_values := True\<rparr>) x
      else x)"

lemma get_client_id_result_reads:
  "fold (\<lambda>(fid, v). get_client_id_result_upd fid v) [(0, V_I64 success)] x
     = \<lparr>gcr_success = success,
        gcr_isset_success = True\<rparr>"
  by (simp add: get_client_id_result_upd_def on_value_defs seq_value_def seq_value_reads)

lemma register_client_id_args_reads:
  "fold (\<lambda>(fid, v). register_client_id_args_upd fid v) [(1, V_I32 block_id), (2, V_I64 client_id)] x
     = \<lparr>rc_block_id = block_id, rc_client_id = client_id,
        rc_isset_block_id = True, rc_isset_client_id = True\<rparr>"
  by (simp add: register_client_id_args_upd_def on_value_defs seq_value_def seq_value_reads)

lemma async_get_args_reads:
  "fold (\<lambda>(fid, v). async_get_args_upd fid v) [(1, seq_value seq_id), (2, V_String key)] x
     = \<lparr>ag_seq_id = seq_id, ag_key = key,
        ag_isset_seq_id = True, ag_isset_key = True\<rparr>"
  by (simp add: async_get_args_upd_def on_value_defs seq_value_def seq_value_reads)

lemma async_put_args_reads:
  "fold (\<lambda>(fid, v). async_put_args_upd fid v) [(1, seq_value seq_id), (2, V_String key), (3, V_String value)] x
     = \<lparr>ap_seq_id = seq_id, ap_key = key, ap_value = value,
        ap_isset_seq_id = True, ap_isset_key = True, ap_isset_value = True\<rparr>"
  by (simp add: async_put_args_upd_def on_value_defs seq_value_def seq_value_reads)

lemma async_get_batch_args_reads:
  "fold (\<lambda>(fid, v). async_get_batch_args_upd fid v) [(1, seq_value seq_id), (2, V_List keys)] x
     = \<lparr>agb_seq_id = seq_id, agb_keys = keys,
        agb_isset_seq_id = True, agb_isset_keys = True\<rparr>"
  by (simp add: async_get_batch_args_upd_def on_value_defs seq_value_def seq_value_reads)

lemma async_put_batch_args_reads:
  "fold (\<lambda>(fid, v). async_put_batch_args_upd fid v) [(1, seq_value seq_id), (2, V_List keys), (3, V_List values)] x
     = \<lparr>apb_seq_id = seq_id, apb_keys = keys, apb_values = values,
        apb_isset_seq_id = True, apb_isset_keys = True, apb_isset_values = True\<rparr>"
  by (simp add: async_put_batch_args_upd_def on_value_defs seq_value_def seq_value_reads)

lemma get_args_reads:
  "fold (\<lambda>(fid, v). get_args_upd fid v) [(1, V_String key)] x
     = \<lparr>g_key = key,
        g_isset_key = True\<rparr>"
  by (simp add: get_args_upd_def on_value_defs seq_value_def seq_value_reads)

lemma get_result_reads:
  "fold (\<lambda>(fid, v). get_result_upd fid v) [(0, V_String success)] x
     = \<lparr>gr_success = success,
        gr_isset_success = True\<rparr>"
  by (simp add: get_result_upd_def on_value_defs seq_value_def seq_value_reads)

lemma put_args_reads:
  "fold (\<lambda>(fid, v). put_args_upd fid v) [(1, V_String key), (2, V_String value)] x
     = \<lparr>p_key = key, p_value = value,
        p_isset_key = True, p_isset_value = True\<rparr>"
  by (simp add: put_args_upd_def on_value_defs seq_value_def seq_value_reads)

lemma get_batch_args_reads:
  "fold (\<lambda>(fid, v). get_batch_args_upd fid v) [(1, V_List keys)] x
     = \<lparr>gb_keys = keys,
        gb_isset_keys = True\<rparr>"
  by (simp add: get_batch_args_upd_def on_value_defs seq_value_def seq_value_reads)

lemma get_batch_result_reads:
  "fold (\<lambda>(fid, v). get_batch_result_upd fid v) [(0, V_List success)] x
     = \<lparr>gbr_success = success,
        gbr_isset_success = True\<rparr>"
  by (simp add: get_batch_result_upd_def on_value_defs seq_value_def seq_value_reads)

lemma put_batch_args_reads:
  "fold (\<lambda>(fid, v). put_batch_args_upd fid v) [(1, V_List keys), (2, V_List values)] x
     = \<lparr>pb_keys = keys, pb_values = values,
        pb_isset_keys = True, pb_isset_values = True\<rparr>"
  by (simp add: put_batch_args_upd_def on_value_defs seq_value_def seq_value_reads)

section \<open>Readers\<close>

context thrift_input begin

lemma empty_read_takes:
  "fields_ok d fs \<Longrightarrow>
   takes conn (Suc d) (read_struct P (\<lambda>fid ftype x. skip_field P ftype x) ()) (value_tokens (V_Struct fs))
     ((), size_of (value_tokens (V_Struct fs)))"
  using read_struct_takes [where field = "\<lambda>fid ftype x. skip_field P ftype x" and fs = fs and d = d and x = "()"
      and upd = "\<lambda>_ _ x. x"] by (auto dest: fields_okD intro: skip_field_takes)

lemma get_client_id_args_read_takes:
  "fields_ok d fs \<Longrightarrow> takes conn (Suc d) (get_client_id_args_read P) (value_tokens (V_Struct fs)) ((), size_of (value_tokens (V_Struct fs)))"
  unfolding get_client_id_args_read_def by (rule empty_read_takes)

lemma get_client_id_result_read_takes:
  assumes "fields_ok d fs"
  shows "takes conn (Suc d) (get_client_id_result_read P x) (value_tokens (V_Struct fs))
     (fold (\<lambda>(fid, v). get_client_id_result_upd fid v) fs x, size_of (value_tokens (V_Struct fs)))"
  unfolding get_client_id_result_read_def
  by (rule read_struct_takes, drule fields_okD [OF assms])
    (simp add: get_client_id_result_field_def get_client_id_result_upd_def field_takes)

lemma get_client_id_presult_read_takes:
  assumes "fields_ok d fs"
  shows "takes conn (Suc d) (get_client_id_presult_read P x) (value_tokens (V_Struct fs))
     (fold (\<lambda>(fid, v). get_client_id_result_upd fid v) fs x, size_of (value_tokens (V_Struct fs)))"
  unfolding get_client_id_presult_read_def
  by (rule read_struct_takes, drule fields_okD [OF assms])
    (simp add: get_client_id_result_field_def get_client_id_result_upd_def field_takes)

lemma register_client_id_args_read_takes:
  assumes "fields_ok d fs"
  shows "takes conn (Suc d) (register_client_id_args_read P x) (value_tokens (V_Struct fs))
     (fold (\<lambda>(fid, v). register_client_id_args_upd fid v) fs x, size_of (value_tokens (V_Struct fs)))"
  unfolding register_client_id_args_read_def
  by (rule read_struct_takes, drule fields_okD [OF assms])
    (simp add: register_client_id_args_field_def register_client_id_args_upd_def field_takes)

lemma register_client_id_result_read_takes:
  "fields_ok d fs \<Longrightarrow> takes conn (Suc d) (register_client_id_result_read P) (value_tokens (V_Struct fs)) ((), size_of (value_tokens (V_Struct fs)))"
  unfolding register_client_id_result_read_def by (rule empty_read_takes)

lemma register_client_id_presult_read_takes:
  "fields_ok d fs \<Longrightarrow> takes conn (Suc d) (register_client_id_presult_read P) (value_tokens (V_Struct fs)) ((), size_of (value_tokens (V_Struct fs)))"
  unfolding register_client_id_presult_read_def by (rule empty_read_takes)

lemma async_get_args_read_takes:
  assumes "fields_ok d fs" and "\<And>fs'. (1, V_Struct fs') \<in> set fs \<Longrightarrow> seq_complete fs'"
  shows "takes conn (Suc d) (async_get_args_read P x) (value_tokens (V_Struct fs))
     (fold (\<lambda>(fid, v). async_get_args_upd fid v) fs x, size_of (value_tokens (V_Struct fs)))"
  unfolding async_get_args_read_def
proof (rule read_struct_takes)
  fix fid v x
  assume "(fid, v) \<in> set fs"
  then have m: "value_ok v \<and> value_depth v \<le> d" "fid = 1 \<Longrightarrow> (1, v) \<in> set fs"
    using fields_okD [OF assms(1)] by auto
  show "takes conn d (async_get_args_field P fid (value_type v) x) (value_tokens v)
      (async_get_args_upd fid v x, size_of (value_tokens v))"
    using m seq_arg_takes [OF assms, of v "ag_seq_id x" "\<lambda>y. x\<lparr>ag_seq_id := y, ag_isset_seq_id := True\<rparr>" x]
    by (simp add: async_get_args_field_def async_get_args_upd_def field_takes)
qed

lemma async_put_args_read_takes:
  assumes "fields_ok d fs" and "\<And>fs'. (1, V_Struct fs') \<in> set fs \<Longrightarrow> seq_complete fs'"
  shows "takes conn (Suc d) (async_put_args_read P x) (value_tokens (V_Struct fs))
     (fold (\<lambda>(fid, v). async_put_args_upd fid v) fs x, size_of (value_tokens (V_Struct fs)))"
  unfolding async_put_args_read_def
proof (rule read_struct_takes)
  fix fid v x
  assume "(fid, v) \<in> set fs"
  then have m: "value_ok v \<and> value_depth v \<le> d" "fid = 1 \<Longrightarrow> (1, v) \<in> set fs"
    using fields_okD [OF assms(1)] by auto
  show "takes conn d (async_put_args_field P fid (value_type v) x) (value_tokens v)
      (async_put_args_upd fid v x, size_of (value_tokens v))"
    using m seq_arg_takes [OF assms, of v "ap_seq_id x" "\<lambda>y. x\<lparr>ap_seq_id := y, ap_isset_seq_id := True\<rparr>" x]
    by (simp add: async_put_args_field_def async_put_args_upd_def field_takes)
qed

lemma async_get_batch_args_read_takes:
  assumes "fields_ok d fs" and "\<And>fs'. (1, V_Struct fs') \<in> set fs \<Longrightarrow> seq_complete fs'"
  shows "takes conn (Suc d) (async_get_batch_args_read P x) (value_tokens (V_Struct fs))
     (fold (\<lambda>(fid, v). async_get_batch_args_upd fid v) fs x, size_of (value_tokens (V_Struct fs)))"
  unfolding async_get_batch_args_read_def
proof (rule read_struct_takes)
  fix fid v x
  assume "(fid, v) \<in> set fs"
  then have m: "value_ok v \<and> value_depth v \<le> d" "fid = 1 \<Longrightarrow> (1, v) \<in> set fs"
    using fields_okD [OF assms(1)] by auto
  show "takes conn d (async_get_batch_args_field P fid (value_type v) x) (value_tokens v)
      (async_get_batch_args_upd fid v x, size_of (value_tokens v))"
    using m seq_arg_takes [OF assms, of v "agb_seq_id x" "\<lambda>y. x\<lparr>agb_seq_id := y, agb_isset_seq_id := True\<rparr>" x]
    by (simp add: async_get_batch_args_field_def async_get_batch_args_upd_def field_takes)
qed

lemma async_put_batch_args_read_takes:
  assumes "fields_ok d fs" and "\<And>fs'. (1, V_Struct fs') \<in> set fs \<Longrightarrow> seq_complete fs'"
  shows "takes conn (Suc d) (async_put_batch_args_read P x) (value_tokens (V_Struct fs))
     (fold (\<lambda>(fid, v). async_put_batch_args_upd fid v) fs x, size_of (value_tokens (V_Struct fs)))"
  unfolding async_put_batch_args_read_def
proof (rule read_struct_takes)
  fix fid v x
  assume "(fid, v) \<in> set fs"
  then have m: "value_ok v \<and> value_depth v \<le> d" "fid = 1 \<Longrightarrow> (1, v) \<in> set fs"
    using fields_okD [OF assms(1)] by auto
  show "takes conn d (async_put_batch_args_field P fid (value_type v) x) (value_tokens v)
      (async_put_batch_args_upd fid v x, size_of (value_tokens v))"
    using m seq_arg_takes [OF assms, of v "apb_seq_id x" "\<lambda>y. x\<lparr>apb_seq_id := y, apb_isset_seq_id := True\<rparr>" x]
    by (simp add: async_put_batch_args_field_def async_put_batch_args_upd_def field_takes)
qed

lemma get_args_read_takes:
  assumes "fields_ok d fs"
  shows "takes conn (Suc d) (get_args_read P x) (value_tokens (V_Struct fs))
     (fold (\<lambda>(fid, v). get_args_upd fid v) fs x, size_of (value_tokens (V_Struct fs)))"
  unfolding get_args_read_def
  by (rule read_struct_takes, drule fields_okD [OF assms])
    (simp add: get_args_field_def get_args_upd_def field_takes)

lemma get_result_read_takes:
  assumes "fields_ok d fs"
  shows "takes conn (Suc d) (get_result_read P x) (value_tokens (V_Struct fs))
     (fold (\<lambda>(fid, v). get_result_upd fid v) fs x, size_of (value_tokens (V_Struct fs)))"
  unfolding get_result_read_def
  by (rule read_struct_takes, drule fields_okD [OF assms])
    (simp add: get_result_field_def get_result_upd_def field_takes)

lemma get_presult_read_takes:
  assumes "fields_ok d fs"
  shows "takes conn (Suc d) (get_presult_read P x) (value_tokens (V_Struct fs))
     (fold (\<lambda>(fid, v). get_result_upd fid v) fs x, size_of (value_tokens (V_Struct fs)))"
  unfolding get_presult_read_def
  by (rule read_struct_takes, drule fields_okD [OF assms])
    (simp add: get_result_field_def get_result_upd_def field_takes)

lemma put_args_read_takes:
  assumes "fields_ok d fs"
  shows "takes conn (Suc d) (put_args_read P x) (value_tokens (V_Struct fs))
     (fold (\<lambda>(fid, v). put_args_upd fid v) fs x, size_of (value_tokens (V_Struct fs)))"
  unfolding put_args_read_def
  by (rule read_struct_takes, drule fields_okD [OF assms])
    (simp add: put_args_field_def put_args_upd_def field_takes)

lemma put_result_read_takes:
  "fields_ok d fs \<Longrightarrow> takes conn (Suc d) (put_result_read P) (value_tokens (V_Struct fs)) ((), size_of (value_tokens (V_Struct fs)))"
  unfolding put_result_read_def by (rule empty_read_takes)

lemma put_presult_read_takes:
  "fields_ok d fs \<Longrightarrow> takes conn (Suc d) (put_presult_read P) (value_tokens (V_Struct fs)) ((), size_of (value_tokens (V_Struct fs)))"
  unfolding put_presult_read_def by (rule empty_read_takes)

lemma get_batch_args_read_takes:
  assumes "fields_ok d fs"
  shows "takes conn (Suc d) (get_batch_args_read P x) (value_tokens (V_Struct fs))
     (fold (\<lambda>(fid, v). get_batch_args_upd fid v) fs x, size_of (value_tokens (V_Struct fs)))"
  unfolding get_batch_args_read_def
  by (rule read_struct_takes, drule fields_okD [OF assms])
    (simp add: get_batch_args_field_def get_batch_args_upd_def field_takes)

lemma get_batch_result_read_takes:
  assumes "fields_ok d fs"
  shows "takes conn (Suc d) (get_batch_result_read P x) (value_tokens (V_Struct fs))
     (fold (\<lambda>(fid, v). get_batch_result_upd fid v) fs x, size_of (value_tokens (V_Struct fs)))"
  unfolding get_batch_result_read_def
  by (rule read_struct_takes, drule fields_okD [OF assms])
    (simp add: get_batch_result_field_def get_batch_result_upd_def field_takes)

lemma get_batch_presult_read_takes:
  assumes "fields_ok d fs"
  shows "takes conn (Suc d) (get_batch_presult_read P x) (value_tokens (V_Struct fs))
     (fold (\<lambda>(fid, v). get_batch_result_upd fid v) fs x, size_of (value_tokens (V_Struct fs)))"
  unfolding get_batch_presult_read_def
  by (rule read_struct_takes, drule fields_okD [OF assms])
    (simp add: get_batch_result_field_def get_batch_result_upd_def field_takes)

lemma put_batch_args_read_takes:
  assumes "fields_ok d fs"
  shows "takes conn (Suc d) (put_batch_args_read P x) (value_tokens (V_Struct fs))
     (fold (\<lambda>(fid, v). put_batch_args_upd fid v) fs x, size_of (value_tokens (V_Struct fs)))"
  unfolding put_batch_args_read_def
  by (rule read_struct_takes, drule fields_okD [OF assms])
    (simp add: put_batch_args_field_def put_batch_args_upd_def field_takes)

lemma put_batch_result_read_takes:
  "fields_ok d fs \<Longrightarrow> takes conn (Suc d) (put_batch_result_read P) (value_tokens (V_Struct fs)) ((), size_of (value_tokens (V_Struct fs)))"
  unfolding put_batch_result_read_def by (rule empty_read_takes)

lemma put_batch_presult_read_takes:
  "fields_ok d fs \<Longrightarrow> takes conn (Suc d) (put_batch_presult_read P) (value_tokens (V_Struct fs)) ((), size_of (value_tokens (V_Struct fs)))"
  unfolding put_batch_presult_read_def by (rule empty_read_takes)

end

section \<open>Writers\<close>

context thrift_output begin

lemma get_client_id_args_write_gives:
  "gives conn (Suc (Suc d)) (get_client_id_args_write P) (value_tokens (V_Struct []))
     (sum_list (map sz (value_tokens (V_Struct []))))"
  unfolding get_client_id_args_write_def
  by (rule write_struct_gives) (simp add: field_writes)

lemma get_client_id_pargs_write_gives:
  "gives conn (Suc (Suc d)) (get_client_id_pargs_write P) (value_tokens (V_Struct []))
     (sum_list (map sz (value_tokens (V_Struct []))))"
  unfolding get_client_id_pargs_write_def
  by (rule write_struct_gives) (simp add: field_writes)

lemma get_client_id_result_write_gives:
  "gives conn (Suc d) (get_client_id_result_write P \<lparr>gcr_success = success, gcr_isset_success = True\<rparr>) (value_tokens (V_Struct [(0, V_I64 success)]))
     (sum_list (map sz (value_tokens (V_Struct [(0, V_I64 success)]))))"
  unfolding get_client_id_result_write_def
  by (simp only: get_client_id_result.simps if_True, rule write_body_gives) (simp add: field_writes)

lemma register_client_id_pargs_write_gives:
  "gives conn (Suc (Suc d)) (register_client_id_pargs_write P block_id client_id) (value_tokens (V_Struct [(1, V_I32 block_id), (2, V_I64 client_id)]))
     (sum_list (map sz (value_tokens (V_Struct [(1, V_I32 block_id), (2, V_I64 client_id)]))))"
  unfolding register_client_id_pargs_write_def
  by (rule write_struct_gives) (simp add: field_writes)

lemma register_client_id_args_write_gives:
  "gives conn (Suc (Suc d)) (register_client_id_args_write P \<lparr>rc_block_id = block_id, rc_client_id = client_id, rc_isset_block_id = s_block_id, rc_isset_client_id = s_client_id\<rparr>) (value_tokens (V_Struct [(1, V_I32 block_id), (2, V_I64 client_id)]))
     (sum_list (map sz (value_tokens (V_Struct [(1, V_I32 block_id), (2, V_I64 client_id)]))))"
  unfolding register_client_id_args_write_def
  by (rule write_struct_gives) (simp add: field_writes)

lemma register_client_id_result_write_gives:
  "gives conn (Suc d) (register_client_id_result_write P) (value_tokens (V_Struct []))
     (sum_list (map sz (value_tokens (V_Struct []))))"
  unfolding register_client_id_result_write_def
  by (rule write_body_gives) (simp add: field_writes)

lemma async_get_pargs_write_gives:
  "value_ok (V_String key) \<Longrightarrow> gives conn (Suc (Suc d)) (async_get_pargs_write P seq_id key) (value_tokens (V_Struct [(1, seq_value seq_id), (2, V_String key)]))
     (sum_list (map sz (value_tokens (V_Struct [(1, seq_value seq_id), (2, V_String key)]))))"
  unfolding async_get_pargs_write_def
  by (rule write_struct_gives) (simp add: field_writes)

lemma async_get_args_write_gives:
  "value_ok (V_String key) \<Longrightarrow> gives conn (Suc (Suc d)) (async_get_args_write P \<lparr>ag_seq_id = seq_id, ag_key = key, ag_isset_seq_id = s_seq_id, ag_isset_key = s_key\<rparr>) (value_tokens (V_Struct [(1, seq_value seq_id), (2, V_String key)]))
     (sum_list (map sz (value_tokens (V_Struct [(1, seq_value seq_id), (2, V_String key)]))))"
  unfolding async_get_args_write_def
  by (rule write_struct_gives) (simp add: field_writes)

lemma async_put_pargs_write_gives:
  "value_ok (V_String key) \<Longrightarrow> value_ok (V_String value) \<Longrightarrow> gives conn (Suc (Suc d)) (async_put_pargs_write P seq_id key value) (value_tokens (V_Struct [(1, seq_value seq_id), (2, V_String key), (3, V_String value)]))
     (sum_list (map sz (value_tokens (V_Struct [(1, seq_value seq_id), (2, V_String key), (3, V_String value)]))))"
  unfolding async_put_pargs_write_def
  by (rule write_struct_gives) (simp add: field_writes)

lemma async_put_args_write_gives:
  "value_ok (V_String key) \<Longrightarrow> value_ok (V_String value) \<Longrightarrow> gives conn (Suc (Suc d)) (async_put_args_write P \<lparr>ap_seq_id = seq_id, ap_key = key, ap_value = value, ap_isset_seq_id = s_seq_id, ap_isset_key = s_key, ap_isset_value = s_value\<rparr>) (value_tokens (V_Struct [(1, seq_value seq_id), (2, V_String key), (3, V_String value)]))
     (sum_list (map sz (value_tokens (V_Struct [(1, seq_value seq_id), (2, V_String key), (3, V_String value)]))))"
  unfolding async_put_args_write_def
  by (rule write_struct_gives) (simp add: field_writes)

lemma async_get_batch_pargs_write_gives:
  "value_ok (V_List keys) \<Longrightarrow> gives conn (Suc (Suc d)) (async_get_batch_pargs_write P seq_id keys) (value_tokens (V_Struct [(1, seq_value seq_id), (2, V_List keys)]))
     (sum_list (map sz (value_tokens (V_Struct [(1, seq_value seq_id), (2, V_List keys)]))))"
  unfolding async_get_batch_pargs_write_def
  by (rule write_struct_gives) (simp add: field_writes)

lemma async_get_batch_args_write_gives:
  "value_ok (V_List keys) \<Longrightarrow> gives conn (Suc (Suc d)) (async_get_batch_args_write P \<lparr>agb_seq_id = seq_id, agb_keys = keys, agb_isset_seq_id = s_seq_id, agb_isset_keys = s_keys\<rparr>) (value_tokens (V_Struct [(1, seq_value seq_id), (2, V_List keys)]))
     (sum_list (map sz (value_tokens (V_Struct [(1, seq_value seq_id), (2, V_List keys)]))))"
  unfolding async_get_batch_args_write_def
  by (rule write_struct_gives) (simp add: field_writes)

lemma async_put_batch_pargs_write_gives:
  "value_ok (V_List keys) \<Longrightarrow> value_ok (V_List values) \<Longrightarrow> gives conn (Suc (Suc d)) (async_put_batch_pargs_write P seq_id keys values) (value_tokens (V_Struct [(1, seq_value seq_id), (2, V_List keys), (3, V_List values)]))
     (sum_list (map sz (value_tokens (V_Struct [(1, seq_value seq_id), (2, V_List keys), (3, V_List values)]))))"
  unfolding async_put_batch_pargs_write_def
  by (rule write_struct_gives) (simp add: field_writes)

lemma async_put_batch_args_write_gives:
  "value_ok (V_List keys) \<Longrightarrow> value_ok (V_List values) \<Longrightarrow> gives conn (Suc (Suc d)) (async_put_batch_args_write P \<lparr>apb_seq_id = seq_id, apb_keys = keys, apb_values = values, apb_isset_seq_id = s_seq_id, apb_isset_keys = s_keys, apb_isset_values = s_values\<rparr>) (value_tokens (V_Struct [(1, seq_value seq_id), (2, V_List keys), (3, V_List values)]))
     (sum_list (map sz (value_tokens (V_Struct [(1, seq_value seq_id), (2, V_List keys), (3, V_List values)]))))"
  unfolding async_put_batch_args_write_def
  by (rule write_struct_gives) (simp add: field_writes)

lemma get_pargs_write_gives:
  "value_ok (V_String key) \<Longrightarrow> gives conn (Suc (Suc d)) (get_pargs_write P key) (value_tokens (V_Struct [(1, V_String key)]))
     (sum_list (map sz (value_tokens (V_Struct [(1, V_String key)]))))"
  unfolding get_pargs_write_def
  by (rule write_struct_gives) (simp add: field_writes)

lemma get_args_write_gives:
  "value_ok (V_String key) \<Longrightarrow> gives conn (Suc (Suc d)) (get_args_write P \<lparr>g_key = key, g_isset_key = s_key\<rparr>) (value_tokens (V_Struct [(1, V_String key)]))
     (sum_list (map sz (value_tokens (V_Struct [(1, V_String key)]))))"
  unfolding get_args_write_def
  by (rule write_struct_gives) (simp add: field_writes)

lemma get_result_write_gives:
  "value_ok (V_String success) \<Longrightarrow> gives conn (Suc d) (get_result_write P \<lparr>gr_success = success, gr_isset_success = True\<rparr>) (value_tokens (V_Struct [(0, V_String success)]))
     (sum_list (map sz (value_tokens (V_Struct [(0, V_String success)]))))"
  unfolding get_result_write_def
  by (simp only: get_result.simps if_True, rule write_body_gives) (simp add: field_writes)

lemma put_pargs_write_gives:
  "value_ok (V_String key) \<Longrightarrow> value_ok (V_String value) \<Longrightarrow> gives conn (Suc (Suc d)) (put_pargs_write P key value) (value_tokens (V_Struct [(1, V_String key), (2, V_String value)]))
     (sum_list (map sz (value_tokens (V_Struct [(1, V_String key), (2, V_String value)]))))"
  unfolding put_pargs_write_def
  by (rule write_struct_gives) (simp add: field_writes)

lemma put_args_write_gives:
  "value_ok (V_String key) \<Longrightarrow> value_ok (V_String value) \<Longrightarrow> gives conn (Suc (Suc d)) (put_args_write P \<lparr>p_key = key, p_value = value, p_isset_key = s_key, p_isset_value = s_value\<rparr>) (value_tokens (V_Struct [(1, V_String key), (2, V_String value)]))
     (sum_list (map sz (value_tokens (V_Struct [(1, V_String key), (2, V_String value)]))))"
  unfolding put_args_write_def
  by (rule write_struct_gives) (simp add: field_writes)

lemma put_result_write_gives:
  "gives conn (Suc d) (put_result_write P) (value_tokens (V_Struct []))
     (sum_list (map sz (value_tokens (V_Struct []))))"
  unfolding put_result_write_def
  by (rule write_body_gives) (simp add: field_writes)

lemma get_batch_pargs_write_gives:
  "value_ok (V_List keys) \<Longrightarrow> gives conn (Suc (Suc d)) (get_batch_pargs_write P keys) (value_tokens (V_Struct [(1, V_List keys)]))
     (sum_list (map sz (value_tokens (V_Struct [(1, V_List keys)]))))"
  unfolding get_batch_pargs_write_def
  by (rule write_struct_gives) (simp add: field_writes)

lemma get_batch_args_write_gives:
  "value_ok (V_List keys) \<Longrightarrow> gives conn (Suc (Suc d)) (get_batch_args_write P \<lparr>gb_keys = keys, gb_isset_keys = s_keys\<rparr>) (value_tokens (V_Struct [(1, V_List keys)]))
     (sum_list (map sz (value_tokens (V_Struct [(1, V_List keys)]))))"
  unfolding get_batch_args_write_def
  by (rule write_struct_gives) (simp add: field_writes)

lemma get_batch_result_write_gives:
  "value_ok (V_List success) \<Longrightarrow> gives conn (Suc d) (get_batch_result_write P \<lparr>gbr_success = success, gbr_isset_success = True\<rparr>) (value_tokens (V_Struct [(0, V_List success)]))
     (sum_list (map sz (value_tokens (V_Struct [(0, V_List success)]))))"
  unfolding get_batch_result_write_def
  by (simp only: get_batch_result.simps if_True, rule write_body_gives) (simp add: field_writes)

lemma put_batch_pargs_write_gives:
  "value_ok (V_List keys) \<Longrightarrow> value_ok (V_List values) \<Longrightarrow> gives conn (Suc (Suc d)) (put_batch_pargs_write P keys values) (value_tokens (V_Struct [(1, V_List keys), (2, V_List values)]))
     (sum_list (map sz (value_tokens (V_Struct [(1, V_List keys), (2, V_List values)]))))"
  unfolding put_batch_pargs_write_def
  by (rule write_struct_gives) (simp add: field_writes)

lemma put_batch_args_write_gives:
  "value_ok (V_List keys) \<Longrightarrow> value_ok (V_List values) \<Longrightarrow> gives conn (Suc (Suc d)) (put_batch_args_write P \<lparr>pb_keys = keys, pb_values = values, pb_isset_keys = s_keys, pb_isset_values = s_values\<rparr>) (value_tokens (V_Struct [(1, V_List keys), (2, V_List values)]))
     (sum_list (map sz (value_tokens (V_Struct [(1, V_List keys), (2, V_List values)]))))"
  unfolding put_batch_args_write_def
  by (rule write_struct_gives) (simp add: field_writes)

lemma put_batch_result_write_gives:
  "gives conn (Suc d) (put_batch_result_write P) (value_tokens (V_Struct []))
     (sum_list (map sz (value_tokens (V_Struct []))))"
  unfolding put_batch_result_write_def
  by (rule write_body_gives) (simp add: field_writes)

end

end
