(* ===== verification/Thrift_Client.thy ===== *)
theory Thrift_Client
  imports Thrift_Args
begin

text \<open>
  \<open>pancake_thriftClient\<close> of \<^verbatim>\<open>service/src/thrift.cpp\<close>: for each method a \<open>send_\<close> that writes
  the call, a \<open>recv_\<close> that reads the reply, and the method itself. \<open>send_message\<close> and
  \<open>recv_reply\<close> are the steps every method repeats.
\<close>

section \<open>The steps of a method\<close>

definition end_message :: "'w tproto \<Rightarrow> ('w, unit) io" where
  "end_message P = ithen (writeMessageEnd P) (ithen (transport_writeEnd P) (transport_flush P))"

definition send_message ::
    "'w tproto \<Rightarrow> string \<Rightarrow> message_type \<Rightarrow> 32 word \<Rightarrow> ('w, 'a) io \<Rightarrow> ('w, unit) io" where
  "send_message oprot name mtype cseqid write_args =
     ithen (writeMessageBegin oprot name mtype cseqid) (ithen write_args (end_message oprot))"

definition end_reply :: "'w tproto \<Rightarrow> ('w, unit) io" where
  "end_reply P = ithen (readMessageEnd P) (ithen (transport_readEnd P) (iret ()))"

text \<open>
  A reply of another type or to another method is skipped, and then the result is read all
  the same, from whatever follows.
\<close>

definition recv_reply :: "'w tproto \<Rightarrow> string \<Rightarrow> ('w, 'r \<times> 32 word) io \<Rightarrow> ('w, 'r) io" where
  "recv_reply iprot name read_result =
     ibind (readMessageBegin iprot) (\<lambda>(fname, mtype, rseqid).
       if mtype = T_EXCEPTION then
         ibind (read_exception iprot) (\<lambda>(e, msg).
           ithen (end_reply iprot) (ithrow (Application_exception e msg)))
       else
         ithen (iwhen (mtype \<noteq> T_REPLY) (ithen (skip iprot T_STRUCT) (end_reply iprot)))
        (ithen (iwhen (fname \<noteq> name) (ithen (skip iprot T_STRUCT) (end_reply iprot)))
        (ibind read_result (\<lambda>(result, xfer). ithen (end_reply iprot) (iret result)))))"

section \<open>The methods\<close>

definition send_get_client_id :: "'w tproto \<Rightarrow> ('w, unit) io" where
  "send_get_client_id oprot =
     send_message oprot ''get_client_id'' T_CALL 0 (get_client_id_pargs_write oprot)"

text \<open>\<open>int64_t _return\<close> is not initialised; it is returned only after it has been set.\<close>

definition recv_get_client_id :: "'w tproto \<Rightarrow> ('w, 64 word) io" where
  "recv_get_client_id iprot =
     ibind (recv_reply iprot ''get_client_id''
              (get_client_id_presult_read iprot \<lparr>gcr_success = 0, gcr_isset_success = False\<rparr>)) (\<lambda>result.
       if gcr_isset_success result then iret (gcr_success result)
       else ithrow (Application_exception MISSING_RESULT ''get_client_id failed: unknown result''))"

definition client_get_client_id :: "'w tproto \<Rightarrow> 'w tproto \<Rightarrow> ('w, 64 word) io" where
  "client_get_client_id iprot oprot = ithen (send_get_client_id oprot) (recv_get_client_id iprot)"

definition send_register_client_id :: "'w tproto \<Rightarrow> 32 word \<Rightarrow> 64 word \<Rightarrow> ('w, unit) io" where
  "send_register_client_id oprot block_id client_id =
     send_message oprot ''register_client_id'' T_CALL 0
       (register_client_id_pargs_write oprot block_id client_id)"

definition recv_register_client_id :: "'w tproto \<Rightarrow> ('w, unit) io" where
  "recv_register_client_id iprot =
     recv_reply iprot ''register_client_id'' (register_client_id_presult_read iprot)"

definition client_register_client_id ::
    "'w tproto \<Rightarrow> 'w tproto \<Rightarrow> 32 word \<Rightarrow> 64 word \<Rightarrow> ('w, unit) io" where
  "client_register_client_id iprot oprot block_id client_id =
     ithen (send_register_client_id oprot block_id client_id) (recv_register_client_id iprot)"

definition send_async_get :: "'w tproto \<Rightarrow> sequence_id \<Rightarrow> string \<Rightarrow> ('w, unit) io" where
  "send_async_get oprot seq_id key =
     send_message oprot ''async_get'' T_ONEWAY 0 (async_get_pargs_write oprot seq_id key)"

definition client_async_get :: "'w tproto \<Rightarrow> sequence_id \<Rightarrow> string \<Rightarrow> ('w, unit) io" where
  "client_async_get oprot seq_id key = send_async_get oprot seq_id key"

definition send_async_put :: "'w tproto \<Rightarrow> sequence_id \<Rightarrow> string \<Rightarrow> string \<Rightarrow> ('w, unit) io" where
  "send_async_put oprot seq_id key val =
     send_message oprot ''async_put'' T_ONEWAY 0 (async_put_pargs_write oprot seq_id key val)"

definition client_async_put :: "'w tproto \<Rightarrow> sequence_id \<Rightarrow> string \<Rightarrow> string \<Rightarrow> ('w, unit) io" where
  "client_async_put oprot seq_id key val = send_async_put oprot seq_id key val"

definition send_async_get_batch :: "'w tproto \<Rightarrow> sequence_id \<Rightarrow> string list \<Rightarrow> ('w, unit) io" where
  "send_async_get_batch oprot seq_id keys =
     send_message oprot ''async_get_batch'' T_ONEWAY 0 (async_get_batch_pargs_write oprot seq_id keys)"

definition client_async_get_batch :: "'w tproto \<Rightarrow> sequence_id \<Rightarrow> string list \<Rightarrow> ('w, unit) io" where
  "client_async_get_batch oprot seq_id keys = send_async_get_batch oprot seq_id keys"

definition send_async_put_batch ::
    "'w tproto \<Rightarrow> sequence_id \<Rightarrow> string list \<Rightarrow> string list \<Rightarrow> ('w, unit) io" where
  "send_async_put_batch oprot seq_id keys vals =
     send_message oprot ''async_put_batch'' T_ONEWAY 0 (async_put_batch_pargs_write oprot seq_id keys vals)"

definition client_async_put_batch ::
    "'w tproto \<Rightarrow> sequence_id \<Rightarrow> string list \<Rightarrow> string list \<Rightarrow> ('w, unit) io" where
  "client_async_put_batch oprot seq_id keys vals = send_async_put_batch oprot seq_id keys vals"

definition send_get :: "'w tproto \<Rightarrow> string \<Rightarrow> ('w, unit) io" where
  "send_get oprot key = send_message oprot ''get'' T_CALL 0 (get_pargs_write oprot key)"

definition recv_get :: "'w tproto \<Rightarrow> string \<Rightarrow> ('w, string) io" where
  "recv_get iprot ret =
     ibind (recv_reply iprot ''get''
              (get_presult_read iprot \<lparr>gr_success = ret, gr_isset_success = False\<rparr>)) (\<lambda>result.
       if gr_isset_success result then iret (gr_success result)
       else ithrow (Application_exception MISSING_RESULT ''get failed: unknown result''))"

definition client_get :: "'w tproto \<Rightarrow> 'w tproto \<Rightarrow> string \<Rightarrow> string \<Rightarrow> ('w, string) io" where
  "client_get iprot oprot ret key = ithen (send_get oprot key) (recv_get iprot ret)"

definition send_put :: "'w tproto \<Rightarrow> string \<Rightarrow> string \<Rightarrow> ('w, unit) io" where
  "send_put oprot key val = send_message oprot ''put'' T_CALL 0 (put_pargs_write oprot key val)"

definition recv_put :: "'w tproto \<Rightarrow> ('w, unit) io" where
  "recv_put iprot = recv_reply iprot ''put'' (put_presult_read iprot)"

definition client_put :: "'w tproto \<Rightarrow> 'w tproto \<Rightarrow> string \<Rightarrow> string \<Rightarrow> ('w, unit) io" where
  "client_put iprot oprot key val = ithen (send_put oprot key val) (recv_put iprot)"

definition send_get_batch :: "'w tproto \<Rightarrow> string list \<Rightarrow> ('w, unit) io" where
  "send_get_batch oprot keys = send_message oprot ''get_batch'' T_CALL 0 (get_batch_pargs_write oprot keys)"

definition recv_get_batch :: "'w tproto \<Rightarrow> string list \<Rightarrow> ('w, string list) io" where
  "recv_get_batch iprot ret =
     ibind (recv_reply iprot ''get_batch''
              (get_batch_presult_read iprot \<lparr>gbr_success = ret, gbr_isset_success = False\<rparr>)) (\<lambda>result.
       if gbr_isset_success result then iret (gbr_success result)
       else ithrow (Application_exception MISSING_RESULT ''get_batch failed: unknown result''))"

definition client_get_batch :: "'w tproto \<Rightarrow> 'w tproto \<Rightarrow> string list \<Rightarrow> string list \<Rightarrow> ('w, string list) io" where
  "client_get_batch iprot oprot ret keys = ithen (send_get_batch oprot keys) (recv_get_batch iprot ret)"

definition send_put_batch :: "'w tproto \<Rightarrow> string list \<Rightarrow> string list \<Rightarrow> ('w, unit) io" where
  "send_put_batch oprot keys vals =
     send_message oprot ''put_batch'' T_CALL 0 (put_batch_pargs_write oprot keys vals)"

definition recv_put_batch :: "'w tproto \<Rightarrow> ('w, unit) io" where
  "recv_put_batch iprot = recv_reply iprot ''put_batch'' (put_batch_presult_read iprot)"

definition client_put_batch :: "'w tproto \<Rightarrow> 'w tproto \<Rightarrow> string list \<Rightarrow> string list \<Rightarrow> ('w, unit) io" where
  "client_put_batch iprot oprot keys vals = ithen (send_put_batch oprot keys vals) (recv_put_batch iprot)"

section \<open>What a send writes and a receive reads\<close>

definition message :: "string \<Rightarrow> message_type \<Rightarrow> 32 word \<Rightarrow> tvalue \<Rightarrow> token list" where
  "message name mtype seqid v = Tk_Message name mtype seqid # value_tokens v @ [Tk_MessageEnd]"

definition exception_message :: "string \<Rightarrow> 32 word \<Rightarrow> application_error \<Rightarrow> string \<Rightarrow> token list" where
  "exception_message name seqid e msg = [Tk_Message name T_EXCEPTION seqid, Tk_Exception e msg, Tk_MessageEnd]"

lemma gives_then: "gives conn d m ts x \<Longrightarrow> gives conn d k us y \<Longrightarrow> gives conn d (ithen m k) (ts @ us) y"
  unfolding ithen_def by (rule gives_bind [where f = "\<lambda>_. k"])

lemma takes_then: "takes conn d m ts x \<Longrightarrow> takes conn d k us y \<Longrightarrow> takes conn d (ithen m k) (ts @ us) y"
  unfolding ithen_def by (rule takes_bind [where f = "\<lambda>_. k"])

context thrift_output begin

lemma end_message_gives: "gives conn d (end_message P) [Tk_MessageEnd] ()"
  unfolding gives_def
proof (intro allI impI)
  fix w a h
  assume c: "conn w a h" "w_out_depth a + d \<le> recursion_limit"
  obtain w1 where 1: "writeMessageEnd P w = Some (Inr (sz Tk_MessageEnd), w1)"
      "conn w1 (a\<lparr>w_out := w_out a @ [Tk_MessageEnd]\<rparr>) h"
    using givesD [OF gives_mono [OF out_messageEnd le0] c] by blast
  moreover obtain n w2 where 2: "transport_writeEnd P w1 = Some (Inr n, w2)"
      "conn w2 (a\<lparr>w_out := w_out a @ [Tk_MessageEnd]\<rparr>) h"
    using out_writeEnd [OF 1(2)] by blast
  moreover obtain w3 where "transport_flush P w2 = Some (Inr (), w3)"
      "conn w3 (a\<lparr>w_out := w_out a @ [Tk_MessageEnd]\<rparr>) h"
    using out_flush [OF 2(2)] by blast
  ultimately show "\<exists>w'. end_message P w = Some (Inr (), w') \<and> conn w' (a\<lparr>w_out := w_out a @ [Tk_MessageEnd]\<rparr>) h"
    by (simp add: end_message_def ithen_Inr)
qed

lemma send_message_gives:
  assumes "gives conn d body (value_tokens v) n"
  shows "gives conn d (send_message P name mtype seqid body) (message name mtype seqid v) ()"
  using gives_then [OF gives_mono [OF out_message le0] gives_then [OF assms end_message_gives]]
  by (simp add: send_message_def message_def)

lemma send_exception_gives:
  assumes "length msg < 2 ^ 31"
  shows "gives conn 2 (send_message P name T_EXCEPTION seqid (write_exception P e msg))
     (exception_message name seqid e msg) ()"
  using gives_then [OF gives_mono [OF out_message le0] gives_then [OF out_exception [OF assms] end_message_gives]]
  by (simp add: send_message_def exception_message_def)

lemma send_gives:
  "gives conn 2 (send_get_client_id P) (message ''get_client_id'' T_CALL 0 (V_Struct [])) ()"
  "gives conn 2 (send_register_client_id P bid cid)
     (message ''register_client_id'' T_CALL 0 (V_Struct [(1, V_I32 bid), (2, V_I64 cid)])) ()"
  "value_ok (V_String k) \<Longrightarrow> gives conn 2 (send_async_get P s k)
     (message ''async_get'' T_ONEWAY 0 (V_Struct [(1, seq_value s), (2, V_String k)])) ()"
  "value_ok (V_String k) \<Longrightarrow> value_ok (V_String x) \<Longrightarrow> gives conn 2 (send_async_put P s k x)
     (message ''async_put'' T_ONEWAY 0 (V_Struct [(1, seq_value s), (2, V_String k), (3, V_String x)])) ()"
  "value_ok (V_List ks) \<Longrightarrow> gives conn 2 (send_async_get_batch P s ks)
     (message ''async_get_batch'' T_ONEWAY 0 (V_Struct [(1, seq_value s), (2, V_List ks)])) ()"
  "value_ok (V_List ks) \<Longrightarrow> value_ok (V_List xs) \<Longrightarrow> gives conn 2 (send_async_put_batch P s ks xs)
     (message ''async_put_batch'' T_ONEWAY 0 (V_Struct [(1, seq_value s), (2, V_List ks), (3, V_List xs)])) ()"
  "value_ok (V_String k) \<Longrightarrow> gives conn 2 (send_get P k) (message ''get'' T_CALL 0 (V_Struct [(1, V_String k)])) ()"
  "value_ok (V_String k) \<Longrightarrow> value_ok (V_String x) \<Longrightarrow> gives conn 2 (send_put P k x)
     (message ''put'' T_CALL 0 (V_Struct [(1, V_String k), (2, V_String x)])) ()"
  "value_ok (V_List ks) \<Longrightarrow> gives conn 2 (send_get_batch P ks)
     (message ''get_batch'' T_CALL 0 (V_Struct [(1, V_List ks)])) ()"
  "value_ok (V_List ks) \<Longrightarrow> value_ok (V_List xs) \<Longrightarrow> gives conn 2 (send_put_batch P ks xs)
     (message ''put_batch'' T_CALL 0 (V_Struct [(1, V_List ks), (2, V_List xs)])) ()"
  unfolding send_get_client_id_def send_register_client_id_def send_async_get_def send_async_put_def
    send_async_get_batch_def send_async_put_batch_def send_get_def send_put_def send_get_batch_def
    send_put_batch_def numeral_2_eq_2
  by (rule send_message_gives, rule get_client_id_pargs_write_gives register_client_id_pargs_write_gives
      async_get_pargs_write_gives async_put_pargs_write_gives async_get_batch_pargs_write_gives
      async_put_batch_pargs_write_gives get_pargs_write_gives put_pargs_write_gives
      get_batch_pargs_write_gives put_batch_pargs_write_gives; simp)+

end

context thrift_input begin

lemma end_reply_takes: "takes conn d (end_reply P) [Tk_MessageEnd] ()"
  unfolding takes_def
proof (intro allI impI)
  fix w a h rest
  assume c: "conn w a h" "w_in a = [Tk_MessageEnd] @ rest" "w_in_depth a + d \<le> recursion_limit"
  obtain w1 where 1: "readMessageEnd P w = Some (Inr (sz Tk_MessageEnd), w1)" "conn w1 (a\<lparr>w_in := rest\<rparr>) h"
    using takesD [OF takes_mono [OF in_messageEnd le0] c] by blast
  moreover obtain n w2 where "transport_readEnd P w1 = Some (Inr n, w2)" "conn w2 (a\<lparr>w_in := rest\<rparr>) h"
    using in_readEnd [OF 1(2)] by blast
  ultimately show "\<exists>w'. end_reply P w = Some (Inr (), w') \<and> conn w' (a\<lparr>w_in := rest\<rparr>) h"
    by (simp add: end_reply_def ithen_Inr iret_apply)
qed

lemma recv_reply_takes:
  assumes "takes conn d rd (value_tokens v) (r, n)"
  shows "takes conn d (recv_reply P name rd) (message name T_REPLY seqid v) r"
proof -
  have "takes conn d ((\<lambda>(result, xfer). ithen (end_reply P) (iret result)) (r, n)) [Tk_MessageEnd] r"
    using takes_then [OF end_reply_takes takes_iret] by simp
  then have "takes conn d (ibind rd (\<lambda>(result, xfer). ithen (end_reply P) (iret result)))
      (value_tokens v @ [Tk_MessageEnd]) r"
    by (rule takes_bind [OF assms])
  then have "takes conn d ((\<lambda>(fname, mtype, rseqid). if mtype = T_EXCEPTION then
        ibind (read_exception P) (\<lambda>(e, msg). ithen (end_reply P) (ithrow (Application_exception e msg)))
       else ithen (iwhen (mtype \<noteq> T_REPLY) (ithen (skip P T_STRUCT) (end_reply P)))
        (ithen (iwhen (fname \<noteq> name) (ithen (skip P T_STRUCT) (end_reply P)))
        (ibind rd (\<lambda>(result, xfer). ithen (end_reply P) (iret result))))) (name, T_REPLY, seqid))
      (value_tokens v @ [Tk_MessageEnd]) r"
    by (simp add: iwhen_def ithen_def)
  then have "takes conn d (recv_reply P name rd) ([Tk_Message name T_REPLY seqid] @ value_tokens v @ [Tk_MessageEnd]) r"
    unfolding recv_reply_def by (rule takes_bind [OF takes_mono [OF in_message le0]])
  then show ?thesis by (simp add: message_def)
qed

lemma recv_exception:
  assumes "conn w a h" and "w_in a = exception_message nm seqid e msg @ rest"
    and "length msg < 2 ^ 31" and "w_in_depth a + 2 \<le> recursion_limit"
  shows "\<exists>w'. recv_reply P name rd w = Some (Inl (Application_exception e msg), w') \<and> conn w' (a\<lparr>w_in := rest\<rparr>) h"
proof -
  obtain w1 where 1: "readMessageBegin P w = Some (Inr (nm, T_EXCEPTION, seqid), w1)"
      "conn w1 (a\<lparr>w_in := Tk_Exception e msg # Tk_MessageEnd # rest\<rparr>) h"
    using takesD [OF takes_mono [OF in_message le0] assms(1) _ assms(4), of nm T_EXCEPTION seqid] assms(2)
    by (auto simp: exception_message_def)
  moreover obtain w2 where 2: "read_exception P w1 = Some (Inr (e, msg), w2)" "conn w2 (a\<lparr>w_in := Tk_MessageEnd # rest\<rparr>) h"
    using takesD [OF in_exception [OF assms(3)] 1(2), of e "Tk_MessageEnd # rest"] assms(4) by auto
  moreover obtain w3 where "end_reply P w2 = Some (Inr (), w3)" "conn w3 (a\<lparr>w_in := rest\<rparr>) h"
    using takesD [OF end_reply_takes 2(2), of rest 0] assms(4) by auto
  ultimately show ?thesis by (simp add: recv_reply_def ibind_Inr ithen_Inr ithrow_apply)
qed

lemma recv_result_takes:
  assumes "takes conn d rd (value_tokens v) (r, n)" and "f r = iret y"
  shows "takes conn d (ibind (recv_reply P name rd) f) (message name T_REPLY seqid v) y"
proof -
  have "takes conn d (ibind (recv_reply P name rd) f) (message name T_REPLY seqid v @ []) y"
    by (rule takes_bind [OF recv_reply_takes [OF assms(1)]]) (simp add: assms(2) takes_iret)
  then show ?thesis by simp
qed

lemma recv_takes:
  "takes conn 3 (recv_get_client_id P) (message ''get_client_id'' T_REPLY seqid (V_Struct [(0, V_I64 c)])) c"
  "takes conn 3 (recv_register_client_id P) (message ''register_client_id'' T_REPLY seqid (V_Struct [])) ()"
  "value_ok (V_String x) \<Longrightarrow>
   takes conn 3 (recv_get P ret) (message ''get'' T_REPLY seqid (V_Struct [(0, V_String x)])) x"
  "takes conn 3 (recv_put P) (message ''put'' T_REPLY seqid (V_Struct [])) ()"
  "value_ok (V_List xs) \<Longrightarrow>
   takes conn 3 (recv_get_batch P rets) (message ''get_batch'' T_REPLY seqid (V_Struct [(0, V_List xs)])) xs"
  "takes conn 3 (recv_put_batch P) (message ''put_batch'' T_REPLY seqid (V_Struct [])) ()"
  unfolding recv_get_client_id_def recv_register_client_id_def recv_get_def recv_put_def
    recv_get_batch_def recv_put_batch_def numeral_3_eq_3
  by ((rule recv_result_takes recv_reply_takes,
      rule get_client_id_presult_read_takes register_client_id_presult_read_takes get_presult_read_takes
        put_presult_read_takes get_batch_presult_read_takes put_batch_presult_read_takes);
      simp add: get_client_id_result_upd_def get_result_upd_def get_batch_result_upd_def on_value_defs)+

text \<open>
  After a reply to another method \<open>recv_reply\<close> goes on and takes what follows for its
  result.
\<close>

lemma recv_mismatch:
  assumes "takes conn d rd (value_tokens v) (r, n)" and "nm \<noteq> name"
    and "value_ok u" and "value_type u = T_STRUCT" and "value_depth u \<le> d"
  shows "takes conn d (recv_reply P name rd) (message nm T_REPLY seqid u @ value_tokens v @ [Tk_MessageEnd]) r"
proof -
  have "takes conn d (ithen (end_reply P) (iret r)) ([Tk_MessageEnd] @ []) r"
    by (rule takes_then [OF end_reply_takes takes_iret])
  then have "takes conn d (ibind rd (\<lambda>(result, xfer). ithen (end_reply P) (iret result)))
      (value_tokens v @ [Tk_MessageEnd]) r"
    by (intro takes_bind [OF assms(1)]) simp
  moreover have "takes conn d (skip P T_STRUCT) (value_tokens u) (size_of (value_tokens u))"
    using takes_mono [OF in_skip [OF assms(3)] assms(5)] assms(4) by simp
  ultimately have "takes conn d (ithen (ithen (skip P T_STRUCT) (end_reply P))
      (ibind rd (\<lambda>(result, xfer). ithen (end_reply P) (iret result))))
      ((value_tokens u @ [Tk_MessageEnd]) @ value_tokens v @ [Tk_MessageEnd]) r"
    by (intro takes_then [OF takes_then [OF _ end_reply_takes]])
  then have "takes conn d (recv_reply P name rd) ([Tk_Message nm T_REPLY seqid] @
      (value_tokens u @ [Tk_MessageEnd]) @ value_tokens v @ [Tk_MessageEnd]) r"
    unfolding recv_reply_def
    by (intro takes_bind [OF takes_mono [OF in_message le0]]) (use assms(2) in \<open>simp add: iwhen_def ithen_def\<close>)
  then show ?thesis by (simp add: message_def)
qed

end

end
