(* ===== verification/Thrift_Processor.thy ===== *)
theory Thrift_Processor
  imports Thrift_Client
begin

text \<open>
  \<open>pancake_thriftProcessor\<close> of \<^verbatim>\<open>service/src/thrift.cpp\<close>, which reads the arguments of a call,
  runs the handler (\<open>iface\<close>, the class \<open>pancake_thriftIf\<close>) and writes the reply.
  \<open>process_call\<close> and \<open>process_oneway\<close> are the bodies the generated code repeats for the
  methods with a reply and for those without.
\<close>

section \<open>The handler and the processor\<close>

record 'w iface =
  if_get_client_id :: "('w, 64 word) io"
  if_register_client_id :: "32 word \<Rightarrow> 64 word \<Rightarrow> ('w, unit) io"
  if_async_get :: "sequence_id \<Rightarrow> string \<Rightarrow> ('w, unit) io"
  if_async_put :: "sequence_id \<Rightarrow> string \<Rightarrow> string \<Rightarrow> ('w, unit) io"
  if_async_get_batch :: "sequence_id \<Rightarrow> string list \<Rightarrow> ('w, unit) io"
  if_async_put_batch :: "sequence_id \<Rightarrow> string list \<Rightarrow> string list \<Rightarrow> ('w, unit) io"
  if_get :: "string \<Rightarrow> ('w, string) io"
  if_put :: "string \<Rightarrow> string \<Rightarrow> ('w, unit) io"
  if_get_batch :: "string list \<Rightarrow> ('w, string list) io"
  if_put_batch :: "string list \<Rightarrow> string list \<Rightarrow> ('w, unit) io"

text \<open>The class \<open>pancake_thriftNull\<close>: every method returns at once, results are empty.\<close>

definition null_iface :: "'w iface" where
  "null_iface =
     \<lparr>if_get_client_id = iret 0, if_register_client_id = \<lambda>_ _. iret (),
      if_async_get = \<lambda>_ _. iret (), if_async_put = \<lambda>_ _ _. iret (),
      if_async_get_batch = \<lambda>_ _. iret (), if_async_put_batch = \<lambda>_ _ _. iret (),
      if_get = \<lambda>_. iret [], if_put = \<lambda>_ _. iret (),
      if_get_batch = \<lambda>_. iret [], if_put_batch = \<lambda>_ _. iret ()\<rparr>"

text \<open>
  The optional \<open>TProcessorEventHandler\<close>; the context pointers are numbers. \<open>pr_what\<close> is
  \<open>e.what()\<close>.
\<close>

record 'w event_handler =
  getContext :: "string \<Rightarrow> nat \<Rightarrow> 'w \<Rightarrow> nat \<times> 'w"
  freeContext :: "nat \<Rightarrow> string \<Rightarrow> 'w \<Rightarrow> 'w"
  preRead :: "nat \<Rightarrow> string \<Rightarrow> 'w \<Rightarrow> 'w"
  postRead :: "nat \<Rightarrow> string \<Rightarrow> 32 word \<Rightarrow> 'w \<Rightarrow> 'w"
  handlerError :: "nat \<Rightarrow> string \<Rightarrow> 'w \<Rightarrow> 'w"
  asyncComplete :: "nat \<Rightarrow> string \<Rightarrow> 'w \<Rightarrow> 'w"
  preWrite :: "nat \<Rightarrow> string \<Rightarrow> 'w \<Rightarrow> 'w"
  postWrite :: "nat \<Rightarrow> string \<Rightarrow> 32 word \<Rightarrow> 'w \<Rightarrow> 'w"

record 'w processor =
  pr_iface :: "'w iface"
  pr_event :: "'w event_handler option"
  pr_what :: "cpp_error \<Rightarrow> string"

definition notify :: "'w processor \<Rightarrow> ('w event_handler \<Rightarrow> 'w \<Rightarrow> 'w) \<Rightarrow> ('w, unit) io" where
  "notify pr ev = imodify (\<lambda>w. case pr_event pr of None \<Rightarrow> w | Some h \<Rightarrow> ev h w)"

text \<open>The context of a call: obtained first, freed by the destructor of \<open>freer\<close>.\<close>

definition with_context :: "'w processor \<Rightarrow> string \<Rightarrow> nat \<Rightarrow> (nat \<Rightarrow> ('w, unit) io) \<Rightarrow> ('w, unit) io" where
  "with_context pr full callContext body = (\<lambda>w.
     case pr_event pr of
       None \<Rightarrow> body 0 w
     | Some h \<Rightarrow> (let (ctx, w1) = getContext h full callContext w
                in ifinally (body ctx) (freeContext h ctx full) w1))"

section \<open>Processing a call\<close>

definition read_arguments ::
    "'w processor \<Rightarrow> 'w tproto \<Rightarrow> string \<Rightarrow> nat \<Rightarrow> ('w, 'a \<times> 32 word) io \<Rightarrow> ('w, 'a) io" where
  "read_arguments pr iprot full ctx read_args =
     ithen (notify pr (\<lambda>h. preRead h ctx full))
    (ibind read_args (\<lambda>(args, xfer).
     ithen (readMessageEnd iprot)
    (ibind (transport_readEnd iprot) (\<lambda>bytes.
     ithen (notify pr (\<lambda>h. postRead h ctx full bytes)) (iret args)))))"

definition process_call ::
    "'w processor \<Rightarrow> 'w tproto \<Rightarrow> 'w tproto \<Rightarrow> string \<Rightarrow> string \<Rightarrow> 32 word \<Rightarrow> nat \<Rightarrow>
     ('w, 'a \<times> 32 word) io \<Rightarrow> ('a \<Rightarrow> ('w, 'r) io) \<Rightarrow> ('r \<Rightarrow> ('w, 32 word) io) \<Rightarrow> ('w, unit) io" where
  "process_call pr iprot oprot name full seqid callContext read_args call write_result =
     with_context pr full callContext (\<lambda>ctx.
       ibind (read_arguments pr iprot full ctx read_args) (\<lambda>args.
       ibind (iattempt (call args)) (\<lambda>outcome.
         case outcome of
           Inl e \<Rightarrow>
             ithen (notify pr (\<lambda>h. handlerError h ctx full))
                   (send_message oprot name T_EXCEPTION seqid (write_exception oprot UNKNOWN (pr_what pr e)))
         | Inr result \<Rightarrow>
             ithen (notify pr (\<lambda>h. preWrite h ctx full))
            (ithen (writeMessageBegin oprot name T_REPLY seqid)
            (ithen (write_result result)
            (ithen (writeMessageEnd oprot)
            (ibind (transport_writeEnd oprot) (\<lambda>bytes.
             ithen (transport_flush oprot)
                   (notify pr (\<lambda>h. postWrite h ctx full bytes))))))))))"

definition process_oneway ::
    "'w processor \<Rightarrow> 'w tproto \<Rightarrow> string \<Rightarrow> nat \<Rightarrow> ('w, 'a \<times> 32 word) io \<Rightarrow> ('a \<Rightarrow> ('w, unit) io) \<Rightarrow>
     ('w, unit) io" where
  "process_oneway pr iprot full callContext read_args call =
     with_context pr full callContext (\<lambda>ctx.
       ibind (read_arguments pr iprot full ctx read_args) (\<lambda>args.
       ibind (iattempt (call args)) (\<lambda>outcome.
         case outcome of
           Inl e \<Rightarrow> notify pr (\<lambda>h. handlerError h ctx full)
         | Inr u \<Rightarrow> notify pr (\<lambda>h. asyncComplete h ctx full))))"

section \<open>The methods\<close>

type_synonym 'w process_function = "32 word \<Rightarrow> 'w tproto \<Rightarrow> 'w tproto \<Rightarrow> nat \<Rightarrow> ('w, unit) io"

definition process_get_client_id :: "'w processor \<Rightarrow> 'w process_function" where
  "process_get_client_id pr seqid iprot oprot callContext =
     process_call pr iprot oprot ''get_client_id'' ''pancake_thrift.get_client_id'' seqid callContext
       (get_client_id_args_read iprot)
       (\<lambda>args. if_get_client_id (pr_iface pr))
       (\<lambda>r. get_client_id_result_write oprot \<lparr>gcr_success = r, gcr_isset_success = True\<rparr>)"

definition process_register_client_id :: "'w processor \<Rightarrow> 'w process_function" where
  "process_register_client_id pr seqid iprot oprot callContext =
     process_call pr iprot oprot ''register_client_id'' ''pancake_thrift.register_client_id'' seqid callContext
       (register_client_id_args_read iprot register_client_id_args_new)
       (\<lambda>args. if_register_client_id (pr_iface pr) (rc_block_id args) (rc_client_id args))
       (\<lambda>r. register_client_id_result_write oprot)"

definition process_async_get :: "'w processor \<Rightarrow> 'w process_function" where
  "process_async_get pr seqid iprot oprot callContext =
     process_oneway pr iprot ''pancake_thrift.async_get'' callContext
       (async_get_args_read iprot async_get_args_new)
       (\<lambda>args. if_async_get (pr_iface pr) (ag_seq_id args) (ag_key args))"

definition process_async_put :: "'w processor \<Rightarrow> 'w process_function" where
  "process_async_put pr seqid iprot oprot callContext =
     process_oneway pr iprot ''pancake_thrift.async_put'' callContext
       (async_put_args_read iprot async_put_args_new)
       (\<lambda>args. if_async_put (pr_iface pr) (ap_seq_id args) (ap_key args) (ap_value args))"

definition process_async_get_batch :: "'w processor \<Rightarrow> 'w process_function" where
  "process_async_get_batch pr seqid iprot oprot callContext =
     process_oneway pr iprot ''pancake_thrift.async_get_batch'' callContext
       (async_get_batch_args_read iprot async_get_batch_args_new)
       (\<lambda>args. if_async_get_batch (pr_iface pr) (agb_seq_id args) (agb_keys args))"

definition process_async_put_batch :: "'w processor \<Rightarrow> 'w process_function" where
  "process_async_put_batch pr seqid iprot oprot callContext =
     process_oneway pr iprot ''pancake_thrift.async_put_batch'' callContext
       (async_put_batch_args_read iprot async_put_batch_args_new)
       (\<lambda>args. if_async_put_batch (pr_iface pr) (apb_seq_id args) (apb_keys args) (apb_values args))"

definition process_get :: "'w processor \<Rightarrow> 'w process_function" where
  "process_get pr seqid iprot oprot callContext =
     process_call pr iprot oprot ''get'' ''pancake_thrift.get'' seqid callContext
       (get_args_read iprot get_args_new)
       (\<lambda>args. if_get (pr_iface pr) (g_key args))
       (\<lambda>r. get_result_write oprot \<lparr>gr_success = r, gr_isset_success = True\<rparr>)"

definition process_put :: "'w processor \<Rightarrow> 'w process_function" where
  "process_put pr seqid iprot oprot callContext =
     process_call pr iprot oprot ''put'' ''pancake_thrift.put'' seqid callContext
       (put_args_read iprot put_args_new)
       (\<lambda>args. if_put (pr_iface pr) (p_key args) (p_value args))
       (\<lambda>r. put_result_write oprot)"

definition process_get_batch :: "'w processor \<Rightarrow> 'w process_function" where
  "process_get_batch pr seqid iprot oprot callContext =
     process_call pr iprot oprot ''get_batch'' ''pancake_thrift.get_batch'' seqid callContext
       (get_batch_args_read iprot get_batch_args_new)
       (\<lambda>args. if_get_batch (pr_iface pr) (gb_keys args))
       (\<lambda>r. get_batch_result_write oprot \<lparr>gbr_success = r, gbr_isset_success = True\<rparr>)"

definition process_put_batch :: "'w processor \<Rightarrow> 'w process_function" where
  "process_put_batch pr seqid iprot oprot callContext =
     process_call pr iprot oprot ''put_batch'' ''pancake_thrift.put_batch'' seqid callContext
       (put_batch_args_read iprot put_batch_args_new)
       (\<lambda>args. if_put_batch (pr_iface pr) (pb_keys args) (pb_values args))
       (\<lambda>r. put_batch_result_write oprot)"

definition process_map :: "'w processor \<Rightarrow> string \<rightharpoonup> 'w process_function" where
  "process_map pr =
     [''get_client_id'' \<mapsto> process_get_client_id pr,
      ''register_client_id'' \<mapsto> process_register_client_id pr,
      ''async_get'' \<mapsto> process_async_get pr,
      ''async_put'' \<mapsto> process_async_put pr,
      ''async_get_batch'' \<mapsto> process_async_get_batch pr,
      ''async_put_batch'' \<mapsto> process_async_put_batch pr,
      ''get'' \<mapsto> process_get pr,
      ''put'' \<mapsto> process_put pr,
      ''get_batch'' \<mapsto> process_get_batch pr,
      ''put_batch'' \<mapsto> process_put_batch pr]"

text \<open>The part of a dispatcher that the two services share, over the map of their methods.\<close>

definition dispatch_on ::
    "(string \<rightharpoonup> 'w process_function) \<Rightarrow> 'w tproto \<Rightarrow> 'w tproto \<Rightarrow> string \<Rightarrow> 32 word \<Rightarrow> nat \<Rightarrow> ('w, bool) io" where
  "dispatch_on processMap iprot oprot fname seqid callContext =
     (case processMap fname of
        None \<Rightarrow>
          ithen (skip iprot T_STRUCT)
         (ithen (end_reply iprot)
         (ithen (send_message oprot fname T_EXCEPTION seqid
                   (write_exception oprot UNKNOWN_METHOD (''Invalid method name: '' @ CHR 0x27 # fname @ [CHR 0x27])))
                (iret True)))
      | Some f \<Rightarrow> ithen (f seqid iprot oprot callContext) (iret True))"

definition dispatchCall ::
    "'w processor \<Rightarrow> 'w tproto \<Rightarrow> 'w tproto \<Rightarrow> string \<Rightarrow> 32 word \<Rightarrow> nat \<Rightarrow> ('w, bool) io" where
  "dispatchCall pr = dispatch_on (process_map pr)"

end
