(* ===== verification/Thrift_Service.thy ===== *)
theory Thrift_Service
  imports Thrift_Processor
begin

text \<open>
  A processor between two connections that satisfy the protocol contract: what each method
  does to the unread input, the written output and the rest of the world \<open>h\<close>, when the
  handler returns and when it throws.
\<close>

text \<open>\<open>handles conn m h r h'\<close>: the handler's \<open>m\<close> leaves the connection alone, ends in \<open>r\<close> and
  takes the rest of the world from \<open>h\<close> to \<open>h'\<close>.\<close>

definition handles ::
    "('w \<Rightarrow> wire \<Rightarrow> 'h \<Rightarrow> bool) \<Rightarrow> ('w, 'a) io \<Rightarrow> 'h \<Rightarrow> cpp_error + 'a \<Rightarrow> 'h \<Rightarrow> bool" where
  "handles conn m h r h' \<longleftrightarrow> (\<forall>w a. conn w a h \<longrightarrow> (\<exists>w'. m w = Some (r, w') \<and> conn w' a h'))"

definition unnested :: "wire \<Rightarrow> bool" where
  "unnested a \<longleftrightarrow> w_in_depth a = 0 \<and> w_out_depth a = 0"

locale thrift_server = thrift_input ip conn sz + thrift_output oprt conn sz
  for ip oprt :: "'w tproto" and conn :: "'w \<Rightarrow> wire \<Rightarrow> 'h \<Rightarrow> bool" and sz +
  fixes pr :: "'w processor"
  assumes no_events: "pr_event pr = None"
begin

lemma notify_none [simp]: "notify pr ev w = Some (Inr (), w)"
  by (simp add: notify_def no_events imodify_apply)

lemma with_context_none [simp]: "with_context pr full cc body w = body 0 w"
  by (simp add: with_context_def no_events)

lemma read_arguments_takes:
  assumes "takes conn 3 rd (value_tokens v) (args, n)" and "conn w a h" and "unnested a"
    and "w_in a = value_tokens v @ Tk_MessageEnd # rest"
  shows "\<exists>w'. read_arguments pr ip full ctx rd w = Some (Inr args, w') \<and> conn w' (a\<lparr>w_in := rest\<rparr>) h"
proof -
  have d: "w_in_depth a + 3 \<le> recursion_limit" using assms(3) by (simp add: unnested_def recursion_limit_def)
  obtain w1 where 1: "rd w = Some (Inr (args, n), w1)" "conn w1 (a\<lparr>w_in := Tk_MessageEnd # rest\<rparr>) h"
    using takesD [OF assms(1,2,4) d] by blast
  moreover obtain w2 where 2: "readMessageEnd ip w1 = Some (Inr (sz Tk_MessageEnd), w2)" "conn w2 (a\<lparr>w_in := rest\<rparr>) h"
    using takesD [OF in_messageEnd 1(2), of rest] d by auto
  moreover obtain k w3 where "transport_readEnd ip w2 = Some (Inr k, w3)" "conn w3 (a\<lparr>w_in := rest\<rparr>) h"
    using in_readEnd [OF 2(2)] by blast
  ultimately show ?thesis
    by (simp add: read_arguments_def ithen_Inr ibind_Inr iret_apply)
qed

text \<open>A call whose handler returns is answered with a reply.\<close>

lemma process_call_reply:
  assumes "takes conn 3 rd (value_tokens v) (args, n)" and "conn w a h" and "unnested a"
    and "w_in a = value_tokens v @ Tk_MessageEnd # rest"
    and "handles conn (call args) h (Inr r) h'" and "gives conn 3 (wr r) (value_tokens u) k"
  shows "\<exists>w'. process_call pr ip oprt name full seqid cc rd call wr w = Some (Inr (), w') \<and>
    conn w' (a\<lparr>w_in := rest, w_out := w_out a @ message name T_REPLY seqid u\<rparr>) h'"
proof -
  let ?a = "a\<lparr>w_in := rest\<rparr>"
  have d: "w_out_depth ?a + 3 \<le> recursion_limit" using assms(3) by (simp add: unnested_def recursion_limit_def)
  obtain w1 where 1: "read_arguments pr ip full 0 rd w = Some (Inr args, w1)" "conn w1 ?a h"
    using read_arguments_takes [OF assms(1-4)] by blast
  obtain w2 where 2: "call args w1 = Some (Inr r, w2)" "conn w2 ?a h'"
    using assms(5) 1(2) by (auto simp: handles_def)
  obtain w3 where 3: "writeMessageBegin oprt name T_REPLY seqid w2 = Some (Inr (sz (Tk_Message name T_REPLY seqid)), w3)"
      "conn w3 (?a\<lparr>w_out := w_out ?a @ [Tk_Message name T_REPLY seqid]\<rparr>) h'" (is "conn w3 ?a3 h'")
    using givesD [OF gives_mono [OF out_message le0] 2(2) d] by blast
  obtain w4 where 4: "wr r w3 = Some (Inr k, w4)" "conn w4 (?a3\<lparr>w_out := w_out ?a3 @ value_tokens u\<rparr>) h'"
      (is "conn w4 ?a4 h'")
    using givesD [OF assms(6) 3(2)] d by auto
  obtain w5 where 5: "writeMessageEnd oprt w4 = Some (Inr (sz Tk_MessageEnd), w5)"
      "conn w5 (?a4\<lparr>w_out := w_out ?a4 @ [Tk_MessageEnd]\<rparr>) h'" (is "conn w5 ?a5 h'")
    using givesD [OF gives_mono [OF out_messageEnd le0] 4(2)] d by auto
  obtain b w6 where 6: "transport_writeEnd oprt w5 = Some (Inr b, w6)" "conn w6 ?a5 h'"
    using out_writeEnd [OF 5(2)] by blast
  obtain w7 where 7: "transport_flush oprt w6 = Some (Inr (), w7)" "conn w7 ?a5 h'"
    using out_flush [OF 6(2)] by blast
  have "process_call pr ip oprt name full seqid cc rd call wr w = Some (Inr (), w7)"
    by (simp add: process_call_def ibind_Inr ithen_Inr 1(1) iattempt_Inr 2(1) 3(1) 4(1) 5(1) 6(1) 7(1))
  with 7(2) show ?thesis by (simp add: message_def)
qed

text \<open>A call whose handler throws a \<open>std::exception\<close> is answered with its \<open>what()\<close>.\<close>

lemma process_call_exception:
  assumes "takes conn 3 rd (value_tokens v) (args, n)" and "conn w a h" and "unnested a"
    and "w_in a = value_tokens v @ Tk_MessageEnd # rest"
    and "handles conn (call args) h (Inl e) h'" and "is_exception e" and "length (pr_what pr e) < 2 ^ 31"
  shows "\<exists>w'. process_call pr ip oprt name full seqid cc rd call wr w = Some (Inr (), w') \<and>
    conn w' (a\<lparr>w_in := rest, w_out := w_out a @ exception_message name seqid UNKNOWN (pr_what pr e)\<rparr>) h'"
proof -
  let ?a = "a\<lparr>w_in := rest\<rparr>"
  obtain w1 where 1: "read_arguments pr ip full 0 rd w = Some (Inr args, w1)" "conn w1 ?a h"
    using read_arguments_takes [OF assms(1-4)] by blast
  obtain w2 where 2: "call args w1 = Some (Inl e, w2)" "conn w2 ?a h'"
    using assms(5) 1(2) by (auto simp: handles_def)
  obtain w3 where "send_message oprt name T_EXCEPTION seqid (write_exception oprt UNKNOWN (pr_what pr e)) w2
      = Some (Inr (), w3)"
      "conn w3 (?a\<lparr>w_out := w_out ?a @ exception_message name seqid UNKNOWN (pr_what pr e)\<rparr>) h'"
    using givesD [OF send_exception_gives [OF assms(7)] 2(2), of name seqid UNKNOWN] assms(3)
    by (auto simp: unnested_def recursion_limit_def)
  with 1(1) 2(1) show ?thesis
    using assms(6) by (simp add: process_call_def ibind_Inr ithen_Inr iattempt_Inl)
qed

text \<open>A oneway call writes nothing, whether its handler returns or throws.\<close>

lemma process_oneway_silent:
  assumes "takes conn 3 rd (value_tokens v) (args, n)" and "conn w a h" and "unnested a"
    and "w_in a = value_tokens v @ Tk_MessageEnd # rest"
    and "handles conn (call args) h r h'" and "\<And>e. r = Inl e \<Longrightarrow> is_exception e"
  shows "\<exists>w'. process_oneway pr ip full cc rd call w = Some (Inr (), w') \<and> conn w' (a\<lparr>w_in := rest\<rparr>) h'"
proof -
  obtain w1 where 1: "read_arguments pr ip full 0 rd w = Some (Inr args, w1)" "conn w1 (a\<lparr>w_in := rest\<rparr>) h"
    using read_arguments_takes [OF assms(1-4)] by blast
  obtain w2 where "call args w1 = Some (r, w2)" "conn w2 (a\<lparr>w_in := rest\<rparr>) h'"
    using assms(5) 1(2) by (auto simp: handles_def)
  with 1(1) show ?thesis
    using assms(6) by (cases r) (auto simp: process_oneway_def ibind_Inr iattempt_Inr iattempt_Inl)
qed

text \<open>A call of an unknown method is skipped and answered with \<open>UNKNOWN_METHOD\<close>.\<close>

lemma dispatch_unknown:
  assumes "pm name = None" and "conn w a h" and "unnested a"
    and "w_in a = value_tokens v @ Tk_MessageEnd # rest"
    and "value_ok v" and "value_type v = T_STRUCT" and "value_depth v \<le> 8" and "length name < 2 ^ 30"
  shows "\<exists>w'. dispatch_on pm ip oprt name seqid cc w = Some (Inr True, w') \<and>
    conn w' (a\<lparr>w_in := rest, w_out := w_out a @ exception_message name seqid UNKNOWN_METHOD
      (''Invalid method name: '' @ CHR 0x27 # name @ [CHR 0x27])\<rparr>) h"
proof -
  let ?msg = "''Invalid method name: '' @ CHR 0x27 # name @ [CHR 0x27]"
  have d: "w_in_depth a + 8 \<le> recursion_limit" "w_out_depth a + 2 \<le> recursion_limit"
    using assms(3) by (simp_all add: unnested_def recursion_limit_def)
  obtain w1 where 1: "skip ip T_STRUCT w = Some (Inr (size_of (value_tokens v)), w1)"
      "conn w1 (a\<lparr>w_in := Tk_MessageEnd # rest\<rparr>) h"
    using takesD [OF takes_mono [OF in_skip [OF assms(5)] assms(7)] assms(2,4) d(1)] assms(6) by auto
  obtain w2 where 2: "end_reply ip w1 = Some (Inr (), w2)" "conn w2 (a\<lparr>w_in := rest\<rparr>) h"
    using takesD [OF end_reply_takes 1(2), of rest 0] d(1) by auto
  have "length ?msg < 2 ^ 31" using assms(8) by simp
  from givesD [OF send_exception_gives [OF this] 2(2), of name seqid UNKNOWN_METHOD] d(2)
  obtain w3 where "send_message oprt name T_EXCEPTION seqid (write_exception oprt UNKNOWN_METHOD ?msg) w2
      = Some (Inr (), w3)"
      "conn w3 (a\<lparr>w_in := rest\<rparr>\<lparr>w_out := w_out a @ exception_message name seqid UNKNOWN_METHOD ?msg\<rparr>) h"
    by auto
  with 1(1) 2(1) assms(1) show ?thesis
    by (simp add: dispatch_on_def ithen_Inr iret_apply)
qed

end

section \<open>The methods of the service\<close>

lemma process_map_simps [simp]:
  "process_map pr ''get_client_id'' = Some (process_get_client_id pr)"
  "process_map pr ''register_client_id'' = Some (process_register_client_id pr)"
  "process_map pr ''async_get'' = Some (process_async_get pr)"
  "process_map pr ''async_put'' = Some (process_async_put pr)"
  "process_map pr ''async_get_batch'' = Some (process_async_get_batch pr)"
  "process_map pr ''async_put_batch'' = Some (process_async_put_batch pr)"
  "process_map pr ''get'' = Some (process_get pr)"
  "process_map pr ''put'' = Some (process_put pr)"
  "process_map pr ''get_batch'' = Some (process_get_batch pr)"
  "process_map pr ''put_batch'' = Some (process_put_batch pr)"
  by (simp_all add: process_map_def)

text \<open>
  \<open>answers\<close>: dispatching the call \<open>name\<close> with the arguments \<open>v\<close> consumes the call and
  appends \<open>reply\<close> to the output.
\<close>

context thrift_server begin

definition answers :: "string \<Rightarrow> 32 word \<Rightarrow> nat \<Rightarrow> tvalue \<Rightarrow> 'h \<Rightarrow> token list \<Rightarrow> 'h \<Rightarrow> bool" where
  "answers name seqid cc v h reply h' \<longleftrightarrow>
     (\<forall>w a rest. conn w a h \<longrightarrow> unnested a \<longrightarrow> w_in a = value_tokens v @ Tk_MessageEnd # rest \<longrightarrow>
        (\<exists>w'. dispatchCall pr ip oprt name seqid cc w = Some (Inr True, w') \<and>
          conn w' (a\<lparr>w_in := rest, w_out := w_out a @ reply\<rparr>) h'))"

lemma answers_call:
  assumes "process_map pr name = Some (\<lambda>seqid iprot oprot cc.
      process_call pr iprot oprot name full seqid cc (rd iprot) call (wr oprot))"
    and "takes conn 3 (rd ip) (value_tokens v) (args, n)" and "handles conn (call args) h r h'"
    and "case r of Inr x \<Rightarrow> gives conn 3 (wr oprt x) (value_tokens u) k \<and> reply = message name T_REPLY seqid u
      | Inl e \<Rightarrow> is_exception e \<and> length (pr_what pr e) < 2 ^ 31 \<and>
          reply = exception_message name seqid UNKNOWN (pr_what pr e)"
  shows "answers name seqid cc v h reply h'"
  unfolding answers_def
proof (intro allI impI)
  fix w a rest
  assume c: "conn w a h" "unnested a" "w_in a = value_tokens v @ Tk_MessageEnd # rest"
  have "\<exists>w'. process_call pr ip oprt name full seqid cc (rd ip) call (wr oprt) w = Some (Inr (), w') \<and>
      conn w' (a\<lparr>w_in := rest, w_out := w_out a @ reply\<rparr>) h'"
  proof (cases r)
    case (Inl e)
    with assms(3,4) show ?thesis
      using process_call_exception [OF assms(2) c, where e = e and call = call and h' = h'] by simp
  next
    case (Inr x)
    with assms(3,4) show ?thesis
      using process_call_reply [OF assms(2) c, where r = x and call = call and h' = h' and u = u and k = k] by simp
  qed
  then show "\<exists>w'. dispatchCall pr ip oprt name seqid cc w = Some (Inr True, w') \<and>
      conn w' (a\<lparr>w_in := rest, w_out := w_out a @ reply\<rparr>) h'"
    by (auto simp: dispatchCall_def dispatch_on_def assms(1) ithen_Inr iret_apply)
qed

lemma answers_oneway:
  assumes "process_map pr name = Some (\<lambda>seqid iprot oprot cc. process_oneway pr iprot full cc (rd iprot) call)"
    and "takes conn 3 (rd ip) (value_tokens v) (args, n)" and "handles conn (call args) h r h'"
    and "\<And>e. r = Inl e \<Longrightarrow> is_exception e"
  shows "answers name seqid cc v h [] h'"
  unfolding answers_def
proof (intro allI impI)
  fix w a rest
  assume c: "conn w a h" "unnested a" "w_in a = value_tokens v @ Tk_MessageEnd # rest"
  obtain w' where "process_oneway pr ip full cc (rd ip) call w = Some (Inr (), w')" "conn w' (a\<lparr>w_in := rest\<rparr>) h'"
    using process_oneway_silent [OF assms(2) c, where call = call and r = r and h' = h'] assms(3,4) by blast
  then show "\<exists>w'. dispatchCall pr ip oprt name seqid cc w = Some (Inr True, w') \<and>
      conn w' (a\<lparr>w_in := rest, w_out := w_out a @ []\<rparr>) h'"
    by (auto simp: dispatchCall_def dispatch_on_def assms(1) ithen_Inr iret_apply)
qed

end

lemma seq_args_complete:
  "(1, V_Struct fs') \<in> set ((1 :: 16 word, seq_value s) # rest) \<Longrightarrow> 1 \<notin> fst ` set rest \<Longrightarrow> seq_complete fs'"
  using seq_value_reads [of sequence_id_new s] by (auto simp: seq_complete_def seq_value_def image_iff)

context thrift_input begin

lemma get_client_id_args_takes:
  "takes conn 3 (get_client_id_args_read P) (value_tokens (V_Struct [])) ((), size_of (value_tokens (V_Struct [])))"
  by (rule takes_mono [OF get_client_id_args_read_takes [of 2 "[]"]]) simp_all

lemma register_client_id_args_takes:
  "takes conn 3 (register_client_id_args_read P x0) (value_tokens (V_Struct [(1, V_I32 b), (2, V_I64 c)]))
     (\<lparr>rc_block_id = b, rc_client_id = c, rc_isset_block_id = True, rc_isset_client_id = True\<rparr>,
      size_of (value_tokens (V_Struct [(1, V_I32 b), (2, V_I64 c)])))"
  by (rule takes_mono [OF register_client_id_args_read_takes [of 2 "[(1, V_I32 b), (2, V_I64 c)]" x0, unfolded register_client_id_args_reads]])
    (simp_all)

lemma async_get_args_takes:
  "value_ok (V_String k) \<Longrightarrow> takes conn 3 (async_get_args_read P x0) (value_tokens (V_Struct [(1, seq_value s), (2, V_String k)]))
     (\<lparr>ag_seq_id = s, ag_key = k, ag_isset_seq_id = True, ag_isset_key = True\<rparr>,
      size_of (value_tokens (V_Struct [(1, seq_value s), (2, V_String k)])))"
  by (rule takes_mono [OF async_get_args_read_takes [of 2 "[(1, seq_value s), (2, V_String k)]" x0, unfolded async_get_args_reads]])
    (simp, erule seq_args_complete, simp_all)

lemma async_put_args_takes:
  "value_ok (V_String k) \<Longrightarrow> value_ok (V_String x) \<Longrightarrow> takes conn 3 (async_put_args_read P x0) (value_tokens (V_Struct [(1, seq_value s), (2, V_String k), (3, V_String x)]))
     (\<lparr>ap_seq_id = s, ap_key = k, ap_value = x, ap_isset_seq_id = True, ap_isset_key = True, ap_isset_value = True\<rparr>,
      size_of (value_tokens (V_Struct [(1, seq_value s), (2, V_String k), (3, V_String x)])))"
  by (rule takes_mono [OF async_put_args_read_takes [of 2 "[(1, seq_value s), (2, V_String k), (3, V_String x)]" x0, unfolded async_put_args_reads]])
    (simp, erule seq_args_complete, simp_all)

lemma async_get_batch_args_takes:
  "value_ok (V_List ks) \<Longrightarrow> takes conn 3 (async_get_batch_args_read P x0) (value_tokens (V_Struct [(1, seq_value s), (2, V_List ks)]))
     (\<lparr>agb_seq_id = s, agb_keys = ks, agb_isset_seq_id = True, agb_isset_keys = True\<rparr>,
      size_of (value_tokens (V_Struct [(1, seq_value s), (2, V_List ks)])))"
  by (rule takes_mono [OF async_get_batch_args_read_takes [of 2 "[(1, seq_value s), (2, V_List ks)]" x0, unfolded async_get_batch_args_reads]])
    (simp, erule seq_args_complete, simp_all)

lemma async_put_batch_args_takes:
  "value_ok (V_List ks) \<Longrightarrow> value_ok (V_List xs) \<Longrightarrow> takes conn 3 (async_put_batch_args_read P x0) (value_tokens (V_Struct [(1, seq_value s), (2, V_List ks), (3, V_List xs)]))
     (\<lparr>apb_seq_id = s, apb_keys = ks, apb_values = xs, apb_isset_seq_id = True, apb_isset_keys = True, apb_isset_values = True\<rparr>,
      size_of (value_tokens (V_Struct [(1, seq_value s), (2, V_List ks), (3, V_List xs)])))"
  by (rule takes_mono [OF async_put_batch_args_read_takes [of 2 "[(1, seq_value s), (2, V_List ks), (3, V_List xs)]" x0, unfolded async_put_batch_args_reads]])
    (simp, erule seq_args_complete, simp_all)

lemma get_args_takes:
  "value_ok (V_String k) \<Longrightarrow> takes conn 3 (get_args_read P x0) (value_tokens (V_Struct [(1, V_String k)]))
     (\<lparr>g_key = k, g_isset_key = True\<rparr>,
      size_of (value_tokens (V_Struct [(1, V_String k)])))"
  by (rule takes_mono [OF get_args_read_takes [of 2 "[(1, V_String k)]" x0, unfolded get_args_reads]])
    (simp_all)

lemma put_args_takes:
  "value_ok (V_String k) \<Longrightarrow> value_ok (V_String x) \<Longrightarrow> takes conn 3 (put_args_read P x0) (value_tokens (V_Struct [(1, V_String k), (2, V_String x)]))
     (\<lparr>p_key = k, p_value = x, p_isset_key = True, p_isset_value = True\<rparr>,
      size_of (value_tokens (V_Struct [(1, V_String k), (2, V_String x)])))"
  by (rule takes_mono [OF put_args_read_takes [of 2 "[(1, V_String k), (2, V_String x)]" x0, unfolded put_args_reads]])
    (simp_all)

lemma get_batch_args_takes:
  "value_ok (V_List ks) \<Longrightarrow> takes conn 3 (get_batch_args_read P x0) (value_tokens (V_Struct [(1, V_List ks)]))
     (\<lparr>gb_keys = ks, gb_isset_keys = True\<rparr>,
      size_of (value_tokens (V_Struct [(1, V_List ks)])))"
  by (rule takes_mono [OF get_batch_args_read_takes [of 2 "[(1, V_List ks)]" x0, unfolded get_batch_args_reads]])
    (simp_all)

lemma put_batch_args_takes:
  "value_ok (V_List ks) \<Longrightarrow> value_ok (V_List xs) \<Longrightarrow> takes conn 3 (put_batch_args_read P x0) (value_tokens (V_Struct [(1, V_List ks), (2, V_List xs)]))
     (\<lparr>pb_keys = ks, pb_values = xs, pb_isset_keys = True, pb_isset_values = True\<rparr>,
      size_of (value_tokens (V_Struct [(1, V_List ks), (2, V_List xs)])))"
  by (rule takes_mono [OF put_batch_args_read_takes [of 2 "[(1, V_List ks), (2, V_List xs)]" x0, unfolded put_batch_args_reads]])
    (simp_all)

end

context thrift_output begin

lemma result_gives:
  "gives conn 3 (get_client_id_result_write P \<lparr>gcr_success = c, gcr_isset_success = True\<rparr>)
     (value_tokens (V_Struct [(0, V_I64 c)])) (sum_list (map sz (value_tokens (V_Struct [(0, V_I64 c)]))))"
  "value_ok (V_String y) \<Longrightarrow> gives conn 3 (get_result_write P \<lparr>gr_success = y, gr_isset_success = True\<rparr>)
     (value_tokens (V_Struct [(0, V_String y)])) (sum_list (map sz (value_tokens (V_Struct [(0, V_String y)]))))"
  "value_ok (V_List ys) \<Longrightarrow> gives conn 3 (get_batch_result_write P \<lparr>gbr_success = ys, gbr_isset_success = True\<rparr>)
     (value_tokens (V_Struct [(0, V_List ys)])) (sum_list (map sz (value_tokens (V_Struct [(0, V_List ys)]))))"
  "gives conn 3 (register_client_id_result_write P) (value_tokens (V_Struct []))
     (sum_list (map sz (value_tokens (V_Struct []))))"
  "gives conn 3 (put_result_write P) (value_tokens (V_Struct []))
     (sum_list (map sz (value_tokens (V_Struct []))))"
  "gives conn 3 (put_batch_result_write P) (value_tokens (V_Struct []))
     (sum_list (map sz (value_tokens (V_Struct []))))"
  unfolding numeral_3_eq_3
  by (rule get_client_id_result_write_gives get_result_write_gives get_batch_result_write_gives
      register_client_id_result_write_gives put_result_write_gives put_batch_result_write_gives; assumption?)+

end

context thrift_server begin

lemma answers_get_client_id:
  "handles conn (if_get_client_id (pr_iface pr)) h (Inr c) h' \<Longrightarrow>
   answers ''get_client_id'' seqid cc (V_Struct []) h
     (message ''get_client_id'' T_REPLY seqid (V_Struct [(0, V_I64 c)])) h'"
  by (rule answers_call [where rd = "\<lambda>ip. get_client_id_args_read ip" and wr = "\<lambda>op r. get_client_id_result_write op \<lparr>gcr_success = r, gcr_isset_success = True\<rparr>"
      and call = "\<lambda>args. if_get_client_id (pr_iface pr)" and args = "()"
      and n = "size_of (value_tokens (V_Struct []))" and u = "V_Struct [(0, V_I64 c)]" and k = "size_of (value_tokens (V_Struct [(0, V_I64 c)]))" and r = "Inr c"])
    (simp_all add: process_get_client_id_def [abs_def] get_client_id_args_takes result_gives del: value_tokens.simps)

lemma fails_get_client_id:
  "is_exception e \<Longrightarrow> length (pr_what pr e) < 2 ^ 31 \<Longrightarrow> handles conn (if_get_client_id (pr_iface pr)) h (Inl e) h' \<Longrightarrow>
   answers ''get_client_id'' seqid cc (V_Struct []) h
     (exception_message ''get_client_id'' seqid UNKNOWN (pr_what pr e)) h'"
  by (rule answers_call [where rd = "\<lambda>ip. get_client_id_args_read ip" and wr = "\<lambda>op r. get_client_id_result_write op \<lparr>gcr_success = r, gcr_isset_success = True\<rparr>"
      and call = "\<lambda>args. if_get_client_id (pr_iface pr)" and args = "()"
      and n = "size_of (value_tokens (V_Struct []))" and u = "V_Struct [(0, V_I64 c)]" and k = "size_of (value_tokens (V_Struct [(0, V_I64 c)]))" and r = "Inl e"])
    (simp_all add: process_get_client_id_def [abs_def] get_client_id_args_takes del: value_tokens.simps)

lemma answers_register_client_id:
  "handles conn (if_register_client_id (pr_iface pr) b c) h (Inr ()) h' \<Longrightarrow>
   answers ''register_client_id'' seqid cc (V_Struct [(1, V_I32 b), (2, V_I64 c)]) h
     (message ''register_client_id'' T_REPLY seqid (V_Struct [])) h'"
  by (rule answers_call [where rd = "\<lambda>ip. register_client_id_args_read ip register_client_id_args_new" and wr = "\<lambda>op r. register_client_id_result_write op"
      and call = "\<lambda>args. if_register_client_id (pr_iface pr) (rc_block_id args) (rc_client_id args)" and args = "\<lparr>rc_block_id = b, rc_client_id = c, rc_isset_block_id = True, rc_isset_client_id = True\<rparr>"
      and n = "size_of (value_tokens (V_Struct [(1, V_I32 b), (2, V_I64 c)]))" and u = "V_Struct []" and k = "size_of (value_tokens (V_Struct []))" and r = "Inr ()"])
    (simp_all add: process_register_client_id_def [abs_def] register_client_id_args_takes result_gives del: value_tokens.simps)

lemma fails_register_client_id:
  "is_exception e \<Longrightarrow> length (pr_what pr e) < 2 ^ 31 \<Longrightarrow> handles conn (if_register_client_id (pr_iface pr) b c) h (Inl e) h' \<Longrightarrow>
   answers ''register_client_id'' seqid cc (V_Struct [(1, V_I32 b), (2, V_I64 c)]) h
     (exception_message ''register_client_id'' seqid UNKNOWN (pr_what pr e)) h'"
  by (rule answers_call [where rd = "\<lambda>ip. register_client_id_args_read ip register_client_id_args_new" and wr = "\<lambda>op r. register_client_id_result_write op"
      and call = "\<lambda>args. if_register_client_id (pr_iface pr) (rc_block_id args) (rc_client_id args)" and args = "\<lparr>rc_block_id = b, rc_client_id = c, rc_isset_block_id = True, rc_isset_client_id = True\<rparr>"
      and n = "size_of (value_tokens (V_Struct [(1, V_I32 b), (2, V_I64 c)]))" and u = "V_Struct []" and k = "size_of (value_tokens (V_Struct []))" and r = "Inl e"])
    (simp_all add: process_register_client_id_def [abs_def] register_client_id_args_takes del: value_tokens.simps)

lemma answers_async_get:
  "value_ok (V_String k) \<Longrightarrow> handles conn (if_async_get (pr_iface pr) s k) h r h' \<Longrightarrow> (\<And>e. r = Inl e \<Longrightarrow> is_exception e) \<Longrightarrow>
   answers ''async_get'' seqid cc (V_Struct [(1, seq_value s), (2, V_String k)]) h [] h'"
  by (rule answers_oneway [where rd = "\<lambda>ip. async_get_args_read ip async_get_args_new"
      and call = "\<lambda>args. if_async_get (pr_iface pr) (ag_seq_id args) (ag_key args)"
      and args = "\<lparr>ag_seq_id = s, ag_key = k, ag_isset_seq_id = True, ag_isset_key = True\<rparr>"
      and n = "size_of (value_tokens (V_Struct [(1, seq_value s), (2, V_String k)]))"])
    (simp_all add: process_async_get_def [abs_def] async_get_args_takes del: value_tokens.simps)

lemma answers_async_put:
  "value_ok (V_String k) \<Longrightarrow> value_ok (V_String x) \<Longrightarrow> handles conn (if_async_put (pr_iface pr) s k x) h r h' \<Longrightarrow> (\<And>e. r = Inl e \<Longrightarrow> is_exception e) \<Longrightarrow>
   answers ''async_put'' seqid cc (V_Struct [(1, seq_value s), (2, V_String k), (3, V_String x)]) h [] h'"
  by (rule answers_oneway [where rd = "\<lambda>ip. async_put_args_read ip async_put_args_new"
      and call = "\<lambda>args. if_async_put (pr_iface pr) (ap_seq_id args) (ap_key args) (ap_value args)"
      and args = "\<lparr>ap_seq_id = s, ap_key = k, ap_value = x, ap_isset_seq_id = True, ap_isset_key = True, ap_isset_value = True\<rparr>"
      and n = "size_of (value_tokens (V_Struct [(1, seq_value s), (2, V_String k), (3, V_String x)]))"])
    (simp_all add: process_async_put_def [abs_def] async_put_args_takes del: value_tokens.simps)

lemma answers_async_get_batch:
  "value_ok (V_List ks) \<Longrightarrow> handles conn (if_async_get_batch (pr_iface pr) s ks) h r h' \<Longrightarrow> (\<And>e. r = Inl e \<Longrightarrow> is_exception e) \<Longrightarrow>
   answers ''async_get_batch'' seqid cc (V_Struct [(1, seq_value s), (2, V_List ks)]) h [] h'"
  by (rule answers_oneway [where rd = "\<lambda>ip. async_get_batch_args_read ip async_get_batch_args_new"
      and call = "\<lambda>args. if_async_get_batch (pr_iface pr) (agb_seq_id args) (agb_keys args)"
      and args = "\<lparr>agb_seq_id = s, agb_keys = ks, agb_isset_seq_id = True, agb_isset_keys = True\<rparr>"
      and n = "size_of (value_tokens (V_Struct [(1, seq_value s), (2, V_List ks)]))"])
    (simp_all add: process_async_get_batch_def [abs_def] async_get_batch_args_takes del: value_tokens.simps)

lemma answers_async_put_batch:
  "value_ok (V_List ks) \<Longrightarrow> value_ok (V_List xs) \<Longrightarrow> handles conn (if_async_put_batch (pr_iface pr) s ks xs) h r h' \<Longrightarrow> (\<And>e. r = Inl e \<Longrightarrow> is_exception e) \<Longrightarrow>
   answers ''async_put_batch'' seqid cc (V_Struct [(1, seq_value s), (2, V_List ks), (3, V_List xs)]) h [] h'"
  by (rule answers_oneway [where rd = "\<lambda>ip. async_put_batch_args_read ip async_put_batch_args_new"
      and call = "\<lambda>args. if_async_put_batch (pr_iface pr) (apb_seq_id args) (apb_keys args) (apb_values args)"
      and args = "\<lparr>apb_seq_id = s, apb_keys = ks, apb_values = xs, apb_isset_seq_id = True, apb_isset_keys = True, apb_isset_values = True\<rparr>"
      and n = "size_of (value_tokens (V_Struct [(1, seq_value s), (2, V_List ks), (3, V_List xs)]))"])
    (simp_all add: process_async_put_batch_def [abs_def] async_put_batch_args_takes del: value_tokens.simps)

lemma answers_get:
  "value_ok (V_String k) \<Longrightarrow> value_ok (V_String y) \<Longrightarrow> handles conn (if_get (pr_iface pr) k) h (Inr y) h' \<Longrightarrow>
   answers ''get'' seqid cc (V_Struct [(1, V_String k)]) h
     (message ''get'' T_REPLY seqid (V_Struct [(0, V_String y)])) h'"
  by (rule answers_call [where rd = "\<lambda>ip. get_args_read ip get_args_new" and wr = "\<lambda>op r. get_result_write op \<lparr>gr_success = r, gr_isset_success = True\<rparr>"
      and call = "\<lambda>args. if_get (pr_iface pr) (g_key args)" and args = "\<lparr>g_key = k, g_isset_key = True\<rparr>"
      and n = "size_of (value_tokens (V_Struct [(1, V_String k)]))" and u = "V_Struct [(0, V_String y)]" and k = "size_of (value_tokens (V_Struct [(0, V_String y)]))" and r = "Inr y"])
    (simp_all add: process_get_def [abs_def] get_args_takes result_gives del: value_tokens.simps)

lemma fails_get:
  "value_ok (V_String k) \<Longrightarrow> is_exception e \<Longrightarrow> length (pr_what pr e) < 2 ^ 31 \<Longrightarrow> handles conn (if_get (pr_iface pr) k) h (Inl e) h' \<Longrightarrow>
   answers ''get'' seqid cc (V_Struct [(1, V_String k)]) h
     (exception_message ''get'' seqid UNKNOWN (pr_what pr e)) h'"
  by (rule answers_call [where rd = "\<lambda>ip. get_args_read ip get_args_new" and wr = "\<lambda>op r. get_result_write op \<lparr>gr_success = r, gr_isset_success = True\<rparr>"
      and call = "\<lambda>args. if_get (pr_iface pr) (g_key args)" and args = "\<lparr>g_key = k, g_isset_key = True\<rparr>"
      and n = "size_of (value_tokens (V_Struct [(1, V_String k)]))" and u = "V_Struct [(0, V_String y)]" and k = "size_of (value_tokens (V_Struct [(0, V_String y)]))" and r = "Inl e"])
    (simp_all add: process_get_def [abs_def] get_args_takes del: value_tokens.simps)

lemma answers_put:
  "value_ok (V_String k) \<Longrightarrow> value_ok (V_String x) \<Longrightarrow> handles conn (if_put (pr_iface pr) k x) h (Inr ()) h' \<Longrightarrow>
   answers ''put'' seqid cc (V_Struct [(1, V_String k), (2, V_String x)]) h
     (message ''put'' T_REPLY seqid (V_Struct [])) h'"
  by (rule answers_call [where rd = "\<lambda>ip. put_args_read ip put_args_new" and wr = "\<lambda>op r. put_result_write op"
      and call = "\<lambda>args. if_put (pr_iface pr) (p_key args) (p_value args)" and args = "\<lparr>p_key = k, p_value = x, p_isset_key = True, p_isset_value = True\<rparr>"
      and n = "size_of (value_tokens (V_Struct [(1, V_String k), (2, V_String x)]))" and u = "V_Struct []" and k = "size_of (value_tokens (V_Struct []))" and r = "Inr ()"])
    (simp_all add: process_put_def [abs_def] put_args_takes result_gives del: value_tokens.simps)

lemma fails_put:
  "value_ok (V_String k) \<Longrightarrow> value_ok (V_String x) \<Longrightarrow> is_exception e \<Longrightarrow> length (pr_what pr e) < 2 ^ 31 \<Longrightarrow> handles conn (if_put (pr_iface pr) k x) h (Inl e) h' \<Longrightarrow>
   answers ''put'' seqid cc (V_Struct [(1, V_String k), (2, V_String x)]) h
     (exception_message ''put'' seqid UNKNOWN (pr_what pr e)) h'"
  by (rule answers_call [where rd = "\<lambda>ip. put_args_read ip put_args_new" and wr = "\<lambda>op r. put_result_write op"
      and call = "\<lambda>args. if_put (pr_iface pr) (p_key args) (p_value args)" and args = "\<lparr>p_key = k, p_value = x, p_isset_key = True, p_isset_value = True\<rparr>"
      and n = "size_of (value_tokens (V_Struct [(1, V_String k), (2, V_String x)]))" and u = "V_Struct []" and k = "size_of (value_tokens (V_Struct []))" and r = "Inl e"])
    (simp_all add: process_put_def [abs_def] put_args_takes del: value_tokens.simps)

lemma answers_get_batch:
  "value_ok (V_List ks) \<Longrightarrow> value_ok (V_List ys) \<Longrightarrow> handles conn (if_get_batch (pr_iface pr) ks) h (Inr ys) h' \<Longrightarrow>
   answers ''get_batch'' seqid cc (V_Struct [(1, V_List ks)]) h
     (message ''get_batch'' T_REPLY seqid (V_Struct [(0, V_List ys)])) h'"
  by (rule answers_call [where rd = "\<lambda>ip. get_batch_args_read ip get_batch_args_new" and wr = "\<lambda>op r. get_batch_result_write op \<lparr>gbr_success = r, gbr_isset_success = True\<rparr>"
      and call = "\<lambda>args. if_get_batch (pr_iface pr) (gb_keys args)" and args = "\<lparr>gb_keys = ks, gb_isset_keys = True\<rparr>"
      and n = "size_of (value_tokens (V_Struct [(1, V_List ks)]))" and u = "V_Struct [(0, V_List ys)]" and k = "size_of (value_tokens (V_Struct [(0, V_List ys)]))" and r = "Inr ys"])
    (simp_all add: process_get_batch_def [abs_def] get_batch_args_takes result_gives del: value_tokens.simps)

lemma fails_get_batch:
  "value_ok (V_List ks) \<Longrightarrow> is_exception e \<Longrightarrow> length (pr_what pr e) < 2 ^ 31 \<Longrightarrow> handles conn (if_get_batch (pr_iface pr) ks) h (Inl e) h' \<Longrightarrow>
   answers ''get_batch'' seqid cc (V_Struct [(1, V_List ks)]) h
     (exception_message ''get_batch'' seqid UNKNOWN (pr_what pr e)) h'"
  by (rule answers_call [where rd = "\<lambda>ip. get_batch_args_read ip get_batch_args_new" and wr = "\<lambda>op r. get_batch_result_write op \<lparr>gbr_success = r, gbr_isset_success = True\<rparr>"
      and call = "\<lambda>args. if_get_batch (pr_iface pr) (gb_keys args)" and args = "\<lparr>gb_keys = ks, gb_isset_keys = True\<rparr>"
      and n = "size_of (value_tokens (V_Struct [(1, V_List ks)]))" and u = "V_Struct [(0, V_List ys)]" and k = "size_of (value_tokens (V_Struct [(0, V_List ys)]))" and r = "Inl e"])
    (simp_all add: process_get_batch_def [abs_def] get_batch_args_takes del: value_tokens.simps)

lemma answers_put_batch:
  "value_ok (V_List ks) \<Longrightarrow> value_ok (V_List xs) \<Longrightarrow> handles conn (if_put_batch (pr_iface pr) ks xs) h (Inr ()) h' \<Longrightarrow>
   answers ''put_batch'' seqid cc (V_Struct [(1, V_List ks), (2, V_List xs)]) h
     (message ''put_batch'' T_REPLY seqid (V_Struct [])) h'"
  by (rule answers_call [where rd = "\<lambda>ip. put_batch_args_read ip put_batch_args_new" and wr = "\<lambda>op r. put_batch_result_write op"
      and call = "\<lambda>args. if_put_batch (pr_iface pr) (pb_keys args) (pb_values args)" and args = "\<lparr>pb_keys = ks, pb_values = xs, pb_isset_keys = True, pb_isset_values = True\<rparr>"
      and n = "size_of (value_tokens (V_Struct [(1, V_List ks), (2, V_List xs)]))" and u = "V_Struct []" and k = "size_of (value_tokens (V_Struct []))" and r = "Inr ()"])
    (simp_all add: process_put_batch_def [abs_def] put_batch_args_takes result_gives del: value_tokens.simps)

lemma fails_put_batch:
  "value_ok (V_List ks) \<Longrightarrow> value_ok (V_List xs) \<Longrightarrow> is_exception e \<Longrightarrow> length (pr_what pr e) < 2 ^ 31 \<Longrightarrow> handles conn (if_put_batch (pr_iface pr) ks xs) h (Inl e) h' \<Longrightarrow>
   answers ''put_batch'' seqid cc (V_Struct [(1, V_List ks), (2, V_List xs)]) h
     (exception_message ''put_batch'' seqid UNKNOWN (pr_what pr e)) h'"
  by (rule answers_call [where rd = "\<lambda>ip. put_batch_args_read ip put_batch_args_new" and wr = "\<lambda>op r. put_batch_result_write op"
      and call = "\<lambda>args. if_put_batch (pr_iface pr) (pb_keys args) (pb_values args)" and args = "\<lparr>pb_keys = ks, pb_values = xs, pb_isset_keys = True, pb_isset_values = True\<rparr>"
      and n = "size_of (value_tokens (V_Struct [(1, V_List ks), (2, V_List xs)]))" and u = "V_Struct []" and k = "size_of (value_tokens (V_Struct []))" and r = "Inl e"])
    (simp_all add: process_put_batch_def [abs_def] put_batch_args_takes del: value_tokens.simps)

end

end
