(* ===== verification/Token_Protocol.thy ===== *)
theory Token_Protocol
  imports Thrift_Service
begin

text \<open>
  A protocol that satisfies the contract of \<open>Thrift_Protocol\<close>: the connection holds the
  tokens themselves, with the sizes Thrift's binary protocol gives them, next to the rest
  \<open>'h\<close> of the world. It instantiates the locales, so that the theorems about the generated
  code can be run.
\<close>

fun token_size :: "token \<Rightarrow> nat" where
  "token_size (Tk_Message name _ _) = 12 + length name"
| "token_size (Tk_Field _ _) = 3"
| "token_size Tk_Stop = 1"
| "token_size (Tk_I32 _) = 4"
| "token_size (Tk_I64 _) = 8"
| "token_size (Tk_String s) = 4 + length s"
| "token_size (Tk_ListBegin _ _) = 5"
| "token_size (Tk_Exception _ s) = 15 + length s"
| "token_size _ = 0"

definition tk_size :: "token \<Rightarrow> 32 word" where
  "tk_size t = of_nat (token_size t)"

type_synonym 'h wired = "wire \<times> 'h"

definition next_token :: "(token \<Rightarrow> 'a option) \<Rightarrow> ('h wired, 'a) io" where
  "next_token f = (\<lambda>(a, h).
     case w_in a of
       [] \<Rightarrow> Some (Inl (Transport_exception ''No more data to read.''), (a, h))
     | t # ts \<Rightarrow>
         (case f t of
            None \<Rightarrow> Some (Inl (Protocol_exception INVALID_DATA), (a, h))
          | Some x \<Rightarrow> Some (Inr x, (a\<lparr>w_in := ts\<rparr>, h))))"

definition put_token :: "token \<Rightarrow> ('h wired, 32 word) io" where
  "put_token t = (\<lambda>(a, h). Some (Inr (tk_size t), (a\<lparr>w_out := w_out a @ [t]\<rparr>, h)))"

definition exactly :: "token \<Rightarrow> ('h wired, 32 word) io" where
  "exactly t = next_token (\<lambda>t'. if t' = t then Some (tk_size t) else None)"

fun drop_nested :: "nat \<Rightarrow> token list \<Rightarrow> token list option" where
  "drop_nested 0 ts = Some ts"
| "drop_nested (Suc n) [] = None"
| "drop_nested (Suc n) (t # ts) =
     (case t of
        Tk_StructBegin \<Rightarrow> drop_nested (Suc (Suc n)) ts
      | Tk_ListBegin _ _ \<Rightarrow> drop_nested (Suc (Suc n)) ts
      | Tk_StructEnd \<Rightarrow> drop_nested n ts
      | Tk_ListEnd \<Rightarrow> drop_nested n ts
      | _ \<Rightarrow> drop_nested (Suc n) ts)"

fun drop_value :: "token list \<Rightarrow> token list option" where
  "drop_value [] = None"
| "drop_value (Tk_StructBegin # ts) = drop_nested 1 ts"
| "drop_value (Tk_ListBegin _ _ # ts) = drop_nested 1 ts"
| "drop_value (_ # ts) = Some ts"

definition token_skip :: "ttype \<Rightarrow> ('h wired, 32 word) io" where
  "token_skip ty = (\<lambda>(a, h).
     case drop_value (w_in a) of
       None \<Rightarrow> Some (Inl (Transport_exception ''No more data to read.''), (a, h))
     | Some rest \<Rightarrow>
         Some (Inr (sum_list (map tk_size (take (length (w_in a) - length rest) (w_in a)))),
               (a\<lparr>w_in := rest\<rparr>, h)))"

definition token_proto :: "'h wired tproto" where
  "token_proto =
     \<lparr>readMessageBegin = next_token (\<lambda>t. case t of Tk_Message n m s \<Rightarrow> Some (n, m, s) | _ \<Rightarrow> None),
      readMessageEnd = exactly Tk_MessageEnd,
      readStructBegin = exactly Tk_StructBegin,
      readStructEnd = exactly Tk_StructEnd,
      readFieldBegin = next_token (\<lambda>t. case t of
          Tk_Field ty fid \<Rightarrow> Some ((ty, fid), tk_size t) | Tk_Stop \<Rightarrow> Some ((T_STOP, 0), tk_size t) | _ \<Rightarrow> None),
      readFieldEnd = exactly Tk_FieldEnd,
      readI32 = next_token (\<lambda>t. case t of Tk_I32 i \<Rightarrow> Some (i, tk_size t) | _ \<Rightarrow> None),
      readI64 = next_token (\<lambda>t. case t of Tk_I64 i \<Rightarrow> Some (i, tk_size t) | _ \<Rightarrow> None),
      readString = next_token (\<lambda>t. case t of Tk_String s \<Rightarrow> Some (s, tk_size t) | _ \<Rightarrow> None),
      readListBegin = next_token (\<lambda>t. case t of Tk_ListBegin ty n \<Rightarrow> Some ((ty, n), tk_size t) | _ \<Rightarrow> None),
      readListEnd = exactly Tk_ListEnd,
      skip = token_skip,
      enter_input = (\<lambda>(a, h). if w_in_depth a < recursion_limit
        then Some (Inr (), (a\<lparr>w_in_depth := Suc (w_in_depth a)\<rparr>, h))
        else Some (Inl (Protocol_exception (Other_protocol 6)), (a, h))),
      leave_input = (\<lambda>(a, h). (a\<lparr>w_in_depth := w_in_depth a - 1\<rparr>, h)),
      read_exception = next_token (\<lambda>t. case t of Tk_Exception e s \<Rightarrow> Some (e, s) | _ \<Rightarrow> None),
      transport_readEnd = iret 0,
      writeMessageBegin = (\<lambda>n m s. put_token (Tk_Message n m s)),
      writeMessageEnd = put_token Tk_MessageEnd,
      writeStructBegin = (\<lambda>_. put_token Tk_StructBegin),
      writeStructEnd = put_token Tk_StructEnd,
      writeFieldBegin = (\<lambda>_ ty fid. put_token (Tk_Field ty fid)),
      writeFieldEnd = put_token Tk_FieldEnd,
      writeFieldStop = put_token Tk_Stop,
      writeI32 = (\<lambda>i. put_token (Tk_I32 i)),
      writeI64 = (\<lambda>i. put_token (Tk_I64 i)),
      writeString = (\<lambda>s. put_token (Tk_String s)),
      writeListBegin = (\<lambda>ty n. put_token (Tk_ListBegin ty n)),
      writeListEnd = put_token Tk_ListEnd,
      enter_output = (\<lambda>(a, h). if w_out_depth a < recursion_limit
        then Some (Inr (), (a\<lparr>w_out_depth := Suc (w_out_depth a)\<rparr>, h))
        else Some (Inl (Protocol_exception (Other_protocol 6)), (a, h))),
      leave_output = (\<lambda>(a, h). (a\<lparr>w_out_depth := w_out_depth a - 1\<rparr>, h)),
      write_exception = (\<lambda>e s. put_token (Tk_Exception e s)),
      transport_writeEnd = iret 0,
      transport_flush = iret ()\<rparr>"

definition token_conn :: "'h wired \<Rightarrow> wire \<Rightarrow> 'h \<Rightarrow> bool" where
  "token_conn w a h \<longleftrightarrow> w = (a, h)"

section \<open>It satisfies the contract\<close>

lemma drop_nested_value: "drop_nested (Suc n) (value_tokens v @ r) = drop_nested (Suc n) r"
proof (induction v arbitrary: n r rule: value_tokens.induct)
  case (4 ss)
  have "drop_nested (Suc m) (map Tk_String ss @ r) = drop_nested (Suc m) r" for m r
    by (induction ss) simp_all
  then show ?case by simp
next
  case (5 fs)
  have "drop_nested (Suc m) (field_tokens fs' @ r) = drop_nested (Suc m) r" if "set fs' \<subseteq> set fs" for m r fs'
    using that
  proof (induction fs')
    case (Cons fv fs')
    then show ?case using 5 by (cases fv) auto
  qed simp
  then show ?case by simp
qed simp_all

lemma drop_value_value: "drop_value (value_tokens v @ r) = Some r"
proof (cases v)
  case (V_List ss)
  have "drop_nested (Suc m) (map Tk_String ss @ r) = drop_nested (Suc m) r" for m r
    by (induction ss) simp_all
  with V_List show ?thesis by simp
next
  case (V_Struct fs)
  have "drop_nested (Suc m) (field_tokens fs @ r) = drop_nested (Suc m) r" for m r
    by (induction fs) (auto simp: drop_nested_value)
  with V_Struct show ?thesis by simp
qed simp_all

lemma next_token_takes: "f t = Some x \<Longrightarrow> takes token_conn d (next_token f) [t] x"
  by (auto simp: takes_def next_token_def token_conn_def)

lemma exactly_takes: "takes token_conn d (exactly t) [t] (tk_size t)"
  unfolding exactly_def by (rule next_token_takes) simp

lemma put_token_gives: "gives token_conn d (put_token t) [t] (tk_size t)"
  by (auto simp: gives_def put_token_def token_conn_def)

lemma token_skip_takes: "takes token_conn d (token_skip ty) (value_tokens v) (sum_list (map tk_size (value_tokens v)))"
  by (auto simp: takes_def token_skip_def token_conn_def drop_value_value)

interpretation tok_in: thrift_input token_proto token_conn tk_size
proof
  fix w :: "'h wired" and a h j
  show "token_conn w a h \<Longrightarrow> w_in_depth a < recursion_limit \<Longrightarrow>
    \<exists>w'. enter_input token_proto w = Some (Inr (), w') \<and> token_conn w' (a\<lparr>w_in_depth := Suc (w_in_depth a)\<rparr>) h"
    by (simp add: token_proto_def token_conn_def)
  show "token_conn w a h \<Longrightarrow> w_in_depth a = Suc j \<Longrightarrow>
    token_conn (leave_input token_proto w) (a\<lparr>w_in_depth := j\<rparr>) h"
    by (simp add: token_proto_def token_conn_def)
  show "token_conn w a h \<Longrightarrow> \<exists>n w'. transport_readEnd token_proto w = Some (Inr n, w') \<and> token_conn w' a h"
    by (simp add: token_proto_def iret_apply)
qed (simp_all add: token_proto_def exactly_takes token_skip_takes next_token_takes)

interpretation tok_out: thrift_output token_proto token_conn tk_size
proof
  fix w :: "'h wired" and a h j
  show "token_conn w a h \<Longrightarrow> w_out_depth a < recursion_limit \<Longrightarrow>
    \<exists>w'. enter_output token_proto w = Some (Inr (), w') \<and> token_conn w' (a\<lparr>w_out_depth := Suc (w_out_depth a)\<rparr>) h"
    by (simp add: token_proto_def token_conn_def)
  show "token_conn w a h \<Longrightarrow> w_out_depth a = Suc j \<Longrightarrow>
    token_conn (leave_output token_proto w) (a\<lparr>w_out_depth := j\<rparr>) h"
    by (simp add: token_proto_def token_conn_def)
  show "token_conn w a h \<Longrightarrow> \<exists>n w'. transport_writeEnd token_proto w = Some (Inr n, w') \<and> token_conn w' a h"
    by (simp add: token_proto_def iret_apply)
  show "token_conn w a h \<Longrightarrow> \<exists>w'. transport_flush token_proto w = Some (Inr (), w') \<and> token_conn w' a h"
    by (simp add: token_proto_def iret_apply)
qed (simp_all add: token_proto_def put_token_gives)

text \<open>The empty connection, and a processor for a handler.\<close>

definition wire_new :: wire where
  "wire_new = \<lparr>w_in = [], w_in_depth = 0, w_out = [], w_out_depth = 0\<rparr>"

definition what_text :: "cpp_error \<Rightarrow> string" where
  "what_text e = (case e of Logic_error s \<Rightarrow> s | Runtime_error s \<Rightarrow> s | _ \<Rightarrow> ''std::exception'')"

definition plain_processor :: "'w iface \<Rightarrow> 'w processor" where
  "plain_processor i = \<lparr>pr_iface = i, pr_event = None, pr_what = what_text\<rparr>"

interpretation tok_server: thrift_server token_proto token_proto token_conn tk_size "plain_processor i" for i
  by unfold_locales (simp add: plain_processor_def)

end
