(* ===== verification/Thrift_Concurrent.thy ===== *)
theory Thrift_Concurrent
  imports Token_Protocol
begin

text \<open>
  \<open>pancake_thriftConcurrentClient\<close> of \<^verbatim>\<open>service/src/thrift.cpp\<close>: the client that several
  threads share. Each call has a sequence number; a thread that reads the header of another
  thread's reply parks it and waits. The library's \<open>TConcurrentClientSyncInfo\<close> and its
  sentries are the record \<open>sync\<close>.
\<close>

section \<open>Synchronisation\<close>

record 'w sync =
  generateSeqId :: "('w, 32 word) io"
  send_lock :: "('w, unit) io"
  send_commit :: "('w, unit) io"
  send_unlock :: "'w \<Rightarrow> 'w"
  recv_lock :: "32 word \<Rightarrow> ('w, unit) io"
  recv_commit :: "('w, unit) io"
  recv_unlock :: "32 word \<Rightarrow> 'w \<Rightarrow> 'w"
  getPending :: "('w, (string \<times> message_type \<times> 32 word) option) io"
  updatePending :: "string \<Rightarrow> message_type \<Rightarrow> 32 word \<Rightarrow> ('w, unit) io"
  waitForWork :: "32 word \<Rightarrow> ('w, unit) io"

text \<open>The sentries: the constructor locks, the destructor unlocks however the scope is left.\<close>

definition send_sentry :: "'w sync \<Rightarrow> ('w, 'a) io \<Rightarrow> ('w, 'a) io" where
  "send_sentry sy m = ithen (send_lock sy) (ifinally m (send_unlock sy))"

definition recv_sentry :: "'w sync \<Rightarrow> 32 word \<Rightarrow> ('w, 'a) io \<Rightarrow> ('w, 'a) io" where
  "recv_sentry sy seqid m = ithen (recv_lock sy seqid) (ifinally m (recv_unlock sy seqid))"

section \<open>Receiving\<close>

definition next_header :: "'w sync \<Rightarrow> 'w tproto \<Rightarrow> ('w, string \<times> message_type \<times> 32 word) io" where
  "next_header sy iprot =
     ibind (getPending sy) (\<lambda>p. case p of Some m \<Rightarrow> iret m | None \<Rightarrow> readMessageBegin iprot)"

text \<open>What is done with the header of one's own reply.\<close>

definition own_reply ::
    "'w sync \<Rightarrow> 'w tproto \<Rightarrow> string \<Rightarrow> ('w, 'r \<times> 32 word) io \<Rightarrow> ('r \<Rightarrow> ('w, 'b) io) \<Rightarrow> string \<Rightarrow>
     message_type \<Rightarrow> ('w, 'b) io" where
  "own_reply sy iprot name read_result finish fname mtype =
     (if mtype = T_EXCEPTION then
        ibind (read_exception iprot) (\<lambda>(e, msg).
          ithen (end_reply iprot) (ithen (recv_commit sy) (ithrow (Application_exception e msg))))
      else
        ithen (iwhen (mtype \<noteq> T_REPLY) (ithen (skip iprot T_STRUCT) (end_reply iprot)))
          (if fname \<noteq> name then
             ithen (skip iprot T_STRUCT) (ithen (end_reply iprot) (ithrow (Protocol_exception INVALID_DATA)))
           else
             ibind read_result (\<lambda>(result, xfer). ithen (end_reply iprot) (finish result))))"

text \<open>The loop \<open>while(true)\<close>, which ends with one's own reply.\<close>

partial_function (option) recv_loop ::
    "'w sync \<Rightarrow> 'w tproto \<Rightarrow> string \<Rightarrow> 32 word \<Rightarrow> ('w, 'r \<times> 32 word) io \<Rightarrow> ('r \<Rightarrow> ('w, 'b) io) \<Rightarrow> 'w \<Rightarrow>
     ((cpp_error + 'b) \<times> 'w) option" where
  "recv_loop sy iprot name seqid read_result finish w =
     ibind (next_header sy iprot) (\<lambda>m w1.
       if seqid = snd (snd m) then
         own_reply sy iprot name read_result finish (fst m) (fst (snd m)) w1
       else
         ibind (updatePending sy (fst m) (fst (snd m)) (snd (snd m))) (\<lambda>u.
         ibind (waitForWork sy seqid) (\<lambda>u'.
           recv_loop sy iprot name seqid read_result finish)) w1) w"

section \<open>The methods\<close>

definition c_send_get_client_id :: "'w sync \<Rightarrow> 'w tproto \<Rightarrow> ('w, 32 word) io" where
  "c_send_get_client_id sy oprot =
     ibind (generateSeqId sy) (\<lambda>cseqid.
       send_sentry sy (ithen (send_message oprot ''get_client_id'' T_CALL cseqid (get_client_id_pargs_write oprot))
         (ithen (send_commit sy) (iret cseqid))))"

definition c_recv_get_client_id :: "'w sync \<Rightarrow> 'w tproto \<Rightarrow> 32 word \<Rightarrow> ('w, 64 word) io" where
  "c_recv_get_client_id sy iprot seqid =
     recv_sentry sy seqid (recv_loop sy iprot ''get_client_id'' seqid
       (get_client_id_presult_read iprot \<lparr>gcr_success = 0, gcr_isset_success = False\<rparr>) (\<lambda>result.
         if gcr_isset_success result then ithen (recv_commit sy) (iret (gcr_success result))
         else ithrow (Application_exception MISSING_RESULT ''get_client_id failed: unknown result'')))"

definition concurrent_get_client_id :: "'w sync \<Rightarrow> 'w tproto \<Rightarrow> 'w tproto \<Rightarrow> ('w, 64 word) io" where
  "concurrent_get_client_id sy iprot oprot =
     ibind (c_send_get_client_id sy oprot) (c_recv_get_client_id sy iprot)"

definition c_send_register_client_id :: "'w sync \<Rightarrow> 'w tproto \<Rightarrow> 32 word \<Rightarrow> 64 word \<Rightarrow> ('w, 32 word) io" where
  "c_send_register_client_id sy oprot block_id client_id =
     ibind (generateSeqId sy) (\<lambda>cseqid.
       send_sentry sy (ithen (send_message oprot ''register_client_id'' T_CALL cseqid (register_client_id_pargs_write oprot block_id client_id))
         (ithen (send_commit sy) (iret cseqid))))"

definition c_recv_register_client_id :: "'w sync \<Rightarrow> 'w tproto \<Rightarrow> 32 word \<Rightarrow> ('w, unit) io" where
  "c_recv_register_client_id sy iprot seqid =
     recv_sentry sy seqid (recv_loop sy iprot ''register_client_id'' seqid (register_client_id_presult_read iprot) (\<lambda>result. recv_commit sy))"

definition concurrent_register_client_id :: "'w sync \<Rightarrow> 'w tproto \<Rightarrow> 'w tproto \<Rightarrow> 32 word \<Rightarrow> 64 word \<Rightarrow> ('w, unit) io" where
  "concurrent_register_client_id sy iprot oprot block_id client_id =
     ibind (c_send_register_client_id sy oprot block_id client_id) (c_recv_register_client_id sy iprot)"

definition c_send_async_get :: "'w sync \<Rightarrow> 'w tproto \<Rightarrow> sequence_id \<Rightarrow> string \<Rightarrow> ('w, unit) io" where
  "c_send_async_get sy oprot seq_id key =
     send_sentry sy (ithen (send_message oprot ''async_get'' T_ONEWAY 0 (async_get_pargs_write oprot seq_id key)) (send_commit sy))"

definition concurrent_async_get :: "'w sync \<Rightarrow> 'w tproto \<Rightarrow> sequence_id \<Rightarrow> string \<Rightarrow> ('w, unit) io" where
  "concurrent_async_get sy oprot seq_id key = c_send_async_get sy oprot seq_id key"

definition c_send_async_put :: "'w sync \<Rightarrow> 'w tproto \<Rightarrow> sequence_id \<Rightarrow> string \<Rightarrow> string \<Rightarrow> ('w, unit) io" where
  "c_send_async_put sy oprot seq_id key val =
     send_sentry sy (ithen (send_message oprot ''async_put'' T_ONEWAY 0 (async_put_pargs_write oprot seq_id key val)) (send_commit sy))"

definition concurrent_async_put :: "'w sync \<Rightarrow> 'w tproto \<Rightarrow> sequence_id \<Rightarrow> string \<Rightarrow> string \<Rightarrow> ('w, unit) io" where
  "concurrent_async_put sy oprot seq_id key val = c_send_async_put sy oprot seq_id key val"

definition c_send_async_get_batch :: "'w sync \<Rightarrow> 'w tproto \<Rightarrow> sequence_id \<Rightarrow> string list \<Rightarrow> ('w, unit) io" where
  "c_send_async_get_batch sy oprot seq_id keys =
     send_sentry sy (ithen (send_message oprot ''async_get_batch'' T_ONEWAY 0 (async_get_batch_pargs_write oprot seq_id keys)) (send_commit sy))"

definition concurrent_async_get_batch :: "'w sync \<Rightarrow> 'w tproto \<Rightarrow> sequence_id \<Rightarrow> string list \<Rightarrow> ('w, unit) io" where
  "concurrent_async_get_batch sy oprot seq_id keys = c_send_async_get_batch sy oprot seq_id keys"

definition c_send_async_put_batch :: "'w sync \<Rightarrow> 'w tproto \<Rightarrow> sequence_id \<Rightarrow> string list \<Rightarrow> string list \<Rightarrow> ('w, unit) io" where
  "c_send_async_put_batch sy oprot seq_id keys vals =
     send_sentry sy (ithen (send_message oprot ''async_put_batch'' T_ONEWAY 0 (async_put_batch_pargs_write oprot seq_id keys vals)) (send_commit sy))"

definition concurrent_async_put_batch :: "'w sync \<Rightarrow> 'w tproto \<Rightarrow> sequence_id \<Rightarrow> string list \<Rightarrow> string list \<Rightarrow> ('w, unit) io" where
  "concurrent_async_put_batch sy oprot seq_id keys vals = c_send_async_put_batch sy oprot seq_id keys vals"

definition c_send_get :: "'w sync \<Rightarrow> 'w tproto \<Rightarrow> string \<Rightarrow> ('w, 32 word) io" where
  "c_send_get sy oprot key =
     ibind (generateSeqId sy) (\<lambda>cseqid.
       send_sentry sy (ithen (send_message oprot ''get'' T_CALL cseqid (get_pargs_write oprot key))
         (ithen (send_commit sy) (iret cseqid))))"

definition c_recv_get :: "'w sync \<Rightarrow> 'w tproto \<Rightarrow> string \<Rightarrow> 32 word \<Rightarrow> ('w, string) io" where
  "c_recv_get sy iprot ret seqid =
     recv_sentry sy seqid (recv_loop sy iprot ''get'' seqid
       (get_presult_read iprot \<lparr>gr_success = ret, gr_isset_success = False\<rparr>) (\<lambda>result.
         if gr_isset_success result then ithen (recv_commit sy) (iret (gr_success result))
         else ithrow (Application_exception MISSING_RESULT ''get failed: unknown result'')))"

definition concurrent_get :: "'w sync \<Rightarrow> 'w tproto \<Rightarrow> 'w tproto \<Rightarrow> string \<Rightarrow> string \<Rightarrow> ('w, string) io" where
  "concurrent_get sy iprot oprot ret key =
     ibind (c_send_get sy oprot key) (c_recv_get sy iprot ret)"

definition c_send_put :: "'w sync \<Rightarrow> 'w tproto \<Rightarrow> string \<Rightarrow> string \<Rightarrow> ('w, 32 word) io" where
  "c_send_put sy oprot key val =
     ibind (generateSeqId sy) (\<lambda>cseqid.
       send_sentry sy (ithen (send_message oprot ''put'' T_CALL cseqid (put_pargs_write oprot key val))
         (ithen (send_commit sy) (iret cseqid))))"

definition c_recv_put :: "'w sync \<Rightarrow> 'w tproto \<Rightarrow> 32 word \<Rightarrow> ('w, unit) io" where
  "c_recv_put sy iprot seqid =
     recv_sentry sy seqid (recv_loop sy iprot ''put'' seqid (put_presult_read iprot) (\<lambda>result. recv_commit sy))"

definition concurrent_put :: "'w sync \<Rightarrow> 'w tproto \<Rightarrow> 'w tproto \<Rightarrow> string \<Rightarrow> string \<Rightarrow> ('w, unit) io" where
  "concurrent_put sy iprot oprot key val =
     ibind (c_send_put sy oprot key val) (c_recv_put sy iprot)"

definition c_send_get_batch :: "'w sync \<Rightarrow> 'w tproto \<Rightarrow> string list \<Rightarrow> ('w, 32 word) io" where
  "c_send_get_batch sy oprot keys =
     ibind (generateSeqId sy) (\<lambda>cseqid.
       send_sentry sy (ithen (send_message oprot ''get_batch'' T_CALL cseqid (get_batch_pargs_write oprot keys))
         (ithen (send_commit sy) (iret cseqid))))"

definition c_recv_get_batch :: "'w sync \<Rightarrow> 'w tproto \<Rightarrow> string list \<Rightarrow> 32 word \<Rightarrow> ('w, string list) io" where
  "c_recv_get_batch sy iprot ret seqid =
     recv_sentry sy seqid (recv_loop sy iprot ''get_batch'' seqid
       (get_batch_presult_read iprot \<lparr>gbr_success = ret, gbr_isset_success = False\<rparr>) (\<lambda>result.
         if gbr_isset_success result then ithen (recv_commit sy) (iret (gbr_success result))
         else ithrow (Application_exception MISSING_RESULT ''get_batch failed: unknown result'')))"

definition concurrent_get_batch :: "'w sync \<Rightarrow> 'w tproto \<Rightarrow> 'w tproto \<Rightarrow> string list \<Rightarrow> string list \<Rightarrow> ('w, string list) io" where
  "concurrent_get_batch sy iprot oprot ret keys =
     ibind (c_send_get_batch sy oprot keys) (c_recv_get_batch sy iprot ret)"

definition c_send_put_batch :: "'w sync \<Rightarrow> 'w tproto \<Rightarrow> string list \<Rightarrow> string list \<Rightarrow> ('w, 32 word) io" where
  "c_send_put_batch sy oprot keys vals =
     ibind (generateSeqId sy) (\<lambda>cseqid.
       send_sentry sy (ithen (send_message oprot ''put_batch'' T_CALL cseqid (put_batch_pargs_write oprot keys vals))
         (ithen (send_commit sy) (iret cseqid))))"

definition c_recv_put_batch :: "'w sync \<Rightarrow> 'w tproto \<Rightarrow> 32 word \<Rightarrow> ('w, unit) io" where
  "c_recv_put_batch sy iprot seqid =
     recv_sentry sy seqid (recv_loop sy iprot ''put_batch'' seqid (put_batch_presult_read iprot) (\<lambda>result. recv_commit sy))"

definition concurrent_put_batch :: "'w sync \<Rightarrow> 'w tproto \<Rightarrow> 'w tproto \<Rightarrow> string list \<Rightarrow> string list \<Rightarrow> ('w, unit) io" where
  "concurrent_put_batch sy iprot oprot keys vals =
     ibind (c_send_put_batch sy oprot keys vals) (c_recv_put_batch sy iprot)"

end
