(* ===== verification/Response_Service.thy ===== *)
theory Response_Service
  imports Thrift_Concurrent
begin

text \<open>
  \<open>pancake_thrift_response\<close> (\<^verbatim>\<open>service/src/thrift_response_service.h\<close> and \<^verbatim>\<open>.cpp\<close>): the
  service through which the proxy answers the asynchronous calls, with its one method
  \<open>async_response\<close>, its clients and its processor.
\<close>

record async_response_args =
  ar_seq_id :: sequence_id
  ar_op_code :: "32 word"
  ar_result :: "string list"
  ar_isset_seq_id :: bool
  ar_isset_op_code :: bool
  ar_isset_result :: bool

definition async_response_args_new :: async_response_args where
  "async_response_args_new =
     \<lparr>ar_seq_id = sequence_id_new, ar_op_code = 0, ar_result = [],
      ar_isset_seq_id = False, ar_isset_op_code = False, ar_isset_result = False\<rparr>"

definition async_response_args_eq :: "async_response_args \<Rightarrow> async_response_args \<Rightarrow> bool" where
  "async_response_args_eq a rhs =
     (if \<not> sequence_id_eq (ar_seq_id a) (ar_seq_id rhs) then False
      else if \<not> (ar_op_code a = ar_op_code rhs) then False
      else if \<not> (ar_result a = ar_result rhs) then False
      else True)"

definition async_response_args_neq :: "async_response_args \<Rightarrow> async_response_args \<Rightarrow> bool" where
  "async_response_args_neq a rhs = (\<not> async_response_args_eq a rhs)"

definition async_response_args_field ::
    "'w tproto \<Rightarrow> 16 word \<Rightarrow> ttype \<Rightarrow> async_response_args \<Rightarrow> ('w, async_response_args \<times> 32 word) io" where
  "async_response_args_field P fid ftype x =
     (if fid = 1 then
        read_if P ftype T_STRUCT (sequence_id_read P (ar_seq_id x)) (\<lambda>v. x\<lparr>ar_seq_id := v, ar_isset_seq_id := True\<rparr>) x
      else if fid = 2 then
        read_if P ftype T_I32 (readI32 P) (\<lambda>v. x\<lparr>ar_op_code := v, ar_isset_op_code := True\<rparr>) x
      else if fid = 3 then
        read_if P ftype T_LIST (read_string_list P) (\<lambda>v. x\<lparr>ar_result := v, ar_isset_result := True\<rparr>) x
      else skip_field P ftype x)"

definition async_response_args_read ::
    "'w tproto \<Rightarrow> async_response_args \<Rightarrow> ('w, async_response_args \<times> 32 word) io" where
  "async_response_args_read P this = read_struct P (async_response_args_field P) this"

definition async_response_args_write :: "'w tproto \<Rightarrow> async_response_args \<Rightarrow> ('w, 32 word) io" where
  "async_response_args_write P this =
     write_struct P ''pancake_thrift_response_async_response_args''
       [write_field P ''seq_id'' T_STRUCT 1 (sequence_id_write P (ar_seq_id this)),
        write_field P ''op_code'' T_I32 2 (writeI32 P (ar_op_code this)),
        write_field P ''result'' T_LIST 3 (write_string_list P (ar_result this))]"

definition async_response_pargs_write ::
    "'w tproto \<Rightarrow> sequence_id \<Rightarrow> 32 word \<Rightarrow> string list \<Rightarrow> ('w, 32 word) io" where
  "async_response_pargs_write P seq_id op_code result =
     write_struct P ''pancake_thrift_response_async_response_pargs''
       [write_field P ''seq_id'' T_STRUCT 1 (sequence_id_write P seq_id),
        write_field P ''op_code'' T_I32 2 (writeI32 P op_code),
        write_field P ''result'' T_LIST 3 (write_string_list P result)]"

section \<open>Clients\<close>

definition send_async_response ::
    "'w tproto \<Rightarrow> sequence_id \<Rightarrow> 32 word \<Rightarrow> string list \<Rightarrow> ('w, unit) io" where
  "send_async_response oprot seq_id op_code result =
     send_message oprot ''async_response'' T_ONEWAY 0 (async_response_pargs_write oprot seq_id op_code result)"

definition response_async_response ::
    "'w tproto \<Rightarrow> sequence_id \<Rightarrow> 32 word \<Rightarrow> string list \<Rightarrow> ('w, unit) io" where
  "response_async_response oprot seq_id op_code result = send_async_response oprot seq_id op_code result"

definition c_send_async_response ::
    "'w sync \<Rightarrow> 'w tproto \<Rightarrow> sequence_id \<Rightarrow> 32 word \<Rightarrow> string list \<Rightarrow> ('w, unit) io" where
  "c_send_async_response sy oprot seq_id op_code result =
     send_sentry sy (ithen
       (send_message oprot ''async_response'' T_ONEWAY 0 (async_response_pargs_write oprot seq_id op_code result))
       (send_commit sy))"

definition concurrent_async_response ::
    "'w sync \<Rightarrow> 'w tproto \<Rightarrow> sequence_id \<Rightarrow> 32 word \<Rightarrow> string list \<Rightarrow> ('w, unit) io" where
  "concurrent_async_response sy oprot seq_id op_code result = c_send_async_response sy oprot seq_id op_code result"

section \<open>The processor\<close>

text \<open>
  The processor of this service shares its helpers with the other one; its handler is the
  argument \<open>respond\<close>, and \<open>pr_iface\<close> of \<open>pr\<close> is not used.
\<close>

definition process_async_response ::
    "'w processor \<Rightarrow> (sequence_id \<Rightarrow> 32 word \<Rightarrow> string list \<Rightarrow> ('w, unit) io) \<Rightarrow> 'w process_function" where
  "process_async_response pr respond seqid iprot oprot callContext =
     process_oneway pr iprot ''pancake_thrift_response.async_response'' callContext
       (async_response_args_read iprot async_response_args_new)
       (\<lambda>args. respond (ar_seq_id args) (ar_op_code args) (ar_result args))"

definition response_process_map ::
    "'w processor \<Rightarrow> (sequence_id \<Rightarrow> 32 word \<Rightarrow> string list \<Rightarrow> ('w, unit) io) \<Rightarrow> string \<rightharpoonup> 'w process_function" where
  "response_process_map pr respond = [''async_response'' \<mapsto> process_async_response pr respond]"

definition response_dispatchCall ::
    "'w processor \<Rightarrow> (sequence_id \<Rightarrow> 32 word \<Rightarrow> string list \<Rightarrow> ('w, unit) io) \<Rightarrow> 'w tproto \<Rightarrow> 'w tproto \<Rightarrow>
     string \<Rightarrow> 32 word \<Rightarrow> nat \<Rightarrow> ('w, bool) io" where
  "response_dispatchCall pr respond = dispatch_on (response_process_map pr respond)"

section \<open>What is written and read\<close>

abbreviation response_value :: "sequence_id \<Rightarrow> 32 word \<Rightarrow> string list \<Rightarrow> tvalue" where
  "response_value s c rs \<equiv> V_Struct [(1, seq_value s), (2, V_I32 c), (3, V_List rs)]"

definition async_response_args_upd :: "16 word \<Rightarrow> tvalue \<Rightarrow> async_response_args \<Rightarrow> async_response_args" where
  "async_response_args_upd fid v x =
     (if fid = 1 then
        (case v of V_Struct fs \<Rightarrow> x\<lparr>ar_seq_id := fst (seq_fields (ar_seq_id x) fs), ar_isset_seq_id := True\<rparr> | _ \<Rightarrow> x)
      else if fid = 2 then on_i32 v (\<lambda>y. x\<lparr>ar_op_code := y, ar_isset_op_code := True\<rparr>) x
      else if fid = 3 then on_list v (\<lambda>y. x\<lparr>ar_result := y, ar_isset_result := True\<rparr>) x
      else x)"

lemma async_response_args_reads:
  "fold (\<lambda>(fid, v). async_response_args_upd fid v) [(1, seq_value s), (2, V_I32 c), (3, V_List rs)] x
     = \<lparr>ar_seq_id = s, ar_op_code = c, ar_result = rs,
        ar_isset_seq_id = True, ar_isset_op_code = True, ar_isset_result = True\<rparr>"
  by (simp add: async_response_args_upd_def on_value_defs seq_value_def seq_value_reads)

context thrift_input begin

lemma async_response_args_read_takes:
  assumes "fields_ok d fs" and "\<And>fs'. (1, V_Struct fs') \<in> set fs \<Longrightarrow> seq_complete fs'"
  shows "takes conn (Suc d) (async_response_args_read P x) (value_tokens (V_Struct fs))
     (fold (\<lambda>(fid, v). async_response_args_upd fid v) fs x, size_of (value_tokens (V_Struct fs)))"
  unfolding async_response_args_read_def
proof (rule read_struct_takes)
  fix fid v x
  assume "(fid, v) \<in> set fs"
  then have m: "value_ok v \<and> value_depth v \<le> d" "fid = 1 \<Longrightarrow> (1, v) \<in> set fs"
    using fields_okD [OF assms(1)] by auto
  show "takes conn d (async_response_args_field P fid (value_type v) x) (value_tokens v)
      (async_response_args_upd fid v x, size_of (value_tokens v))"
    using m seq_arg_takes [OF assms, of v "ar_seq_id x" "\<lambda>y. x\<lparr>ar_seq_id := y, ar_isset_seq_id := True\<rparr>" x]
    by (simp add: async_response_args_field_def async_response_args_upd_def field_takes)
qed

lemma async_response_args_takes:
  "value_ok (V_List rs) \<Longrightarrow> takes conn 3 (async_response_args_read P x0) (value_tokens (response_value s c rs))
     (\<lparr>ar_seq_id = s, ar_op_code = c, ar_result = rs,
       ar_isset_seq_id = True, ar_isset_op_code = True, ar_isset_result = True\<rparr>,
      size_of (value_tokens (response_value s c rs)))"
  by (rule takes_mono [OF async_response_args_read_takes
        [of 2 "[(1, seq_value s), (2, V_I32 c), (3, V_List rs)]" x0, unfolded async_response_args_reads]])
    (simp, erule seq_args_complete, simp_all)

end

context thrift_output begin

lemma send_async_response_gives:
  "value_ok (V_List rs) \<Longrightarrow>
   gives conn 2 (send_async_response P s c rs) (message ''async_response'' T_ONEWAY 0 (response_value s c rs)) ()"
  unfolding send_async_response_def async_response_pargs_write_def numeral_2_eq_2
  by (rule send_message_gives, rule write_struct_gives) (simp add: field_writes)

end

context thrift_server begin

text \<open>A response that arrives is handed to the handler, and nothing is written back.\<close>

lemma response_answers:
  assumes "value_ok (V_List rs)" and "handles conn (respond s c rs) h r h'" and "\<And>e. r = Inl e \<Longrightarrow> is_exception e"
    and "conn w a h" and "unnested a" and "w_in a = value_tokens (response_value s c rs) @ Tk_MessageEnd # rest"
  shows "\<exists>w'. response_dispatchCall pr respond ip oprt ''async_response'' seqid cc w = Some (Inr True, w') \<and>
    conn w' (a\<lparr>w_in := rest\<rparr>) h'"
proof -
  obtain w' where "process_oneway pr ip ''pancake_thrift_response.async_response'' cc
      (async_response_args_read ip async_response_args_new)
      (\<lambda>args. respond (ar_seq_id args) (ar_op_code args) (ar_result args)) w = Some (Inr (), w')"
      "conn w' (a\<lparr>w_in := rest\<rparr>) h'"
    using process_oneway_silent [OF async_response_args_takes [OF assms(1)] assms(4-6),
        where call = "\<lambda>args. respond (ar_seq_id args) (ar_op_code args) (ar_result args)" and r = r and h' = h',
        of "''pancake_thrift_response.async_response''" cc async_response_args_new]
      assms(2,3) by auto
  then show ?thesis
    by (auto simp: response_dispatchCall_def dispatch_on_def response_process_map_def
        process_async_response_def [abs_def] ithen_Inr iret_apply)
qed

end

end
