(* ===== verification/Cpp_Queue.thy ===== *)
theory Cpp_Queue
  imports Pancake_Prelude "HOL-Library.Word"
begin

text \<open>
  \<^verbatim>\<open>proxy/src/queue.h\<close>, the blocking queue between request threads and consumers, and
  \<^verbatim>\<open>proxy/src/operation.h\<close>, the requests it carries. Each method runs under the queue's
  mutex, so it is one step on the queue's state; \<open>None\<close> is a \<open>pop\<close> that waits on the
  condition variable. The contract of a queue is the locale \<open>fifo\<close>, interpreted on the
  code's queue as \<open>cppq\<close>.
\<close>

section \<open>Operations\<close>

record operation =
  op_key :: string
  op_value :: string

definition operation_new :: operation where
  "operation_new = \<lparr>op_key = [], op_value = []\<rparr>"

text \<open>The copy assignment of the source returns \<open>*this\<close> and copies nothing.\<close>

definition operation_assign :: "operation \<Rightarrow> operation \<Rightarrow> operation" where
  "operation_assign lhs rhs = lhs"

definition operation_eq :: "operation \<Rightarrow> operation \<Rightarrow> bool" where
  "operation_eq a b =
     (if \<not> (op_key a = op_key b) then False
      else if \<not> (op_value a = op_value b) then False
      else True)"

definition operation_neq :: "operation \<Rightarrow> operation \<Rightarrow> bool" where
  "operation_neq a b = (\<not> operation_eq a b)"

lemma operation_eq_iff: "operation_eq (a :: operation) b \<longleftrightarrow> a = b"
  by (auto simp: operation_eq_def)

section \<open>The queue\<close>

record 'a queue =
  m_queue :: "'a list"
  size_ctr :: "32 word"

definition queue_new :: "'a queue" where
  "queue_new = \<lparr>m_queue = [], size_ctr = 0\<rparr>"

definition queue_push :: "'a \<Rightarrow> 'a queue \<Rightarrow> 'a queue" where
  "queue_push item q = q\<lparr>m_queue := m_queue q @ [item], size_ctr := size_ctr q + 1\<rparr>"

definition queue_pop :: "'a queue \<Rightarrow> ('a \<times> 'a queue) option" where
  "queue_pop q =
     (case m_queue q of
        [] \<Rightarrow> None
      | item # rest \<Rightarrow> Some (item, q\<lparr>m_queue := rest, size_ctr := size_ctr q - 1\<rparr>))"

text \<open>
  \<open>pop(T &item)\<close> stores through the copy assignment of \<open>T\<close>, which is the argument
  \<open>asg\<close> (old value, new value).
\<close>

definition queue_pop_into :: "('a \<Rightarrow> 'a \<Rightarrow> 'a) \<Rightarrow> 'a \<Rightarrow> 'a queue \<Rightarrow> ('a \<times> 'a queue) option" where
  "queue_pop_into asg item q =
     (case m_queue q of
        [] \<Rightarrow> None
      | front # rest \<Rightarrow>
          Some (asg item front, q\<lparr>m_queue := rest, size_ctr := size_ctr q - 1\<rparr>))"

definition queue_size :: "'a queue \<Rightarrow> int" where
  "queue_size q = sint (size_ctr q)"

section \<open>The contract of a queue\<close>

text \<open>
  A run of pushes and pops by any number of threads; a pop on the empty queue leaves the
  thread waiting and takes nothing.
\<close>

datatype 'a qevent = Push 'a | Pop

fun pushed :: "'a qevent list \<Rightarrow> 'a list" where
  "pushed [] = []"
| "pushed (Push x # es) = x # pushed es"
| "pushed (Pop # es) = pushed es"

fun queue_run ::
    "('a \<Rightarrow> 'q \<Rightarrow> 'q) \<Rightarrow> ('q \<Rightarrow> ('a \<times> 'q) option) \<Rightarrow> 'q \<Rightarrow> 'a qevent list \<Rightarrow> 'a list \<times> 'q" where
  "queue_run enq deq q [] = ([], q)"
| "queue_run enq deq q (Push x # es) = queue_run enq deq (enq x q) es"
| "queue_run enq deq q (Pop # es) =
     (case deq q of
        None \<Rightarrow> queue_run enq deq q es
      | Some (x, q') \<Rightarrow> (let (xs, q'') = queue_run enq deq q' es in (x # xs, q'')))"

locale fifo =
  fixes enq :: "'a \<Rightarrow> 'q \<Rightarrow> 'q"
    and deq :: "'q \<Rightarrow> ('a \<times> 'q) option"
    and contents :: "'q \<Rightarrow> 'a list"
    and ok :: "'q \<Rightarrow> bool"
  assumes contents_enq: "ok q \<Longrightarrow> contents (enq x q) = contents q @ [x]"
    and ok_enq: "ok q \<Longrightarrow> ok (enq x q)"
    and deq_None: "ok q \<Longrightarrow> deq q = None \<longleftrightarrow> contents q = []"
    and deq_Some: "ok q \<Longrightarrow> deq q = Some (x, q') \<Longrightarrow> contents q = x # contents q' \<and> ok q'"
begin

lemma run_order:
  "ok q \<Longrightarrow> ok (snd (queue_run enq deq q es)) \<and>
     fst (queue_run enq deq q es) @ contents (snd (queue_run enq deq q es))
       = contents q @ pushed es"
proof (induction es arbitrary: q)
  case Nil
  then show ?case by simp
next
  case (Cons e es)
  show ?case
  proof (cases e)
    case (Push x)
    with Cons show ?thesis by (simp add: contents_enq ok_enq)
  next
    case Pop
    show ?thesis
    proof (cases "deq q")
      case None
      with Cons Pop show ?thesis by simp
    next
      case (Some p)
      then obtain x q' where d: "deq q = Some (x, q')" by (cases p) auto
      with Cons.prems have "contents q = x # contents q'" and "ok q'"
        using deq_Some by blast+
      with Cons.IH [of q'] d Pop show ?thesis
        by (simp add: split_beta)
    qed
  qed
qed

end

definition queue_ok :: "'a queue \<Rightarrow> bool" where
  "queue_ok q \<longleftrightarrow> size_ctr q = of_nat (length (m_queue q))"

interpretation cppq: fifo queue_push queue_pop m_queue queue_ok
  by unfold_locales
    (auto simp: queue_push_def queue_pop_def queue_ok_def split: list.splits)

lemma queue_ok_new [simp]: "queue_ok queue_new"
  by (simp add: queue_ok_def queue_new_def)

lemma queue_size_length:
  assumes "queue_ok q" and "length (m_queue q) < 2 ^ 31"
  shows "queue_size q = int (length (m_queue q))"
proof -
  have "sint (of_nat (length (m_queue q)) :: 32 word)
      = signed_take_bit 31 (int (length (m_queue q)))"
    by (simp add: signed_of_nat)
  also have "\<dots> = int (length (m_queue q))"
    using assms(2) by (intro signed_take_bit_int_eq_self) auto
  finally show ?thesis
    using assms(1) by (simp add: queue_size_def queue_ok_def)
qed

lemma queue_pop_m_queue [simp]:
  "queue_pop q = None \<longleftrightarrow> m_queue q = []"
  by (simp add: queue_pop_def split: list.splits)

lemma m_queue_push [simp]: "m_queue (queue_push x q) = m_queue q @ [x]"
  by (simp add: queue_push_def)

end
