(* ===== verification/Client_Library.thy ===== *)
theory Client_Library
  imports Response_Service Cpp_Queue
begin

text \<open>
  \<^verbatim>\<open>libclient/src\<close>: the synchronous client \<open>proxy_client\<close>, the reader of asynchronous responses
  \<open>command_response_reader\<close>, and the asynchronous client \<open>async_proxy_client\<close> with its thread
  \<open>read_responses\<close>. The asynchronous client bounds the requests in flight by the length of a
  queue that its thread empties: \<open>client_run\<close> interleaves the calls with the thread.
\<close>

section \<open>The synchronous client\<close>

text \<open>The client is the protocol object on its connection, which \<open>init\<close> opens.\<close>

definition proxy_client_init :: "('w, unit) io \<Rightarrow> 'w tproto \<Rightarrow> ('w, 'w tproto) io" where
  "proxy_client_init transport_open protocol = ithen transport_open (iret protocol)"

definition proxy_client_get :: "'w tproto \<Rightarrow> string \<Rightarrow> ('w, string) io" where
  "proxy_client_get client k = client_get client client [] k"

definition proxy_client_put :: "'w tproto \<Rightarrow> string \<Rightarrow> string \<Rightarrow> ('w, unit) io" where
  "proxy_client_put client k v = client_put client client k v"

definition proxy_client_get_batch :: "'w tproto \<Rightarrow> string list \<Rightarrow> ('w, string list) io" where
  "proxy_client_get_batch client keys = client_get_batch client client [] keys"

definition proxy_client_put_batch :: "'w tproto \<Rightarrow> string list \<Rightarrow> string list \<Rightarrow> ('w, unit) io" where
  "proxy_client_put_batch client keys values = client_put_batch client client keys values"

section \<open>Reading a response\<close>

text \<open>
  Neither the name nor the type of the message is looked at. A response without an identifier
  or a result leaves the function without a value.
\<close>

definition recv_response :: "'w tproto \<Rightarrow> ('w, string list \<times> 64 word) io" where
  "recv_response iprot =
     ibind (readMessageBegin iprot) (\<lambda>(fname, mtype, rseqid).
       if mtype = T_EXCEPTION then
         ibind (read_exception iprot) (\<lambda>(e, msg).
           ithen (end_reply iprot) (ithrow (Application_exception e msg)))
       else
         ibind (async_response_args_read iprot async_response_args_new) (\<lambda>(result, xfer).
         ithen (end_reply iprot)
           (if ar_isset_seq_id result \<and> ar_isset_result result
            then iret (ar_result result, sq_client_seq_no (ar_seq_id result))
            else ithrow Undefined)))"

section \<open>The asynchronous client\<close>

record 'n async_client =
  ac_requests :: "32 word queue"
  ac_total :: "32 word"
  ac_done :: bool
  ac_sequence_num :: "32 word"
  ac_client_id :: "32 word"
  ac_seq_id :: sequence_id
  ac_in_flight_limit :: "32 word"
  ac_net :: 'n

definition on_wire :: "('n, 'a) io \<Rightarrow> ('n async_client, 'a) io" where
  "on_wire = izoom ac_net (\<lambda>n w. w\<lparr>ac_net := n\<rparr>)"

definition push_code :: "32 word \<Rightarrow> ('n async_client, unit) io" where
  "push_code c = imodify (\<lambda>w. w\<lparr>ac_requests := queue_push c (ac_requests w)\<rparr>)"

definition async_get_client_id :: "'n tproto \<Rightarrow> ('n async_client, 64 word) io" where
  "async_get_client_id P =
     ibind (on_wire (client_get_client_id P P)) (\<lambda>i.
     ithen (on_wire (client_register_client_id P P 1 i)) (iret i))"

text \<open>The client id is kept in an \<open>int\<close>.\<close>

definition async_client_init :: "('n, unit) io \<Rightarrow> 'n tproto \<Rightarrow> ('n async_client, unit) io" where
  "async_client_init transport_open P =
     ithen (imodify (\<lambda>w. w\<lparr>ac_done := False, ac_total := 0\<rparr>))
    (ithen (on_wire transport_open)
    (ithen (imodify (\<lambda>w. w\<lparr>ac_requests := queue_new\<rparr>))
    (ibind (async_get_client_id P) (\<lambda>i.
       let client_id = ucast i :: 32 word
       in imodify (\<lambda>w. w\<lparr>ac_client_id := client_id,
                         ac_seq_id := set_client_id (scast client_id) sequence_id_new\<rparr>)))))"

text \<open>
  Every call waits while \<open>requests_->size() >= in_flight_limit_\<close>, and then takes the next
  number; the increment of the \<open>int\<close> must not overflow.
\<close>

definition when_room :: "('n async_client, 'a) io \<Rightarrow> ('n async_client, 'a) io" where
  "when_room m = (\<lambda>w. if queue_size (ac_requests w) \<ge> sint (ac_in_flight_limit w) then None else m w)"

definition next_sequence :: "('n async_client, sequence_id) io" where
  "next_sequence = (\<lambda>w.
     if sint (ac_sequence_num w) = 2 ^ 31 - 1 then Some (Inl Undefined, w)
     else let s = set_client_seq_no (scast (ac_sequence_num w)) (ac_seq_id w)
          in Some (Inr s, w\<lparr>ac_seq_id := s, ac_sequence_num := ac_sequence_num w + 1\<rparr>))"

definition async_client_get :: "'n tproto \<Rightarrow> string \<Rightarrow> ('n async_client, string) io" where
  "async_client_get P k =
     when_room (ibind next_sequence (\<lambda>s.
       ithen (on_wire (client_async_get P s k)) (ithen (push_code 0) (iret []))))"

definition async_client_put :: "'n tproto \<Rightarrow> string \<Rightarrow> string \<Rightarrow> ('n async_client, unit) io" where
  "async_client_put P k v =
     when_room (ibind next_sequence (\<lambda>s. ithen (on_wire (client_async_put P s k v)) (push_code 1)))"

text \<open>After the push \<open>get_batch\<close> also waits while more than 63 requests are queued.\<close>

definition async_client_get_batch :: "'n tproto \<Rightarrow> string list \<Rightarrow> ('n async_client, string list) io" where
  "async_client_get_batch P keys =
     when_room (ibind next_sequence (\<lambda>s.
       ithen (on_wire (client_async_get_batch P s keys))
      (ithen (push_code 2)
       (\<lambda>w. if queue_size (ac_requests w) > 63 then None else Some (Inr [], w)))))"

definition async_client_put_batch ::
    "'n tproto \<Rightarrow> string list \<Rightarrow> string list \<Rightarrow> ('n async_client, unit) io" where
  "async_client_put_batch P keys values =
     when_room (ibind next_sequence (\<lambda>s.
       ithen (on_wire (client_async_put_batch P s keys values)) (push_code 3)))"

definition num_requests_satisfied :: "('n async_client, 32 word) io" where
  "num_requests_satisfied = iget ac_total"

text \<open>
  The thread: \<open>Checking\<close> before the test of the loop, \<open>Waiting\<close> before the pop, \<open>Receiving\<close>
  with the popped code before the response is read, \<open>Stopped\<close> after the loop.
\<close>

datatype reader_point = Checking | Waiting | Receiving "32 word" | Stopped

definition read_responses_step :: "'n tproto \<Rightarrow> reader_point \<Rightarrow> ('n async_client, reader_point) io" where
  "read_responses_step P pt =
     (case pt of
        Checking \<Rightarrow> iget (\<lambda>w. if ac_done w then Stopped else Waiting)
      | Waiting \<Rightarrow> (\<lambda>w. case queue_pop (ac_requests w) of
            None \<Rightarrow> None
          | Some (c, q') \<Rightarrow> Some (Inr (Receiving c), w\<lparr>ac_requests := q'\<rparr>))
      | Receiving c \<Rightarrow>
          ibind (icatch is_transport (ibind (on_wire (recv_response P)) (\<lambda>(rs, n). iret rs)) (iret [])) (\<lambda>rs.
          ithen (imodify (\<lambda>w. w\<lparr>ac_total := ac_total w + of_nat (length rs)\<rparr>)) (iret Checking))
      | Stopped \<Rightarrow> iret Stopped)"

definition async_client_finish :: "('n async_client, unit) io \<Rightarrow> ('n async_client, unit) io" where
  "async_client_finish join =
     ithen (imodify (\<lambda>w. w\<lparr>ac_done := True\<rparr>)) (ithen (iall (replicate 5 (push_code 2))) join)"

section \<open>Runs\<close>

datatype client_call =
    Call_get string | Call_put string string | Call_get_batch "string list"
  | Call_put_batch "string list" "string list"

fun async_call :: "'n tproto \<Rightarrow> client_call \<Rightarrow> ('n async_client, unit) io" where
  "async_call P (Call_get k) = ithen (async_client_get P k) (iret ())"
| "async_call P (Call_put k v) = async_client_put P k v"
| "async_call P (Call_get_batch ks) = ithen (async_client_get_batch P ks) (iret ())"
| "async_call P (Call_put_batch ks vs) = async_client_put_batch P ks vs"

fun receiving :: "reader_point \<Rightarrow> nat" where
  "receiving (Receiving _) = 1"
| "receiving _ = 0"

text \<open>
  \<open>client_run P w0 calls fails reads pt w\<close>: from \<open>w0\<close>, after \<open>calls\<close> calls that returned,
  \<open>fails\<close> that threw and \<open>reads\<close> attempts of the thread to read a response, the thread is at
  \<open>pt\<close> and the client is \<open>w\<close>. The callers exclude each other by a mutex.
\<close>

inductive client_run ::
    "'n tproto \<Rightarrow> 'n async_client \<Rightarrow> nat \<Rightarrow> nat \<Rightarrow> nat \<Rightarrow> reader_point \<Rightarrow> 'n async_client \<Rightarrow> bool"
  for P w0 where
  cr_start: "client_run P w0 0 0 0 Checking w0"
| cr_call: "client_run P w0 c f r pt w \<Longrightarrow> async_call P cl w = Some (Inr (), w') \<Longrightarrow>
    client_run P w0 (Suc c) f r pt w'"
| cr_fail: "client_run P w0 c f r pt w \<Longrightarrow> async_call P cl w = Some (Inl e, w') \<Longrightarrow>
    client_run P w0 c (Suc f) r pt w'"
| cr_read: "client_run P w0 c f r pt w \<Longrightarrow> read_responses_step P pt w = Some (Inr pt', w') \<Longrightarrow>
    client_run P w0 c f (r + receiving pt) pt' w'"

section \<open>What a step changes\<close>

lemma on_wire_cases:
  assumes "on_wire m w = Some (r, w')"
  obtains n where "w' = w\<lparr>ac_net := n\<rparr>"
  using assms by (auto simp: on_wire_def izoom_def)

lemma push_code_apply: "push_code c w = Some (Inr (), w\<lparr>ac_requests := queue_push c (ac_requests w)\<rparr>)"
  by (simp add: push_code_def imodify_apply)

text \<open>
  A call starts only when there is room, and either throws and queues nothing, or takes a
  number and queues one code.
\<close>

definition call_effect :: "'n async_client \<Rightarrow> bool \<Rightarrow> 'n async_client \<Rightarrow> bool" where
  "call_effect w ok w' \<longleftrightarrow>
     queue_size (ac_requests w) < sint (ac_in_flight_limit w) \<and>
     (if ok then (\<exists>c. ac_requests w' = queue_push c (ac_requests w)) \<and>
        ac_sequence_num w' = ac_sequence_num w + 1
      else ac_requests w' = ac_requests w) \<and>
     ac_in_flight_limit w' = ac_in_flight_limit w"

definition only_pushes :: "('n async_client, 'a) io \<Rightarrow> bool" where
  "only_pushes k \<longleftrightarrow> (\<forall>w r w'. k w = Some (r, w') \<longrightarrow>
     \<not> isl r \<and> (\<exists>c. w' = w\<lparr>ac_requests := queue_push c (ac_requests w)\<rparr>))"

lemma only_pushes_intros:
  "only_pushes (push_code c)" "only_pushes (ithen (push_code c) (iret x))"
  "only_pushes (ithen (push_code c) (\<lambda>w. if p w then None else Some (Inr x, w)))"
  by (auto simp: only_pushes_def push_code_apply ithen_Inr iret_apply split: if_splits)

lemma send_and_push:
  assumes "when_room (ibind next_sequence (\<lambda>s. ithen (on_wire (send s)) k)) w = Some (r, w')"
    and "only_pushes k"
  shows "call_effect w (\<not> isl r) w'"
proof -
  have room: "queue_size (ac_requests w) < sint (ac_in_flight_limit w)"
    and run: "ibind next_sequence (\<lambda>s. ithen (on_wire (send s)) k) w = Some (r, w')"
    using assms(1) by (auto simp: when_room_def split: if_splits)
  show ?thesis
  proof (cases "sint (ac_sequence_num w) = 2 ^ 31 - 1")
    case True
    with run room show ?thesis by (auto simp: next_sequence_def ibind_def call_effect_def)
  next
    case False
    define s where "s = set_client_seq_no (scast (ac_sequence_num w)) (ac_seq_id w)"
    define w1 where "w1 = w\<lparr>ac_seq_id := s, ac_sequence_num := ac_sequence_num w + 1\<rparr>"
    have "next_sequence w = Some (Inr s, w1)"
      using False by (simp add: next_sequence_def s_def w1_def Let_def)
    with run have 1: "ithen (on_wire (send s)) k w1 = Some (r, w')" by (simp add: ibind_Inr)
    then obtain r2 w2 where 2: "on_wire (send s) w1 = Some (r2, w2)"
      by (cases "on_wire (send s) w1") (auto simp: ithen_def ibind_None)
    obtain n where w2: "w2 = w1\<lparr>ac_net := n\<rparr>" using on_wire_cases [OF 2] by blast
    show ?thesis
    proof (cases r2)
      case (Inl e)
      with 1 2 have "r = Inl e" "w' = w2" by (auto simp: ithen_Inl)
      with w2 room show ?thesis by (simp add: w1_def call_effect_def)
    next
      case (Inr u)
      with 1 2 have "k w2 = Some (r, w')" by (simp add: ithen_Inr)
      with assms(2) obtain c where "\<not> isl r" "w' = w2\<lparr>ac_requests := queue_push c (ac_requests w2)\<rparr>"
        unfolding only_pushes_def by blast
      with w2 room show ?thesis by (auto simp: w1_def call_effect_def)
    qed
  qed
qed

lemma ithen_unit_cases:
  assumes "ithen m (iret ()) w = Some (r, w')"
  obtains r' where "m w = Some (r', w')" "isl r' = isl r"
  using assms by (cases "m w") (auto simp: ithen_def ibind_def iret_apply split: sum.split_asm)

lemmas get_effect = send_and_push [OF _ only_pushes_intros(2)]
lemmas put_effect = send_and_push [OF _ only_pushes_intros(1)]
lemmas get_batch_effect = send_and_push [OF _ only_pushes_intros(3)]

lemma async_call_effect:
  assumes "async_call P cl w = Some (r, w')"
  shows "call_effect w (\<not> isl r) w'"
proof (cases cl)
  case (Call_get k)
  with assms have "ithen (async_client_get P k) (iret ()) w = Some (r, w')" by simp
  then obtain r' where "async_client_get P k w = Some (r', w')" "isl r' = isl r" by (rule ithen_unit_cases)
  then show ?thesis unfolding async_client_get_def using get_effect by fastforce
next
  case (Call_put k v)
  with assms have "async_client_put P k v w = Some (r, w')" by simp
  then show ?thesis unfolding async_client_put_def by (rule put_effect)
next
  case (Call_get_batch ks)
  with assms have "ithen (async_client_get_batch P ks) (iret ()) w = Some (r, w')" by simp
  then obtain r' where "async_client_get_batch P ks w = Some (r', w')" "isl r' = isl r" by (rule ithen_unit_cases)
  then show ?thesis unfolding async_client_get_batch_def using get_batch_effect by fastforce
next
  case (Call_put_batch ks vs)
  with assms have "async_client_put_batch P ks vs w = Some (r, w')" by simp
  then show ?thesis unfolding async_client_put_batch_def by (rule put_effect)
qed

lemma read_responses_effect:
  assumes "read_responses_step P pt w = Some (Inr pt', w')"
  shows "ac_in_flight_limit w' = ac_in_flight_limit w \<and>
    (case pt of Waiting \<Rightarrow> (\<exists>c. queue_pop (ac_requests w) = Some (c, ac_requests w') \<and> pt' = Receiving c)
     | _ \<Rightarrow> ac_requests w' = ac_requests w \<and> receiving pt' = 0)"
proof (cases pt)
  case (Receiving c)
  let ?m = "icatch is_transport (ibind (on_wire (recv_response P)) (\<lambda>(rs, n). iret rs)) (iret [])"
  obtain rs w1 where 1: "?m w = Some (Inr rs, w1)" "pt' = Checking"
      "w' = w1\<lparr>ac_total := ac_total w1 + of_nat (length rs)\<rparr>"
    using assms Receiving
    by (auto simp: read_responses_step_def ibind_Inr_iff ithen_def imodify_apply iret_apply)
  then obtain r2 where "on_wire (recv_response P) w = Some (r2, w1)"
    by (cases "on_wire (recv_response P) w")
      (auto simp: icatch_def ibind_def iret_apply split: sum.split_asm if_splits)
  then obtain n where "w1 = w\<lparr>ac_net := n\<rparr>" by (rule on_wire_cases)
  with 1 Receiving show ?thesis by simp
qed (use assms in \<open>auto simp: read_responses_step_def iget_apply iret_apply split: option.splits if_splits\<close>)

text \<open>What a run keeps: every call that returned is queued, being read, or read.\<close>

definition in_flight :: "nat \<Rightarrow> nat \<Rightarrow> reader_point \<Rightarrow> 'n async_client \<Rightarrow> bool" where
  "in_flight c r pt w \<longleftrightarrow>
     queue_ok (ac_requests w) \<and> c = r + receiving pt + length (m_queue (ac_requests w)) \<and>
     int (length (m_queue (ac_requests w))) \<le> sint (ac_in_flight_limit w)"

lemma in_flight_run:
  assumes "client_run P w0 c f r pt w" and "ac_requests w0 = queue_new" and "0 \<le> sint (ac_in_flight_limit w0)"
  shows "in_flight c r pt w \<and> ac_in_flight_limit w = ac_in_flight_limit w0"
  using assms(1)
proof (induction rule: client_run.induct)
  case cr_start
  show ?case using assms(2,3) by (simp add: in_flight_def) (simp add: queue_new_def)
next
  case (cr_call c f r pt w cl w')
  from async_call_effect [OF cr_call.hyps(2)] obtain code where
      e: "ac_requests w' = queue_push code (ac_requests w)" "ac_in_flight_limit w' = ac_in_flight_limit w"
      "queue_size (ac_requests w) < sint (ac_in_flight_limit w)"
    by (auto simp: call_effect_def)
  have lim: "sint (ac_in_flight_limit w) < 2 ^ 31" using sint_lt [of "ac_in_flight_limit w"] by simp
  with cr_call.IH have "length (m_queue (ac_requests w)) < 2 ^ 31" by (auto simp: in_flight_def)
  with cr_call.IH have "queue_size (ac_requests w) = int (length (m_queue (ac_requests w)))"
    by (simp add: queue_size_length in_flight_def)
  with e cr_call.IH cppq.ok_enq show ?case by (auto simp: in_flight_def)
next
  case (cr_fail c f r pt w cl e w')
  from async_call_effect [OF cr_fail.hyps(2)] cr_fail.IH show ?case
    by (auto simp: call_effect_def in_flight_def)
next
  case (cr_read c f r pt w pt' w')
  note e = read_responses_effect [OF cr_read.hyps(2)]
  show ?case
  proof (cases pt)
    case Waiting
    with e obtain code where q: "queue_pop (ac_requests w) = Some (code, ac_requests w')" "pt' = Receiving code"
        "ac_in_flight_limit w' = ac_in_flight_limit w" by auto
    have ok: "queue_ok (ac_requests w)" using cr_read.IH by (simp add: in_flight_def)
    have "m_queue (ac_requests w) = code # m_queue (ac_requests w')" "queue_ok (ac_requests w')"
      using cppq.deq_Some [OF ok q(1)] by simp_all
    with q cr_read.IH Waiting show ?thesis by (auto simp: in_flight_def)
  qed (use e cr_read.IH in \<open>auto simp: in_flight_def\<close>)
qed

text \<open>A response that the proxy sent is read with its results.\<close>

context thrift_input begin

lemma recv_response_takes:
  assumes "value_ok (V_List rs)"
  shows "takes conn 3 (recv_response P) (message ''async_response'' T_ONEWAY 0 (response_value s c rs))
     (rs, sq_client_seq_no s)"
proof -
  let ?x = "\<lparr>ar_seq_id = s, ar_op_code = c, ar_result = rs,
       ar_isset_seq_id = True, ar_isset_op_code = True, ar_isset_result = True\<rparr>"
  have "takes conn 3 (ithen (end_reply P) (iret (rs, sq_client_seq_no s))) ([Tk_MessageEnd] @ []) (rs, sq_client_seq_no s)"
    by (rule takes_then [OF end_reply_takes takes_iret])
  then have "takes conn 3 (ibind (async_response_args_read P async_response_args_new) (\<lambda>(result, xfer).
         ithen (end_reply P) (if ar_isset_seq_id result \<and> ar_isset_result result
            then iret (ar_result result, sq_client_seq_no (ar_seq_id result)) else ithrow Undefined)))
      (value_tokens (response_value s c rs) @ [Tk_MessageEnd]) (rs, sq_client_seq_no s)"
    by (intro takes_bind [OF async_response_args_takes [OF assms]]) simp
  then have "takes conn 3 (recv_response P)
      ([Tk_Message ''async_response'' T_ONEWAY 0] @ value_tokens (response_value s c rs) @ [Tk_MessageEnd])
      (rs, sq_client_seq_no s)"
    unfolding recv_response_def by (intro takes_bind [OF takes_mono [OF in_message le0]]) simp
  then show ?thesis by (simp add: message_def)
qed

lemma read_responses_counts:
  assumes "value_ok (V_List rs)" and "conn (ac_net w) a h" and "w_in_depth a = 0"
    and "w_in a = message ''async_response'' T_ONEWAY 0 (response_value s c rs) @ rest"
  shows "\<exists>n'. read_responses_step P (Receiving c') w
      = Some (Inr Checking, w\<lparr>ac_net := n', ac_total := ac_total w + of_nat (length rs)\<rparr>) \<and>
    conn n' (a\<lparr>w_in := rest\<rparr>) h"
proof -
  obtain n' where n: "recv_response P (ac_net w) = Some (Inr (rs, sq_client_seq_no s), n')"
      "conn n' (a\<lparr>w_in := rest\<rparr>) h"
    using takesD [OF recv_response_takes [OF assms(1)] assms(2,4)] assms(3) by (auto simp: recursion_limit_def)
  then have "on_wire (recv_response P) w = Some (Inr (rs, sq_client_seq_no s), w\<lparr>ac_net := n'\<rparr>)"
    by (simp add: on_wire_def izoom_def)
  with n(2) show ?thesis
    by (intro exI [of _ n'])
      (simp add: read_responses_step_def ibind_Inr icatch_Inr ithen_Inr imodify_apply iret_apply)
qed

end

text \<open>
  \<open>finish\<close> releases the thread: with the codes it pushes, the thread leaves its loop after at
  most three more steps, if reading a response returns, as it does with a receive timeout.
\<close>

lemma finish_stops_reader:
  assumes "ac_done w" and "m_queue (ac_requests w) \<noteq> []"
    and "\<And>n. \<exists>r n'. recv_response P n = Some (r, n') \<and> (\<forall>e. r = Inl e \<longrightarrow> is_transport e)"
  shows "\<exists>w'. ibind (read_responses_step P pt)
      (\<lambda>pt1. ibind (read_responses_step P pt1) (read_responses_step P)) w = Some (Inr Stopped, w')"
proof -
  have stop: "read_responses_step P Stopped v = Some (Inr Stopped, v)" for v
    by (simp add: read_responses_step_def iret_apply)
  have check: "read_responses_step P Checking v = Some (Inr Stopped, v)" if "ac_done v" for v
    using that by (simp add: read_responses_step_def iget_apply)
  have recv: "\<exists>v'. read_responses_step P (Receiving c) v = Some (Inr Checking, v') \<and> ac_done v'"
    if "ac_done v" for v c
  proof -
    obtain r n' where "recv_response P (ac_net v) = Some (r, n')" "\<forall>e. r = Inl e \<longrightarrow> is_transport e"
      using assms(3) by blast
    then show ?thesis
      using that by (cases r) (auto simp: read_responses_step_def ibind_def icatch_def on_wire_def izoom_def
          ithen_def imodify_apply iret_apply)
  qed
  show ?thesis
  proof (cases pt)
    case Checking
    with assms(1) check stop show ?thesis by (simp add: ibind_Inr)
  next
    case Stopped
    with stop show ?thesis by (simp add: ibind_Inr)
  next
    case (Receiving c)
    with recv [OF assms(1), of c] check stop show ?thesis by (auto simp: ibind_Inr)
  next
    case Waiting
    obtain c q' where "queue_pop (ac_requests w) = Some (c, q')"
      using assms(2) by (cases "queue_pop (ac_requests w)") auto
    then have 1: "read_responses_step P Waiting w = Some (Inr (Receiving c), w\<lparr>ac_requests := q'\<rparr>)"
      by (simp add: read_responses_step_def)
    obtain v where "read_responses_step P (Receiving c) (w\<lparr>ac_requests := q'\<rparr>) = Some (Inr Checking, v)" "ac_done v"
      using recv [of "w\<lparr>ac_requests := q'\<rparr>" c] assms(1) by auto
    with 1 Waiting check show ?thesis by (simp add: ibind_Inr)
  qed
qed

end
