(* ===== verification/Util.thy ===== *)
theory Util
  imports Pancake_Prelude
begin

text \<open>
  \<^verbatim>\<open>proxy/src/util.cpp\<close>: the random helpers. The generators (\<open>std::mt19937\<close> behind
  \<open>rand_uint32\<close> and the C library's \<open>rand\<close>) are an explicit stream of draws that each
  call consumes from; a draw is reduced into the range the call asks for. A statement that
  holds for every stream holds for every behaviour of the generators.
\<close>

type_synonym rng = "nat stream"

definition RAND_MAX :: nat where
  "RAND_MAX = 2147483647"

definition rand_uint32 :: "nat \<Rightarrow> nat \<Rightarrow> rng \<Rightarrow> nat \<times> rng" where
  "rand_uint32 mn mx g = (mn + shd g mod (mx - mn + 1), stl g)"

text \<open>The C library's \<open>rand()\<close>.\<close>

definition c_rand :: "rng \<Rightarrow> nat \<times> rng" where
  "c_rand g = (shd g mod (RAND_MAX + 1), stl g)"

definition alphanum :: string where
  "alphanum = ''0123456789''"

fun rand_chars :: "nat \<Rightarrow> rng \<Rightarrow> string \<times> rng" where
  "rand_chars 0 g = ([], g)"
| "rand_chars (Suc k) g =
     (let (r, g1) = rand_uint32 0 500 g;
          (cs, g2) = rand_chars k g1
      in (alphanum ! (r mod 10) # cs, g2))"

definition rand_str :: "int \<Rightarrow> rng \<Rightarrow> (string \<times> rng) res" where
  "rand_str len g = (if len < 0 then Inl Length_error else Inr (rand_chars (nat len) g))"

definition prob :: "real \<Rightarrow> rng \<Rightarrow> bool \<times> rng" where
  "prob p g =
     (let r = rand_uint32 0 RAND_MAX g in (real (fst r) / (real RAND_MAX + 1) < p, snd r))"

text \<open>
  \<open>prob (a / b)\<close> for a quotient of \<open>double\<close>s. Division by zero gives an infinity with the
  sign of \<open>a\<close>, or NaN, which no draw is below.
\<close>

definition prob_quot :: "real \<Rightarrow> real \<Rightarrow> rng \<Rightarrow> bool \<times> rng" where
  "prob_quot a b g = (if b = 0 then (0 < a, stl g) else prob (a / b) g)"

section \<open>Ranges\<close>

lemma rand_uint32_range:
  "mn \<le> mx \<Longrightarrow> mn \<le> fst (rand_uint32 mn mx g) \<and> fst (rand_uint32 mn mx g) \<le> mx"
proof -
  assume le: "mn \<le> mx"
  have "shd g mod (mx - mn + 1) < mx - mn + 1"
    by (rule mod_less_divisor) simp
  with le show ?thesis
    unfolding rand_uint32_def fst_conv by linarith
qed

lemma c_rand_range: "fst (c_rand g) \<le> RAND_MAX"
  by (simp add: c_rand_def RAND_MAX_def flip: less_Suc_eq_le)

lemma snd_c_rand [simp]: "snd (c_rand g) = stl g"
  by (simp add: c_rand_def)

lemma snd_prob [simp]: "snd (prob p g) = stl g"
  by (simp add: prob_def rand_uint32_def)

lemma snd_prob_quot [simp]: "snd (prob_quot a b g) = stl g"
  by (simp add: prob_quot_def)

lemma prob_ge_1: "1 \<le> p \<Longrightarrow> fst (prob p g)"
proof -
  assume p: "1 \<le> p"
  have "fst (rand_uint32 0 RAND_MAX g) \<le> RAND_MAX"
    using rand_uint32_range [of 0 RAND_MAX g] by simp
  then have "real (fst (rand_uint32 0 RAND_MAX g)) / (real RAND_MAX + 1) < 1"
    by (simp add: RAND_MAX_def divide_less_eq)
  with p show ?thesis
    unfolding prob_def Let_def fst_conv by linarith
qed

lemma prob_le_0: "p \<le> 0 \<Longrightarrow> \<not> fst (prob p g)"
proof -
  assume p: "p \<le> 0"
  have "0 \<le> real (fst (rand_uint32 0 RAND_MAX g)) / (real RAND_MAX + 1)"
    by simp
  with p show ?thesis
    unfolding prob_def Let_def fst_conv by linarith
qed

lemma rand_chars_length: "length (fst (rand_chars k g)) = k"
  by (induction k arbitrary: g) (auto simp: Let_def split: prod.splits, metis fst_conv)

lemma set_alphanum_nth: "r < 10 \<Longrightarrow> is_digit (alphanum ! r)"
proof -
  assume "r < 10"
  then have "alphanum ! r \<in> set alphanum"
    by (intro nth_mem) (simp add: alphanum_def)
  then show ?thesis
    by (auto simp: alphanum_def is_digit_def)
qed

lemma rand_chars_digits: "c \<in> set (fst (rand_chars k g)) \<Longrightarrow> is_digit c"
proof (induction k arbitrary: g)
  case 0
  then show ?case by simp
next
  case (Suc k)
  obtain r g1 where r: "rand_uint32 0 500 g = (r, g1)" by fastforce
  obtain cs g2 where cs: "rand_chars k g1 = (cs, g2)" by fastforce
  from Suc.prems r cs consider "c = alphanum ! (r mod 10)" | "c \<in> set (fst (rand_chars k g1))"
    by auto
  then show ?case
    by cases (auto simp: set_alphanum_nth intro: Suc.IH)
qed

end
