(* ===== verification/Distribution.thy ===== *)
theory Distribution
  imports Util
begin

text \<open>
  \<^verbatim>\<open>proxy/src/distribution.cpp\<close>: a discrete distribution over keys. Probabilities are
  real numbers here: the rounding of \<open>double\<close> is not modelled. The draw of
  \<open>std::discrete_distribution\<close> is modelled by its support: every index of positive weight
  can be drawn and no other (an empty weight vector stands for the single index 0).
\<close>

record distribution =
  dist_items :: "string list"
  dist_probs :: "real list"

definition distribution_default :: distribution where
  "distribution_default = \<lparr>dist_items = [], dist_probs = []\<rparr>"

definition distribution_new :: "string list \<Rightarrow> real list \<Rightarrow> distribution" where
  "distribution_new items probabilities = \<lparr>dist_items = items, dist_probs = probabilities\<rparr>"

definition support :: "real list \<Rightarrow> nat list" where
  "support ws = filter (\<lambda>i. 0 < ws ! i) [0..<length ws]"

definition discrete_index :: "real list \<Rightarrow> rng \<Rightarrow> nat \<times> rng" where
  "discrete_index ws g =
     (if support ws = [] then 0 else support ws ! (shd g mod length (support ws)), stl g)"

definition sample :: "distribution \<Rightarrow> rng \<Rightarrow> (string \<times> rng) res" where
  "sample d g =
     (let (i, g') = discrete_index (dist_probs d) g
      in rbind (vec_at (dist_items d) (int i)) (\<lambda>x. Inr (x, g')))"

definition get_items :: "distribution \<Rightarrow> string list" where
  "get_items d = dist_items d"

definition get_probabilities :: "distribution \<Rightarrow> real list" where
  "get_probabilities d = dist_probs d"

lemma set_support: "set (support ws) = {i. i < length ws \<and> 0 < ws ! i}"
  by (auto simp: support_def)

lemma discrete_index_support:
  "support ws \<noteq> [] \<Longrightarrow> fst (discrete_index ws g) \<in> set (support ws)"
  by (simp add: discrete_index_def)

text \<open>A sampled item has positive weight.\<close>

lemma sample_positive:
  assumes "\<exists>i < length (dist_probs d). 0 < dist_probs d ! i"
    and "length (dist_probs d) \<le> length (dist_items d)"
  shows "\<exists>i x. i < length (dist_probs d) \<and> 0 < dist_probs d ! i \<and> x = dist_items d ! i \<and>
           sample d g = Inr (x, stl g)"
proof -
  define i where "i = fst (discrete_index (dist_probs d) g)"
  have "support (dist_probs d) \<noteq> []"
  proof
    assume "support (dist_probs d) = []"
    then have "set (support (dist_probs d)) = {}" by simp
    with assms(1) show False by (auto simp: set_support)
  qed
  then have "i \<in> set (support (dist_probs d))"
    unfolding i_def by (rule discrete_index_support)
  then have i: "i < length (dist_probs d)" "0 < dist_probs d ! i"
    by (auto simp: set_support)
  moreover have "sample d g = Inr (dist_items d ! i, stl g)"
  proof -
    have "discrete_index (dist_probs d) g = (i, stl g)"
      by (simp add: i_def discrete_index_def)
    with i assms(2) show ?thesis
      by (simp add: sample_def vec_at_def)
  qed
  ultimately show ?thesis by blast
qed

end
