(* ===== verification/Trace.thy ===== *)
theory Trace
  imports Distribution
begin

text \<open>
  The trace file of a workload, read by \<open>load_frequencies_from_trace\<close> of
  \<^verbatim>\<open>server/src/proxy_server.cpp\<close> and \<open>load_trace\<close> of \<^verbatim>\<open>benchmark/src/proxy_benchmark.cpp\<close>:
  lines \<open>GET key\<close> and \<open>PUT key value\<close> become batches of one kind each, and the server also
  counts the keys. \<open>loaded\<close> is the invariant of the loop over the lines.
\<close>

section \<open>Lines\<close>

text \<open>\<open>std::getline\<close> until the stream fails: a last line without a newline counts.\<close>

definition newline :: char where
  "newline = char_of (10 :: nat)"

definition space :: char where
  "space = char_of (32 :: nat)"

fun lines_from :: "string \<Rightarrow> string \<Rightarrow> string list" where
  "lines_from line [] = (if line = [] then [] else [line])"
| "lines_from line (c # cs) = (if c = newline then line # lines_from [] cs else lines_from (line @ [c]) cs)"

definition getlines :: "string \<Rightarrow> string list" where
  "getlines content = lines_from [] content"

text \<open>
  \<open>s.find(" ")\<close>, where \<open>None\<close> is \<open>npos\<close>, and the two substrings taken around it: with no
  space, \<open>substr(0, npos)\<close> is the whole string, and \<open>npos + 1\<close> wraps to 0, so that
  \<open>substr(npos + 1)\<close> is the whole string too.
\<close>

definition find_space :: "string \<Rightarrow> nat option" where
  "find_space s = (if space \<in> set s then Some (length (takeWhile (\<lambda>c. c \<noteq> space) s)) else None)"

definition before_space :: "string \<Rightarrow> string" where
  "before_space s = (case find_space s of None \<Rightarrow> s | Some i \<Rightarrow> take i s)"

definition after_space :: "string \<Rightarrow> string" where
  "after_space s = (case find_space s of None \<Rightarrow> s | Some i \<Rightarrow> drop (i + 1) s)"

text \<open>Operation, key and value of a line; the operation is not looked at.\<close>

definition parse_line :: "string \<Rightarrow> string \<times> string \<times> string" where
  "parse_line line =
     (let op = before_space line; k = after_space line
      in if find_space k \<noteq> None then (op, before_space k, after_space k) else (op, k, []))"

abbreviation line_key :: "string \<Rightarrow> string" where
  "line_key line \<equiv> fst (snd (parse_line line))"

abbreviation line_value :: "string \<Rightarrow> string" where
  "line_value line \<equiv> snd (snd (parse_line line))"

section \<open>Batches\<close>

type_synonym trace_vector = "(string list \<times> string list) list"

record loader =
  ld_trace :: trace_vector
  ld_get_keys :: "string list"
  ld_put_keys :: "string list"
  ld_put_values :: "string list"
  ld_key_to_frequency :: "string \<rightharpoonup> int"
  ld_frequency_sum :: int

definition loader_new :: "trace_vector \<Rightarrow> loader" where
  "loader_new trace =
     \<lparr>ld_trace = trace, ld_get_keys = [], ld_put_keys = [], ld_put_values = [],
      ld_key_to_frequency = Map.empty, ld_frequency_sum = 0\<rparr>"

text \<open>\<open>size() == client_batch_size\<close> converts the \<open>int\<close> to \<open>size_t\<close>.\<close>

definition batch_full :: "'a list \<Rightarrow> int \<Rightarrow> bool" where
  "batch_full xs client_batch_size \<longleftrightarrow> int (length xs) = client_batch_size mod 2 ^ 64"

definition add_get :: "int \<Rightarrow> string \<Rightarrow> loader \<Rightarrow> loader" where
  "add_get client_batch_size k t =
     (let get_keys = ld_get_keys t @ [k]
      in if batch_full get_keys client_batch_size
         then t\<lparr>ld_trace := ld_trace t @ [(get_keys, [])], ld_get_keys := []\<rparr>
         else t\<lparr>ld_get_keys := get_keys\<rparr>)"

definition add_put :: "int \<Rightarrow> string \<Rightarrow> string \<Rightarrow> loader \<Rightarrow> loader" where
  "add_put client_batch_size k val t =
     (let put_keys = ld_put_keys t @ [k]; put_values = ld_put_values t @ [val]
      in if batch_full put_keys client_batch_size
         then t\<lparr>ld_trace := ld_trace t @ [(put_keys, put_values)], ld_put_keys := [], ld_put_values := []\<rparr>
         else t\<lparr>ld_put_keys := put_keys, ld_put_values := put_values\<rparr>)"

text \<open>\<open>int\<close> counters; their overflow is undefined.\<close>

definition increment :: "int \<Rightarrow> int res" where
  "increment x = (if x < 2 ^ 31 - 1 then Inr (x + 1) else Inl Undefined)"

definition count_key :: "string \<Rightarrow> loader \<Rightarrow> loader res" where
  "count_key k t =
     rbind (case ld_key_to_frequency t k of None \<Rightarrow> Inr 1 | Some n \<Rightarrow> increment n) (\<lambda>n.
     rbind (increment (ld_frequency_sum t)) (\<lambda>total.
       Inr (t\<lparr>ld_key_to_frequency := (ld_key_to_frequency t)(k \<mapsto> n), ld_frequency_sum := total\<rparr>)))"

definition load_line :: "int \<Rightarrow> string \<Rightarrow> loader \<Rightarrow> loader res" where
  "load_line client_batch_size line t =
     (let (op, k, val) = parse_line line;
          t1 = (if val = [] then add_get client_batch_size k t else add_put client_batch_size k val t)
      in rbind (require (k \<noteq> ''PUT'') Assertion_failed) (\<lambda>_.
         rbind (require (k \<noteq> ''GET'') Assertion_failed) (\<lambda>_. count_key k t1)))"

fun load_lines :: "int \<Rightarrow> string list \<Rightarrow> loader \<Rightarrow> loader res" where
  "load_lines client_batch_size [] t = Inr t"
| "load_lines client_batch_size (line # lines) t =
     rbind (load_line client_batch_size line t) (load_lines client_batch_size lines)"

definition load_rest :: "loader \<Rightarrow> loader" where
  "load_rest t =
     (let t1 = (if 0 < length (ld_get_keys t)
                then t\<lparr>ld_trace := ld_trace t @ [(ld_get_keys t, [])], ld_get_keys := []\<rparr> else t)
      in if 0 < length (ld_put_keys t1)
         then t1\<lparr>ld_trace := ld_trace t1 @ [(ld_put_keys t1, ld_put_values t1)],
                 ld_put_keys := [], ld_put_values := []\<rparr>
         else t1)"

text \<open>
  A file that cannot be opened (\<open>None\<close>) is reported, and read as an empty one. \<open>order\<close> lists
  the entries of the hash table in the order it is iterated in.
\<close>

definition file_lines :: "string option \<Rightarrow> string list" where
  "file_lines f = (case f of None \<Rightarrow> [] | Some content \<Rightarrow> getlines content)"

definition load_frequencies_from_trace ::
    "((string \<rightharpoonup> int) \<Rightarrow> (string \<times> int) list) \<Rightarrow> string option \<Rightarrow> trace_vector \<Rightarrow> int \<Rightarrow>
     (distribution \<times> trace_vector) res" where
  "load_frequencies_from_trace order f trace client_batch_size =
     rbind (load_lines client_batch_size (file_lines f) (loader_new trace)) (\<lambda>t.
       let pairs = order (ld_key_to_frequency t);
           keys = map fst pairs;
           frequencies = map (\<lambda>(k, n). real_of_int n / real_of_int (ld_frequency_sum t)) pairs
       in Inr (distribution_new keys frequencies, ld_trace (load_rest t)))"

definition load_trace :: "string option \<Rightarrow> trace_vector \<Rightarrow> int \<Rightarrow> trace_vector res" where
  "load_trace f trace client_batch_size =
     rbind (load_lines client_batch_size (file_lines f) (loader_new trace)) (\<lambda>t. Inr (ld_trace (load_rest t)))"

section \<open>What the loop keeps\<close>

text \<open>What the lines ask for, and what a list of batches asks for.\<close>

definition gets_of :: "string list \<Rightarrow> string list" where
  "gets_of ls = map line_key (filter (\<lambda>l. line_value l = []) ls)"

definition puts_of :: "string list \<Rightarrow> (string \<times> string) list" where
  "puts_of ls = map (snd \<circ> parse_line) (filter (\<lambda>l. line_value l \<noteq> []) ls)"

definition batch_gets :: "trace_vector \<Rightarrow> string list" where
  "batch_gets tr = concat (map fst (filter (\<lambda>b. snd b = []) tr))"

definition batch_puts :: "trace_vector \<Rightarrow> (string \<times> string) list" where
  "batch_puts tr = concat (map (\<lambda>(ks, vs). zip ks vs) (filter (\<lambda>b. snd b \<noteq> []) tr))"

lemma batch_simps [simp]:
  "batch_gets [] = []" "batch_puts [] = []"
  "batch_gets (tr @ tr') = batch_gets tr @ batch_gets tr'"
  "batch_puts (tr @ tr') = batch_puts tr @ batch_puts tr'"
  "batch_gets [(ks, vs)] = (if vs = [] then ks else [])"
  "batch_puts [(ks, vs)] = (if vs = [] then [] else zip ks vs)"
  by (simp_all add: batch_gets_def batch_puts_def)

definition counts :: "'a list \<Rightarrow> 'a \<rightharpoonup> int" where
  "counts xs k = (if k \<in> set xs then Some (int (count_list xs k)) else None)"

definition batch_shaped :: "nat \<Rightarrow> string list \<times> string list \<Rightarrow> bool" where
  "batch_shaped n b \<longleftrightarrow>
     fst b \<noteq> [] \<and> length (fst b) \<le> n \<and> (snd b = [] \<or> length (snd b) = length (fst b))"

definition loaded :: "int \<Rightarrow> string list \<Rightarrow> loader \<Rightarrow> bool" where
  "loaded n ls t \<longleftrightarrow>
     batch_gets (ld_trace t) @ ld_get_keys t = gets_of ls \<and>
     batch_puts (ld_trace t) @ zip (ld_put_keys t) (ld_put_values t) = puts_of ls \<and>
     length (ld_put_values t) = length (ld_put_keys t) \<and>
     int (length (ld_get_keys t)) < n \<and> int (length (ld_put_keys t)) < n \<and>
     list_all (batch_shaped (nat n)) (ld_trace t) \<and>
     ld_key_to_frequency t = counts (map line_key ls) \<and> ld_frequency_sum t = int (length ls)"

lemma counts_snoc: "counts (xs @ [x]) = (counts xs)(x \<mapsto> (case counts xs x of None \<Rightarrow> 1 | Some n \<Rightarrow> n + 1))"
  by (auto simp: counts_def fun_eq_iff)

lemma add_get_loaded:
  assumes "loaded n ls t" and "0 < n" and "n < 2 ^ 31"
  shows "batch_gets (ld_trace (add_get n k t)) @ ld_get_keys (add_get n k t) = gets_of ls @ [k] \<and>
    int (length (ld_get_keys (add_get n k t))) < n \<and>
    list_all (batch_shaped (nat n)) (ld_trace (add_get n k t)) \<and>
    batch_puts (ld_trace (add_get n k t)) = batch_puts (ld_trace t)"
  using assms by (auto simp: add_get_def Let_def batch_full_def loaded_def batch_shaped_def)

lemma add_get_frame:
  "ld_put_keys (add_get n k t) = ld_put_keys t" "ld_put_values (add_get n k t) = ld_put_values t"
  "ld_key_to_frequency (add_get n k t) = ld_key_to_frequency t"
  "ld_frequency_sum (add_get n k t) = ld_frequency_sum t"
  by (simp_all add: add_get_def Let_def)

lemma add_put_loaded:
  assumes "loaded n ls t" and "0 < n" and "n < 2 ^ 31"
  shows "batch_puts (ld_trace (add_put n k v t)) @ zip (ld_put_keys (add_put n k v t)) (ld_put_values (add_put n k v t))
      = puts_of ls @ [(k, v)] \<and>
    length (ld_put_values (add_put n k v t)) = length (ld_put_keys (add_put n k v t)) \<and>
    int (length (ld_put_keys (add_put n k v t))) < n \<and>
    list_all (batch_shaped (nat n)) (ld_trace (add_put n k v t)) \<and>
    batch_gets (ld_trace (add_put n k v t)) = batch_gets (ld_trace t)"
  using assms by (auto simp: add_put_def Let_def batch_full_def loaded_def batch_shaped_def)

lemma add_put_frame:
  "ld_get_keys (add_put n k v t) = ld_get_keys t"
  "ld_key_to_frequency (add_put n k v t) = ld_key_to_frequency t"
  "ld_frequency_sum (add_put n k v t) = ld_frequency_sum t"
  by (simp_all add: add_put_def Let_def)

lemma load_line_loaded:
  assumes "loaded n ls t" and "0 < n" and "n < 2 ^ 31" and "length ls < 2 ^ 31 - 1"
    and "line_key l \<noteq> ''PUT''" and "line_key l \<noteq> ''GET''"
  shows "\<exists>t'. load_line n l t = Inr t' \<and> loaded n (ls @ [l]) t'"
proof -
  obtain op k v where p: "parse_line l = (op, k, v)" by (cases "parse_line l") auto
  define t1 where "t1 = (if v = [] then add_get n k t else add_put n k v t)"
  have f: "ld_key_to_frequency t1 = counts (map line_key ls)" "ld_frequency_sum t1 = int (length ls)"
    using assms(1) by (simp_all add: t1_def add_get_frame add_put_frame loaded_def)
  have "count_list (map line_key ls) k \<le> length ls"
    by (metis count_le_length length_map)
  with f assms(4) have c: "count_key k t1 = Inr (t1\<lparr>ld_key_to_frequency := counts (map line_key (ls @ [l])),
      ld_frequency_sum := int (length (ls @ [l]))\<rparr>)"
    using counts_snoc [of "map line_key ls" k]
    by (auto simp: count_key_def increment_def p counts_def)
  have "loaded n (ls @ [l]) (t1\<lparr>ld_key_to_frequency := counts (map line_key (ls @ [l])),
      ld_frequency_sum := int (length (ls @ [l]))\<rparr>)"
  proof (cases "v = []")
    case True
    with add_get_loaded [OF assms(1-3), of k] assms(1) p show ?thesis
      unfolding loaded_def by (simp add: t1_def add_get_frame gets_of_def puts_of_def)
  next
    case False
    with add_put_loaded [OF assms(1-3), of k v] assms(1) p show ?thesis
      unfolding loaded_def by (simp add: t1_def add_put_frame gets_of_def puts_of_def)
  qed
  with c show ?thesis
    using assms(5,6) by (simp add: load_line_def p t1_def Let_def)
qed

definition trace_lines :: "string list \<Rightarrow> bool" where
  "trace_lines ls \<longleftrightarrow> length ls < 2 ^ 31 \<and> (\<forall>l\<in>set ls. line_key l \<noteq> ''PUT'' \<and> line_key l \<noteq> ''GET'')"

lemma load_lines_loaded:
  assumes "loaded n ls t" and "0 < n" and "n < 2 ^ 31" and "trace_lines (ls @ ls')"
  shows "\<exists>t'. load_lines n ls' t = Inr t' \<and> loaded n (ls @ ls') t'"
  using assms(1,4)
proof (induction ls' arbitrary: ls t)
  case (Cons l ls')
  obtain t1 where "load_line n l t = Inr t1" "loaded n (ls @ [l]) t1"
    using load_line_loaded [OF Cons.prems(1) assms(2,3), of l] Cons.prems(2) by (auto simp: trace_lines_def)
  with Cons.IH [of "ls @ [l]" t1] Cons.prems(2) show ?case by auto
qed simp

lemma loaded_new: "0 < n \<Longrightarrow> loaded n [] (loader_new [])"
  by (simp add: loaded_def loader_new_def gets_of_def puts_of_def counts_def fun_eq_iff)

lemma load_rest_loaded:
  assumes "loaded n ls t" and "0 < n"
  shows "batch_gets (ld_trace (load_rest t)) = gets_of ls \<and> batch_puts (ld_trace (load_rest t)) = puts_of ls \<and>
    list_all (batch_shaped (nat n)) (ld_trace (load_rest t))"
  using assms by (auto simp: load_rest_def Let_def loaded_def batch_shaped_def)

text \<open>The lines of a proper trace load, into batches that ask for what the lines ask for.\<close>

lemma load_lines_returns:
  assumes "0 < n" and "n < 2 ^ 31" and "trace_lines ls"
  obtains t where "load_lines n ls (loader_new []) = Inr t" "loaded n ls t"
  using load_lines_loaded [OF loaded_new [OF assms(1)] assms(1,2), of ls] assms(3) by auto

section \<open>The distribution\<close>

definition lists_map :: "((string \<rightharpoonup> int) \<Rightarrow> (string \<times> int) list) \<Rightarrow> bool" where
  "lists_map order \<longleftrightarrow>
     (\<forall>m. finite (dom m) \<longrightarrow> map_of (order m) = m \<and> distinct (map fst (order m)))"

lemma lists_map_set:
  assumes "lists_map order" and "finite (dom m)"
  shows "set (order m) = {(k, v). m k = Some v}" and "fst ` set (order m) = dom m"
proof -
  have o: "map_of (order m) = m" "distinct (map fst (order m))"
    using assms by (auto simp: lists_map_def)
  show "set (order m) = {(k, v). m k = Some v}"
    using map_of_eq_Some_iff [OF o(2)] o(1) by auto
  show "fst ` set (order m) = dom m"
    using o(1) dom_map_of_conv_image_fst by metis
qed

lemma finite_dom_counts: "finite (dom (counts xs))"
  by (rule finite_subset [of _ "set xs"]) (auto simp: counts_def split: if_splits)

lemma dom_counts: "dom (counts xs) = set xs"
  by (auto simp: counts_def split: if_splits)

lemma sum_counts:
  assumes "lists_map order"
  shows "sum_list (map snd (order (counts xs))) = int (length xs)"
proof -
  note o = lists_map_set [OF assms finite_dom_counts [of xs]]
  have d: "distinct (map fst (order (counts xs)))"
    using assms finite_dom_counts by (auto simp: lists_map_def)
  have "sum_list (map snd (order (counts xs))) = sum_list (map (\<lambda>k. int (count_list xs k)) (map fst (order (counts xs))))"
    unfolding map_map
    by (rule arg_cong [where f = sum_list]) (use o(1) in \<open>auto simp: counts_def split: if_splits\<close>)
  also have "\<dots> = (\<Sum>k\<in>set (map fst (order (counts xs))). int (count_list xs k))"
    using d by (rule sum_list_distinct_conv_sum_set)
  also have "\<dots> = (\<Sum>k\<in>set xs. int (count_list xs k))"
    using o(2) by (simp add: dom_counts)
  also have "\<dots> = int (length xs)"
    using sum_count_set [of xs "set xs"] by (simp flip: of_nat_sum)
  finally show ?thesis .
qed

lemma sum_quotients: "sum_list (map (\<lambda>m. real_of_int m / c) ms) = real_of_int (sum_list ms) / c"
  by (induction ms) (simp_all add: add_divide_distrib)

lemma loaded_frequencies:
  assumes "loaded n ls t" and "ls \<noteq> []" and "lists_map order"
  defines "pairs \<equiv> order (ld_key_to_frequency t)"
  defines "fs \<equiv> map (\<lambda>(k, m). real_of_int m / real_of_int (ld_frequency_sum t)) pairs"
  shows "set (map fst pairs) = set (map line_key ls)" and "distinct (map fst pairs)"
    and "\<forall>f\<in>set fs. 0 < f" and "sum_list fs = 1"
    and "\<forall>i<length pairs. fs ! i = real (count_list (map line_key ls) (map fst pairs ! i)) / real (length ls)"
proof -
  let ?c = "counts (map line_key ls)"
  have p: "pairs = order ?c" and total: "ld_frequency_sum t = int (length ls)"
    using assms(1) by (simp_all add: loaded_def pairs_def)
  note o = lists_map_set [OF assms(3) finite_dom_counts [of "map line_key ls"]]
  show "set (map fst pairs) = set (map line_key ls)" using o(2) by (simp add: p dom_counts)
  show "distinct (map fst pairs)" using assms(3) finite_dom_counts by (auto simp: lists_map_def p)
  have entry: "m = int (count_list (map line_key ls) k) \<and> 0 < m" if "(k, m) \<in> set pairs" for k m
    using that o(1) count_list_0_iff [of "map line_key ls" k]
    by (auto simp: p counts_def split: if_splits)
  then show "\<forall>f\<in>set fs. 0 < f" using assms(2) by (fastforce simp: fs_def total)
  have "sum_list fs = sum_list (map (\<lambda>m. real_of_int m / real (length ls)) (map snd pairs))"
    by (simp add: fs_def total case_prod_beta' comp_def)
  also have "\<dots> = real_of_int (sum_list (map snd pairs)) / real (length ls)"
    by (rule sum_quotients)
  finally show "sum_list fs = 1" using sum_counts [OF assms(3)] assms(2) by (simp add: p)
  show "\<forall>i<length pairs. fs ! i = real (count_list (map line_key ls) (map fst pairs ! i)) / real (length ls)"
  proof (intro allI impI)
    fix i assume i: "i < length pairs"
    then have "(fst (pairs ! i), snd (pairs ! i)) \<in> set pairs" by simp
    from entry [OF this] i show "fs ! i = real (count_list (map line_key ls) (map fst pairs ! i)) / real (length ls)"
      by (simp add: fs_def total case_prod_beta)
  qed
qed

end
