(* ===== verification/Update_Cache.thy ===== *)
theory Update_Cache
  imports Util
begin

text \<open>
  \<^verbatim>\<open>proxy/src/update_cache.cpp\<close>: for each key, the value of its latest write and one bit
  per replica that says whether the replica still has to receive it. The
  \<open>libcuckoo::cuckoohash_map\<close> behind it is a finite map; \<open>erase_fn\<close>, \<open>update_fn\<close>,
  \<open>find_fn\<close> and \<open>uprase_fn\<close> run their function on one entry under the entry's lock, so
  each is one step. The contract the proxy relies on is the locale \<open>write_back_log\<close>,
  interpreted on this cache as \<open>ucache\<close>.
\<close>

type_synonym cache_entry = "string \<times> bool list"
type_synonym update_cache = "string \<rightharpoonup> cache_entry"

section \<open>Bit vectors\<close>

fun hamming_weight :: "bool list \<Rightarrow> int" where
  "hamming_weight [] = 0"
| "hamming_weight (b # bs) = (if b then 1 else 0) + hamming_weight bs"

fun num_leading_zeros :: "bool list \<Rightarrow> int" where
  "num_leading_zeros [] = 0"
| "num_leading_zeros (b # bs) = (if b then 0 else 1 + num_leading_zeros bs)"

lemma hamming_weight_ge_0 [simp]: "0 \<le> hamming_weight bs"
  by (induction bs) auto

lemma hamming_weight_0_iff: "hamming_weight bs = 0 \<longleftrightarrow> True \<notin> set bs"
  by (induction bs) (auto simp: add_nonneg_eq_0_iff)

lemma num_leading_zeros_bounds:
  "0 \<le> num_leading_zeros bs \<and> num_leading_zeros bs \<le> int (length bs)"
  by (induction bs) auto

lemma num_leading_zeros_length_iff:
  "num_leading_zeros bs = int (length bs) \<longleftrightarrow> True \<notin> set bs"
proof (induction bs)
  case Nil
  then show ?case by simp
next
  case (Cons b bs)
  then show ?case by (cases b) auto
qed

lemma num_leading_zeros_before:
  "int i < num_leading_zeros bs \<Longrightarrow> \<not> bs ! i"
proof (induction bs arbitrary: i)
  case Nil
  then show ?case by simp
next
  case (Cons b bs)
  then show ?case by (cases i) (auto split: if_splits)
qed

lemma num_leading_zeros_at:
  "num_leading_zeros bs < int (length bs) \<Longrightarrow> bs ! nat (num_leading_zeros bs)"
proof (induction bs)
  case Nil
  then show ?case by simp
next
  case (Cons b bs)
  then show ?case
    using num_leading_zeros_bounds [of bs] by (auto simp: nat_add_distrib)
qed

section \<open>Operations\<close>

definition update_cache_new :: update_cache where
  "update_cache_new = Map.empty"

fun update_cache_init :: "(string \<times> int) list \<Rightarrow> update_cache \<Rightarrow> update_cache res" where
  "update_cache_init [] m = Inr m"
| "update_cache_init ((k, n) # ps) m =
     rbind (mk_vector n False) (\<lambda>bits. update_cache_init ps (m(k \<mapsto> ([], bits))))"

definition update_cache_of :: "(string \<times> int) list \<Rightarrow> update_cache res" where
  "update_cache_of keys_replicas_pairs = update_cache_init keys_replicas_pairs Map.empty"

definition check_for_update :: "string \<Rightarrow> int \<Rightarrow> update_cache \<Rightarrow> (string \<times> update_cache) res" where
  "check_for_update k replica_id m =
     (case m k of
        None \<Rightarrow> Inr ([], m)
      | Some (v, bit_vec) \<Rightarrow>
          rbind (vec_at bit_vec replica_id) (\<lambda>b.
            let bit_vec' = (if b then bit_vec[nat replica_id := False] else bit_vec);
                to_send = (if b then v else [])
            in Inr (to_send,
                    if hamming_weight bit_vec' = 0 then m(k := None)
                    else m(k \<mapsto> (v, bit_vec')))))"

text \<open>The loop of \<open>edit_bit_vector_size\<close>: overwrite the new vector with the old bits.\<close>

fun copy_bits :: "bool list \<Rightarrow> bool list \<Rightarrow> bool list" where
  "copy_bits (old # olds) (new # news) = old # copy_bits olds news"
| "copy_bits _ news = news"

definition edit_bit_vector_size :: "string \<Rightarrow> int \<Rightarrow> update_cache \<Rightarrow> update_cache res" where
  "edit_bit_vector_size k sz m =
     (case m k of
        Some (v, bits) \<Rightarrow>
          rbind (mk_vector sz True) (\<lambda>new_bits. Inr (m(k \<mapsto> (v, copy_bits bits new_bits))))
      | None \<Rightarrow>
          rbind (mk_vector sz False) (\<lambda>new_bits. Inr (m(k \<mapsto> ([], new_bits)))))"

text \<open>\<open>insert_or_assign\<close> returns whether the key is new.\<close>

definition populate_replica_updates ::
    "string \<Rightarrow> string \<Rightarrow> int \<Rightarrow> update_cache \<Rightarrow> (bool \<times> update_cache) res" where
  "populate_replica_updates k v num_replicas m =
     rbind (mk_vector num_replicas True) (\<lambda>bits. Inr (m k = None, m(k \<mapsto> (v, bits))))"

text \<open>
  \<open>size_in_bytes\<close> and other loops over \<open>lock_table()\<close> take the entries in the order the
  table is iterated in, which is a list \<open>es\<close> with \<open>table_entries es m\<close>.
\<close>

definition table_entries :: "(string \<times> cache_entry) list \<Rightarrow> update_cache \<Rightarrow> bool" where
  "table_entries es m \<longleftrightarrow> distinct (map fst es) \<and> map_of es = m"

definition size_in_bytes :: "(string \<times> cache_entry) list \<Rightarrow> int" where
  "size_in_bytes locked_table =
     \<lfloor>foldl (\<lambda>acc e. acc + real (length (fst (snd e))) + real (length (snd (snd e))) / 8)
        0 locked_table\<rfloor>"

fun set_bits_from :: "int \<Rightarrow> nat \<Rightarrow> bool list \<Rightarrow> bool list res" where
  "set_bits_from i 0 bits = Inr bits"
| "set_bits_from i (Suc n) bits = rbind (vec_set bits i True) (set_bits_from (i + 1) n)"

definition mirror_update_cache ::
    "string \<Rightarrow> string \<Rightarrow> bool list \<Rightarrow> update_cache \<Rightarrow> (bool \<times> update_cache) res" where
  "mirror_update_cache k v bit_vec m =
     (case m k of
        Some (v0, bits) \<Rightarrow>
          (let i = num_leading_zeros bit_vec
           in rbind (set_bits_from i (nat (int (length bit_vec) - i)) bits)
                (\<lambda>bits'. Inr (True, m(k \<mapsto> (v0, bits')))))
      | None \<Rightarrow> Inr (True, m(k \<mapsto> (v, bit_vec))))"

definition check_if_missing ::
    "string \<Rightarrow> string \<Rightarrow> update_cache \<Rightarrow> update_cache \<Rightarrow> (update_cache \<times> update_cache) res" where
  "check_if_missing k v missing cache =
     (case missing k of
        None \<Rightarrow> Inr (missing, cache)
      | Some (_, bit_vec) \<Rightarrow>
          rbind (mirror_update_cache k v bit_vec cache)
            (\<lambda>(erase, cache'). Inr (if erase then missing(k := None) else missing, cache')))"

text \<open>\<open>rand() % n\<close>, a trap when \<open>n\<close> is 0. \<open>rand()\<close> is never negative.\<close>

definition rand_mod :: "int \<Rightarrow> rng \<Rightarrow> (int \<times> rng) res" where
  "rand_mod n g =
     (if n = 0 then Inl Division_by_zero
      else let (r, g') = c_rand g in Inr (int r mod \<bar>n\<bar>, g'))"

definition sample_a_replica ::
    "string \<Rightarrow> int \<Rightarrow> bool \<Rightarrow> int \<Rightarrow> real \<Rightarrow> update_cache \<Rightarrow> rng \<Rightarrow> (int \<times> rng) res" where
  "sample_a_replica k num_replicas access_is_real frequency p_max m g =
     (case m k of
        Some (_, bit_vec) \<Rightarrow>
          (let r_initialized = num_leading_zeros bit_vec
           in rbind (require (r_initialized \<le> num_replicas) Assertion_failed) (\<lambda>_.
                let (rep_exists, g1) =
                      prob_quot (real_of_int r_initialized * p_max - real_of_int frequency)
                        (real_of_int num_replicas * p_max - real_of_int frequency) g
                in if rep_exists \<or> access_is_real then rand_mod r_initialized g1
                   else rbind (rand_mod (num_replicas - r_initialized) g1)
                          (\<lambda>(x, g2). Inr (r_initialized + x, g2))))
      | None \<Rightarrow> rand_mod num_replicas g)"

section \<open>The contract: a write-back log\<close>

text \<open>
  \<open>pending c k i\<close> is the value replica \<open>i\<close> of \<open>k\<close> still has to receive. A write makes
  its value pending for every replica; an access takes what is pending for its replica,
  once.
\<close>

fun take_run ::
    "(int \<Rightarrow> 'c \<Rightarrow> ('v \<times> 'c) res) \<Rightarrow> int list \<Rightarrow> 'c \<Rightarrow> ('v list \<times> 'c) res" where
  "take_run tk [] c = Inr ([], c)"
| "take_run tk (i # is) c =
     rbind (tk i c) (\<lambda>(v, c1). rbind (take_run tk is c1) (\<lambda>(vs, c2). Inr (v # vs, c2)))"

locale write_back_log =
  fixes log_put :: "'k \<Rightarrow> 'v \<Rightarrow> int \<Rightarrow> 'c \<Rightarrow> (bool \<times> 'c) res"
    and log_take :: "'k \<Rightarrow> int \<Rightarrow> 'c \<Rightarrow> ('v \<times> 'c) res"
    and none :: 'v
    and pending :: "'c \<Rightarrow> 'k \<Rightarrow> int \<Rightarrow> 'v option"
    and sized :: "('k \<Rightarrow> int) \<Rightarrow> 'c \<Rightarrow> bool"
  assumes put_law: "sized R c \<Longrightarrow> 0 \<le> R k \<Longrightarrow>
      \<exists>b c'. log_put k v (R k) c = Inr (b, c') \<and> sized R c' \<and>
        pending c' = (pending c)(k := (\<lambda>i. if 0 \<le> i \<and> i < R k then Some v else None))"
    and take_law: "sized R c \<Longrightarrow> 0 \<le> i \<Longrightarrow> i < R k \<Longrightarrow>
      \<exists>c'. log_take k i c = Inr (case pending c k i of Some v \<Rightarrow> v | None \<Rightarrow> none, c') \<and>
        sized R c' \<and> pending c' = (pending c)(k := (pending c k)(i := None))"
begin

lemma take_run_pending:
  assumes "sized R c" and "distinct is" and "\<forall>i\<in>set is. 0 \<le> i \<and> i < R k"
  shows "\<exists>c'. take_run (log_take k) is c =
      Inr (map (\<lambda>i. case pending c k i of Some v \<Rightarrow> v | None \<Rightarrow> none) is, c') \<and>
    sized R c' \<and>
    pending c' = (pending c)(k := (\<lambda>i. if i \<in> set is then None else pending c k i))"
  using assms
proof (induction "is" arbitrary: c)
  case Nil
  then show ?case by auto
next
  case (Cons i "is")
  obtain c1 where c1: "log_take k i c = Inr (case pending c k i of Some v \<Rightarrow> v | None \<Rightarrow> none, c1)"
      "sized R c1" "pending c1 = (pending c)(k := (pending c k)(i := None))"
    using take_law [of R c i k] Cons.prems by auto
  obtain c2 where c2: "take_run (log_take k) is c1 =
        Inr (map (\<lambda>i. case pending c1 k i of Some v \<Rightarrow> v | None \<Rightarrow> none) is, c2)"
      "sized R c2" "pending c2 = (pending c1)(k := (\<lambda>i. if i \<in> set is then None else pending c1 k i))"
    using Cons.IH [OF c1(2)] Cons.prems(2,3) unfolding distinct.simps by (auto simp del: fun_upd_apply)
  have "map (\<lambda>i. case pending c1 k i of Some v \<Rightarrow> v | None \<Rightarrow> none) is
      = map (\<lambda>i. case pending c k i of Some v \<Rightarrow> v | None \<Rightarrow> none) is"
    using Cons.prems(2) c1(3) by auto
  moreover have "pending c2 = (pending c)(k := (\<lambda>j. if j \<in> set (i # is) then None else pending c k j))"
    using c1(3) c2(3) by (simp add: fun_eq_iff)
  ultimately show ?case
    using c1(1) c2(1,2) by (simp add: fun_upd_def)
qed

lemma put_then_take_all:
  assumes "sized R c" and "0 \<le> R k" and "distinct is" and "\<forall>i\<in>set is. 0 \<le> i \<and> i < R k"
  shows "\<exists>b c1 c2. log_put k v (R k) c = Inr (b, c1) \<and>
    take_run (log_take k) is c1 = Inr (replicate (length is) v, c2) \<and>
    (\<forall>i. pending c2 k i = (if 0 \<le> i \<and> i < R k \<and> i \<notin> set is then Some v else None))"
proof -
  obtain b c1 where p: "log_put k v (R k) c = Inr (b, c1)" "sized R c1"
      "pending c1 = (pending c)(k := (\<lambda>i. if 0 \<le> i \<and> i < R k then Some v else None))"
    using put_law [OF assms(1,2)] by blast
  obtain c2 where t: "take_run (log_take k) is c1 =
        Inr (map (\<lambda>i. case pending c1 k i of Some v \<Rightarrow> v | None \<Rightarrow> none) is, c2)"
      "pending c2 = (pending c1)(k := (\<lambda>i. if i \<in> set is then None else pending c1 k i))"
    using take_run_pending [OF p(2) assms(3,4)] by blast
  have "map (\<lambda>i. case pending c1 k i of Some v \<Rightarrow> v | None \<Rightarrow> none) is = replicate (length is) v"
    using assms(4) p(3) by (intro replicate_eqI) auto
  with p t show ?thesis by auto
qed

end

definition cache_pending :: "update_cache \<Rightarrow> string \<Rightarrow> int \<Rightarrow> string option" where
  "cache_pending m k i =
     (case m k of
        None \<Rightarrow> None
      | Some (v, bits) \<Rightarrow>
          if 0 \<le> i \<and> i < int (length bits) \<and> bits ! nat i then Some v else None)"

definition cache_sized :: "(string \<Rightarrow> int) \<Rightarrow> update_cache \<Rightarrow> bool" where
  "cache_sized R m \<longleftrightarrow> (\<forall>k v bits. m k = Some (v, bits) \<longrightarrow> int (length bits) = R k)"

lemma no_bit_no_pending:
  "hamming_weight bits = 0 \<Longrightarrow> 0 \<le> i \<Longrightarrow> i < int (length bits) \<Longrightarrow> \<not> bits ! nat i"
proof -
  assume "hamming_weight bits = 0" and i: "0 \<le> i" "i < int (length bits)"
  then have "True \<notin> set bits" by (simp add: hamming_weight_0_iff)
  moreover from i have "bits ! nat i \<in> set bits" by (intro nth_mem) linarith
  ultimately show ?thesis by metis
qed

lemma check_for_update_law:
  assumes "cache_sized R m" and "0 \<le> i" and "i < R k"
  shows "\<exists>m'. check_for_update k i m
      = Inr (case cache_pending m k i of Some v \<Rightarrow> v | None \<Rightarrow> [], m') \<and>
    cache_sized R m' \<and> cache_pending m' = (cache_pending m)(k := (cache_pending m k)(i := None))"
proof (cases "m k")
  case None
  then have "cache_pending m k = (\<lambda>_. None)"
    by (simp add: cache_pending_def fun_eq_iff)
  then have "cache_pending m = (cache_pending m)(k := (cache_pending m k)(i := None))"
    by (simp add: fun_eq_iff)
  with None assms show ?thesis
    by (auto simp: check_for_update_def cache_pending_def)
next
  case (Some e)
  obtain v bits where e: "e = (v, bits)" by (cases e)
  with Some assms have len: "int (length bits) = R k" by (auto simp: cache_sized_def)
  define bits' where "bits' = (if bits ! nat i then bits[nat i := False] else bits)"
  define m' where "m' = (if hamming_weight bits' = 0 then m(k := None) else m(k \<mapsto> (v, bits')))"
  have run: "check_for_update k i m = Inr (if bits ! nat i then v else [], m')"
    using Some e assms len
    by (simp add: check_for_update_def vec_at_def Let_def bits'_def m'_def)
  have val: "(if bits ! nat i then v else []) = (case cache_pending m k i of Some v \<Rightarrow> v | None \<Rightarrow> [])"
    using Some e assms len by (simp add: cache_pending_def)
  have len': "int (length bits') = R k" using len by (simp add: bits'_def)
  have at: "bits' ! nat j \<longleftrightarrow> bits ! nat j \<and> j \<noteq> i" if "0 \<le> j" "j < R k" for j
    using that assms len by (auto simp: bits'_def nth_list_update nat_eq_iff)
  have "cache_pending m' k j = ((cache_pending m k)(i := None)) j" for j
    using no_bit_no_pending [of bits' j] at [of j] Some e len len' assms
    by (auto simp: cache_pending_def m'_def)
  moreover have "cache_pending m' k0 = cache_pending m k0" if "k0 \<noteq> k" for k0
    using that by (simp add: cache_pending_def m'_def fun_eq_iff)
  ultimately have "cache_pending m' = (cache_pending m)(k := (cache_pending m k)(i := None))"
    by (simp add: fun_eq_iff)
  moreover have "cache_sized R m'"
    using assms(1) len' by (auto simp: cache_sized_def m'_def split: if_splits)
  ultimately show ?thesis using run val by simp
qed

interpretation ucache: write_back_log populate_replica_updates check_for_update "[]"
    cache_pending cache_sized
proof (unfold_locales, goal_cases)
  case (1 R c k v)
  define c' where "c' = c(k \<mapsto> (v, replicate (nat (R k)) True))"
  from 1 have "cache_sized R c'"
    by (auto simp: cache_sized_def c'_def)
  moreover from 1 have
    "cache_pending c' = (cache_pending c)(k := (\<lambda>i. if 0 \<le> i \<and> i < R k then Some v else None))"
    by (auto simp: cache_pending_def fun_eq_iff c'_def)
  moreover from 1 have "populate_replica_updates k v (R k) c = Inr (c k = None, c')"
    by (simp add: populate_replica_updates_def mk_vector_def c'_def)
  ultimately show ?case by blast
next
  case (2 R c i k)
  then show ?case by (rule check_for_update_law)
qed

section \<open>Sampling a replica\<close>

lemma rand_mod_range: "rand_mod n g = Inr (x, g') \<Longrightarrow> 0 \<le> x \<and> x < \<bar>n\<bar>"
  by (auto simp: rand_mod_def split_beta split: if_splits)

lemma rand_mod_total: "n \<noteq> 0 \<Longrightarrow> \<exists>x. rand_mod n g = Inr (x, stl g)"
  by (simp add: rand_mod_def split_beta c_rand_def)

lemma sample_a_replica_static:
  "m k = None \<Longrightarrow> sample_a_replica k n b f pm m g = rand_mod n g"
  by (simp add: sample_a_replica_def)

lemma sample_a_replica_range:
  assumes "sample_a_replica k n b f pm m g = Inr (r, g')" and "0 \<le> n"
  shows "0 \<le> r \<and> r < n"
proof (cases "m k")
  case None
  with assms show ?thesis
    using rand_mod_range by (fastforce simp: sample_a_replica_def)
next
  case (Some e)
  obtain v bits where e: "e = (v, bits)" by (cases e)
  have nz: "0 \<le> num_leading_zeros bits" by (simp add: num_leading_zeros_bounds)
  from assms Some e show ?thesis
    using nz
    by (auto simp: sample_a_replica_def Let_def split_beta rbind_Inr_iff require_Inr_iff
        split: if_splits dest!: rand_mod_range)
qed

text \<open>A real access only ever picks a replica before the first missing one.\<close>

lemma sample_a_replica_real:
  assumes "sample_a_replica k n True f pm m g = Inr (r, g')" and "m k = Some (v, bits)"
    and "cache_sized R m" and "R k = n"
  shows "0 \<le> r \<and> r < num_leading_zeros bits \<and> \<not> bits ! nat r"
proof -
  have nz: "0 \<le> num_leading_zeros bits" by (simp add: num_leading_zeros_bounds)
  from assms(1,2) nz have r: "0 \<le> r \<and> r < num_leading_zeros bits"
    by (auto simp: sample_a_replica_def Let_def split_beta rbind_Inr_iff require_Inr_iff
        dest!: rand_mod_range)
  then have "\<not> bits ! nat r"
    by (intro num_leading_zeros_before) simp
  with r show ?thesis by simp
qed

end
