(* ===== verification/Storage.thy ===== *)
theory Storage
  imports Pancake_Prelude "HOL-Library.Multiset"
begin

text \<open>
  \<^verbatim>\<open>libstorage/src\<close>: the storage interface and its two compiled implementations. The
  abstract class \<^verbatim>\<open>storage_interface.h\<close> is the record \<open>storage_interface\<close> of operations on
  a state; what callers rely on is the locale \<open>kv_storage\<close>. The client libraries
  \<open>cpp_redis\<close> and \<open>ssdb\<close> are not part of the repository: they are parameters
  (\<open>redis_client\<close>, \<open>ssdb_client\<close>), their documented behaviour is the locales
  \<open>redis_laws\<close> and \<open>ssdb_laws\<close>, and \<open>std::hash\<close> is a parameter as well.
\<close>

section \<open>The interface\<close>

record 'st storage_interface =
  si_get :: "'st \<Rightarrow> string \<Rightarrow> string res"
  si_put :: "'st \<Rightarrow> string \<Rightarrow> string \<Rightarrow> 'st res"
  si_get_batch :: "'st \<Rightarrow> string list \<Rightarrow> string list res"
  si_put_batch :: "'st \<Rightarrow> string list \<Rightarrow> string list \<Rightarrow> 'st res"

text \<open>Writing a batch in order: a later pair overwrites an earlier one.\<close>

definition put_all :: "(string \<rightharpoonup> string) \<Rightarrow> string list \<Rightarrow> string list \<Rightarrow> (string \<rightharpoonup> string)" where
  "put_all m ks vs = foldl (\<lambda>m (k, v). m(k \<mapsto> v)) m (zip ks vs)"

lemma put_all_Nil [simp]: "put_all m [] vs = m"
  by (simp add: put_all_def)

lemma put_all_Cons [simp]: "put_all m (k # ks) (v # vs) = put_all (m(k \<mapsto> v)) ks vs"
  by (simp add: put_all_def)

lemma put_all_append:
  "length ks = length vs \<Longrightarrow> put_all m (ks @ ks') (vs @ vs') = put_all (put_all m ks vs) ks' vs'"
  by (simp add: put_all_def)

lemma put_all_other: "k \<notin> set ks \<Longrightarrow> put_all m ks vs k = m k"
proof (induction ks arbitrary: m vs)
  case Nil
  then show ?case by simp
next
  case (Cons a ks)
  then show ?case by (cases vs) (auto simp: put_all_def)
qed

lemma put_all_nth:
  "distinct ks \<Longrightarrow> length ks = length vs \<Longrightarrow> i < length ks \<Longrightarrow> put_all m ks vs (ks ! i) = Some (vs ! i)"
proof (induction ks arbitrary: m vs i)
  case Nil
  then show ?case by simp
next
  case (Cons a ks)
  then obtain v vs' where vs: "vs = v # vs'" by (cases vs) auto
  with Cons show ?case by (cases i) (auto simp: put_all_other)
qed

lemma dom_put_all: "length ks = length vs \<Longrightarrow> dom (put_all m ks vs) = dom m \<union> set ks"
  by (induction ks vs arbitrary: m rule: list_induct2) auto

lemma put_all_replicate: "k \<in> set ks \<Longrightarrow> put_all m ks (replicate (length ks) v) k = Some v"
proof (induction ks arbitrary: m)
  case Nil
  then show ?case by simp
next
  case (Cons a ks)
  then show ?case by (cases "k \<in> set ks") (auto simp: put_all_other)
qed

locale kv_storage =
  fixes S :: "'st storage_interface"
    and view :: "'st \<Rightarrow> (string \<rightharpoonup> string)"
    and sound :: "'st \<Rightarrow> bool"
  assumes get_law: "sound s \<Longrightarrow> view s k = Some v \<Longrightarrow> si_get S s k = Inr v"
    and put_law: "sound s \<Longrightarrow>
      \<exists>s'. si_put S s k v = Inr s' \<and> sound s' \<and> view s' = (view s)(k \<mapsto> v)"
    and get_batch_law: "sound s \<Longrightarrow> set ks \<subseteq> dom (view s) \<Longrightarrow>
      si_get_batch S s ks = Inr (map (\<lambda>k. the (view s k)) ks)"
    and put_batch_law: "sound s \<Longrightarrow> length ks = length vs \<Longrightarrow>
      \<exists>s'. si_put_batch S s ks vs = Inr s' \<and> sound s' \<and> view s' = put_all (view s) ks vs"
begin

lemma put_get: "sound s \<Longrightarrow> \<exists>s'. si_put S s k v = Inr s' \<and> si_get S s' k = Inr v"
  using put_law [of s k v] get_law by fastforce

text \<open>A batch written under distinct keys reads back in the order it was written.\<close>

lemma batch_roundtrip:
  assumes "sound s" and "distinct ks" and "length ks = length vs"
  shows "\<exists>s'. si_put_batch S s ks vs = Inr s' \<and> sound s' \<and> si_get_batch S s' ks = Inr vs"
proof -
  obtain s' where s': "si_put_batch S s ks vs = Inr s'" "sound s'" "view s' = put_all (view s) ks vs"
    using put_batch_law assms(1,3) by blast
  have "set ks \<subseteq> dom (view s')"
    using s'(3) assms(3) by (simp add: dom_put_all)
  moreover have "map (\<lambda>k. the (view s' k)) ks = vs"
  proof (rule nth_equalityI)
    show "length (map (\<lambda>k. the (view s' k)) ks) = length vs" using assms(3) by simp
  next
    fix i assume "i < length (map (\<lambda>k. the (view s' k)) ks)"
    then show "map (\<lambda>k. the (view s' k)) ks ! i = vs ! i"
      using put_all_nth [OF assms(2,3), of i "view s"] by (simp add: s'(3))
  qed
  ultimately show ?thesis
    using s'(1,2) get_batch_law [of s' ks] by simp
qed

end

section \<open>Choosing a server\<close>

definition server_index :: "(string \<Rightarrow> nat) \<Rightarrow> nat \<Rightarrow> string \<Rightarrow> nat res" where
  "server_index hash n k = (if n = 0 then Inl Division_by_zero else Inr (hash k mod n))"

section \<open>RocksDB (ssdb)\<close>

text \<open>\<open>Inl\<close> is a status that is not \<open>ok\<close>, with its code.\<close>

record 'srv ssdb_client =
  ssdb_get :: "'srv \<Rightarrow> string \<Rightarrow> string + string"
  ssdb_set :: "'srv \<Rightarrow> string \<Rightarrow> string \<Rightarrow> string + 'srv"
  ssdb_connect :: "string \<Rightarrow> int \<Rightarrow> 'srv option"

definition rocksdb_new :: "'srv ssdb_client \<Rightarrow> string \<Rightarrow> int \<Rightarrow> 'srv list res" where
  "rocksdb_new C host_name port =
     (case ssdb_connect C host_name port of None \<Rightarrow> Inl (Exited (-1)) | Some c \<Rightarrow> Inr [c])"

definition rocksdb_add_server ::
    "'srv ssdb_client \<Rightarrow> 'srv list \<Rightarrow> string \<Rightarrow> int \<Rightarrow> 'srv list res" where
  "rocksdb_add_server C clients host_name port =
     (case ssdb_connect C host_name port of
        None \<Rightarrow> Inl (Exited (-1)) | Some c \<Rightarrow> Inr (clients @ [c]))"

definition rocksdb_get ::
    "'srv ssdb_client \<Rightarrow> (string \<Rightarrow> nat) \<Rightarrow> 'srv list \<Rightarrow> string \<Rightarrow> string res" where
  "rocksdb_get C hash clients k =
     rbind (server_index hash (length clients) k) (\<lambda>idx.
       case ssdb_get C (clients ! idx) k of Inl code \<Rightarrow> Inl (Runtime_error code) | Inr v \<Rightarrow> Inr v)"

definition rocksdb_put ::
    "'srv ssdb_client \<Rightarrow> (string \<Rightarrow> nat) \<Rightarrow> 'srv list \<Rightarrow> string \<Rightarrow> string \<Rightarrow> 'srv list res" where
  "rocksdb_put C hash clients k v =
     rbind (server_index hash (length clients) k) (\<lambda>idx.
       case ssdb_set C (clients ! idx) k v of
         Inl code \<Rightarrow> Inl (Runtime_error code)
       | Inr c' \<Rightarrow> Inr (clients[idx := c']))"

fun rocksdb_get_batch ::
    "'srv ssdb_client \<Rightarrow> (string \<Rightarrow> nat) \<Rightarrow> 'srv list \<Rightarrow> string list \<Rightarrow> string list res" where
  "rocksdb_get_batch C hash clients [] = Inr []"
| "rocksdb_get_batch C hash clients (k # ks) =
     rbind (rocksdb_get C hash clients k) (\<lambda>v.
       rbind (rocksdb_get_batch C hash clients ks) (\<lambda>vs. Inr (v # vs)))"

text \<open>\<open>values[i]\<close> past the end of \<open>values\<close> is out of range.\<close>

fun rocksdb_put_batch ::
    "'srv ssdb_client \<Rightarrow> (string \<Rightarrow> nat) \<Rightarrow> 'srv list \<Rightarrow> string list \<Rightarrow> string list \<Rightarrow> 'srv list res"
  where
  "rocksdb_put_batch C hash clients [] vs = Inr clients"
| "rocksdb_put_batch C hash clients (k # ks) [] = Inl Out_of_range"
| "rocksdb_put_batch C hash clients (k # ks) (v # vs) =
     rbind (rocksdb_put C hash clients k v) (\<lambda>clients'. rocksdb_put_batch C hash clients' ks vs)"

definition rocksdb :: "'srv ssdb_client \<Rightarrow> (string \<Rightarrow> nat) \<Rightarrow> 'srv list storage_interface" where
  "rocksdb C hash =
     \<lparr>si_get = rocksdb_get C hash, si_put = rocksdb_put C hash,
      si_get_batch = rocksdb_get_batch C hash, si_put_batch = rocksdb_put_batch C hash\<rparr>"

locale ssdb_laws =
  fixes C :: "'srv ssdb_client"
    and lookup :: "'srv \<Rightarrow> (string \<rightharpoonup> string)"
    and hash :: "string \<Rightarrow> nat"
  assumes ssdb_get_law: "lookup c k = Some v \<Longrightarrow> ssdb_get C c k = Inr v"
    and ssdb_set_law: "\<exists>c'. ssdb_set C c k v = Inr c' \<and> lookup c' = (lookup c)(k \<mapsto> v)"
begin

definition shard_view :: "'srv list \<Rightarrow> (string \<rightharpoonup> string)" where
  "shard_view cs k = lookup (cs ! (hash k mod length cs)) k"

lemma shard_get:
  "cs \<noteq> [] \<Longrightarrow> shard_view cs k = Some v \<Longrightarrow> rocksdb_get C hash cs k = Inr v"
  by (simp add: rocksdb_get_def server_index_def shard_view_def ssdb_get_law)

lemma shard_put:
  assumes "cs \<noteq> []"
  shows "\<exists>cs'. rocksdb_put C hash cs k v = Inr cs' \<and> cs' \<noteq> [] \<and>
    shard_view cs' = (shard_view cs)(k \<mapsto> v)"
proof -
  define i where "i = hash k mod length cs"
  have i: "i < length cs" using assms by (simp add: i_def)
  obtain c' where c': "ssdb_set C (cs ! i) k v = Inr c'" "lookup c' = (lookup (cs ! i))(k \<mapsto> v)"
    using ssdb_set_law by blast
  have "shard_view (cs[i := c']) x = ((shard_view cs)(k \<mapsto> v)) x" for x
    using i c'(2) by (cases "hash x mod length cs = i") (auto simp: shard_view_def i_def)
  moreover have "rocksdb_put C hash cs k v = Inr (cs[i := c'])"
    using assms c'(1) by (simp add: rocksdb_put_def server_index_def i_def)
  ultimately show ?thesis using assms by (auto simp: fun_eq_iff)
qed

lemma shard_get_batch:
  "cs \<noteq> [] \<Longrightarrow> set ks \<subseteq> dom (shard_view cs) \<Longrightarrow>
    rocksdb_get_batch C hash cs ks = Inr (map (\<lambda>k. the (shard_view cs k)) ks)"
  by (induction ks) (auto simp: shard_get dom_def)

lemma shard_put_batch:
  "length ks = length vs \<Longrightarrow> cs \<noteq> [] \<Longrightarrow>
    \<exists>cs'. rocksdb_put_batch C hash cs ks vs = Inr cs' \<and> cs' \<noteq> [] \<and>
      shard_view cs' = put_all (shard_view cs) ks vs"
proof (induction ks vs arbitrary: cs rule: list_induct2)
  case Nil
  then show ?case by simp
next
  case (Cons k ks v vs)
  obtain cs1 where cs1: "rocksdb_put C hash cs k v = Inr cs1" "cs1 \<noteq> []"
      "shard_view cs1 = (shard_view cs)(k \<mapsto> v)"
    using shard_put [OF Cons.prems] by blast
  obtain cs' where "rocksdb_put_batch C hash cs1 ks vs = Inr cs'" "cs' \<noteq> []"
      "shard_view cs' = put_all (shard_view cs1) ks vs"
    using Cons.IH [OF cs1(2)] by blast
  with cs1 show ?case by simp
qed

end

sublocale ssdb_laws \<subseteq> rocks: kv_storage "rocksdb C hash" shard_view "\<lambda>cs. cs \<noteq> []"
  by unfold_locales
    (auto simp: rocksdb_def shard_get shard_get_batch intro: shard_put shard_put_batch)

context ssdb_laws begin

lemma batch_reads_back:
  "cs \<noteq> [] \<Longrightarrow> distinct ks \<Longrightarrow> length ks = length vs \<Longrightarrow>
   \<exists>cs'. rocksdb_put_batch C hash cs ks vs = Inr cs' \<and> cs' \<noteq> [] \<and>
     rocksdb_get_batch C hash cs' ks = Inr vs"
  using rocks.batch_roundtrip [of cs ks vs] by (simp add: rocksdb_def)

end

end
