(* ===== verification/Redis_Storage.thy ===== *)
theory Redis_Storage
  imports Storage
begin

text \<open>
  \<^verbatim>\<open>libstorage/src/redis.cpp\<close> over one or more servers, and the in-memory servers on which
  the storage locales are interpreted. A batch is grouped by server, one \<open>MGET\<close>/\<open>MSET\<close> per
  group; the groups are visited in the order of an \<open>unordered_map\<close>, which is the
  parameter \<open>order\<close> (a permutation of the server ids).
\<close>

datatype reply =
    Reply_error string
  | Reply_string string
  | Reply_null
  | Reply_array "reply list"

fun is_error :: "reply \<Rightarrow> bool" where
  "is_error (Reply_error _) = True"
| "is_error _ = False"

text \<open>\<open>error()\<close>, \<open>as_string()\<close> and \<open>as_array()\<close> throw on a reply of another kind.\<close>

fun reply_error :: "reply \<Rightarrow> string" where
  "reply_error (Reply_error e) = e"
| "reply_error _ = []"

fun as_string :: "reply \<Rightarrow> string res" where
  "as_string (Reply_string s) = Inr s"
| "as_string (Reply_error s) = Inr s"
| "as_string _ = Inl (Runtime_error ''Reply is not a string'')"

fun as_array :: "reply \<Rightarrow> reply list res" where
  "as_array (Reply_array rs) = Inr rs"
| "as_array _ = Inl (Runtime_error ''Reply is not an array'')"

record 'srv redis_client =
  redis_connect :: "string \<Rightarrow> int \<Rightarrow> 'srv option"
  redis_GET :: "'srv \<Rightarrow> string \<Rightarrow> reply"
  redis_SET :: "'srv \<Rightarrow> string \<Rightarrow> string \<Rightarrow> reply \<times> 'srv"
  redis_MGET :: "'srv \<Rightarrow> string list \<Rightarrow> reply"
  redis_MSET :: "'srv \<Rightarrow> (string \<times> string) list \<Rightarrow> reply \<times> 'srv"

section \<open>Connections and single keys\<close>

definition redis_new :: "'srv redis_client \<Rightarrow> string \<Rightarrow> int \<Rightarrow> 'srv list res" where
  "redis_new C host_name port =
     (case redis_connect C host_name port of None \<Rightarrow> Inl (Exited (-1)) | Some c \<Rightarrow> Inr [c])"

definition redis_add_server ::
    "'srv redis_client \<Rightarrow> 'srv list \<Rightarrow> string \<Rightarrow> int \<Rightarrow> 'srv list res" where
  "redis_add_server C clients host_name port =
     (case redis_connect C host_name port of
        None \<Rightarrow> Inl (Exited (-1)) | Some c \<Rightarrow> Inr (clients @ [c]))"

definition redis_get ::
    "'srv redis_client \<Rightarrow> (string \<Rightarrow> nat) \<Rightarrow> 'srv list \<Rightarrow> string \<Rightarrow> string res" where
  "redis_get C hash clients k =
     rbind (server_index hash (length clients) k) (\<lambda>idx.
       let reply = redis_GET C (clients ! idx) k
       in if is_error reply then Inl (Runtime_error (reply_error reply)) else as_string reply)"

definition redis_put ::
    "'srv redis_client \<Rightarrow> (string \<Rightarrow> nat) \<Rightarrow> 'srv list \<Rightarrow> string \<Rightarrow> string \<Rightarrow> 'srv list res" where
  "redis_put C hash clients k v =
     rbind (server_index hash (length clients) k) (\<lambda>idx.
       let (reply, c') = redis_SET C (clients ! idx) k v
       in if is_error reply then Inl (Runtime_error (reply_error reply))
          else Inr (clients[idx := c']))"

section \<open>Batches\<close>

text \<open>\<open>m[id].emplace_back(x)\<close> on the map of groups, kept as an association list.\<close>

fun bucket_add :: "nat \<Rightarrow> 'a \<Rightarrow> (nat \<times> 'a list) list \<Rightarrow> (nat \<times> 'a list) list" where
  "bucket_add i x [] = [(i, [x])]"
| "bucket_add i x ((j, xs) # bs) =
     (if i = j then (j, xs @ [x]) # bs else (j, xs) # bucket_add i x bs)"

definition iterate_buckets ::
    "(nat list \<Rightarrow> nat list) \<Rightarrow> (nat \<times> 'a list) list \<Rightarrow> (nat \<times> 'a list) list" where
  "iterate_buckets order bs =
     map (\<lambda>i. (i, case map_of bs i of Some xs \<Rightarrow> xs | None \<Rightarrow> [])) (order (map fst bs))"

fun group_keys ::
    "(string \<Rightarrow> nat) \<Rightarrow> nat \<Rightarrow> string list \<Rightarrow> (nat \<times> string list) list \<Rightarrow>
     (nat \<times> string list) list res" where
  "group_keys hash n [] key_vectors = Inr key_vectors"
| "group_keys hash n (k # ks) key_vectors =
     rbind (server_index hash n k) (\<lambda>i. group_keys hash n ks (bucket_add i k key_vectors))"

fun group_pairs ::
    "(string \<Rightarrow> nat) \<Rightarrow> nat \<Rightarrow> string list \<Rightarrow> string list \<Rightarrow>
     (nat \<times> (string \<times> string) list) list \<Rightarrow> (nat \<times> (string \<times> string) list) list res" where
  "group_pairs hash n [] vs pairs = Inr pairs"
| "group_pairs hash n (k # ks) [] pairs = Inl Out_of_range"
| "group_pairs hash n (k # ks) (v # vs) pairs =
     rbind (server_index hash n k) (\<lambda>i. group_pairs hash n ks vs (bucket_add i (k, v) pairs))"

fun nested_strings :: "reply list \<Rightarrow> string list res" where
  "nested_strings [] = Inr []"
| "nested_strings (r # rs) =
     (if is_error r then Inl (Runtime_error (reply_error r))
      else rbind (as_string r) (\<lambda>s. rbind (nested_strings rs) (\<lambda>ss. Inr (s # ss))))"

definition reply_strings :: "reply \<Rightarrow> string list res" where
  "reply_strings reply =
     (if is_error reply then Inl (Runtime_error (reply_error reply))
      else rbind (as_array reply) nested_strings)"

text \<open>
  \<open>for (int i = 0; i < futures.size(); i++)\<close> with a \<open>futures.pop()\<close> in its body: the
  bound shrinks while the counter grows.
\<close>

fun collect_replies :: "nat \<Rightarrow> reply list \<Rightarrow> string list \<Rightarrow> string list res" where
  "collect_replies i [] return_vector = Inr return_vector"
| "collect_replies i (reply # futures) return_vector =
     (if i < length (reply # futures) then
        rbind (reply_strings reply) (\<lambda>ss.
          collect_replies (Suc i) futures (return_vector @ ss))
      else Inr return_vector)"

fun check_replies :: "nat \<Rightarrow> reply list \<Rightarrow> unit res" where
  "check_replies i [] = Inr ()"
| "check_replies i (reply # futures) =
     (if i < length (reply # futures) then
        if is_error reply then Inl (Runtime_error (reply_error reply))
        else check_replies (Suc i) futures
      else Inr ())"

definition redis_get_batch ::
    "'srv redis_client \<Rightarrow> (string \<Rightarrow> nat) \<Rightarrow> (nat list \<Rightarrow> nat list) \<Rightarrow> 'srv list \<Rightarrow> string list \<Rightarrow>
     string list res" where
  "redis_get_batch C hash order clients ks =
     rbind (group_keys hash (length clients) ks []) (\<lambda>key_vectors.
       let futures = map (\<lambda>(i, xs). redis_MGET C (clients ! i) xs)
                       (iterate_buckets order key_vectors)
       in collect_replies 0 futures [])"

text \<open>The commands reach every server, whatever their replies are.\<close>

fun mset_all ::
    "'srv redis_client \<Rightarrow> (nat \<times> (string \<times> string) list) list \<Rightarrow> 'srv list \<Rightarrow> reply list \<times> 'srv list"
  where
  "mset_all C [] clients = ([], clients)"
| "mset_all C ((i, ps) # bs) clients =
     (let (reply, c') = redis_MSET C (clients ! i) ps;
          (replies, clients') = mset_all C bs (clients[i := c'])
      in (reply # replies, clients'))"

definition redis_put_batch ::
    "'srv redis_client \<Rightarrow> (string \<Rightarrow> nat) \<Rightarrow> (nat list \<Rightarrow> nat list) \<Rightarrow> 'srv list \<Rightarrow>
     string list \<Rightarrow> string list \<Rightarrow> 'srv list res" where
  "redis_put_batch C hash order clients ks vs =
     rbind (group_pairs hash (length clients) ks vs []) (\<lambda>pairs.
       let (futures, clients') = mset_all C (iterate_buckets order pairs) clients
       in rbind (check_replies 0 futures) (\<lambda>_. Inr clients'))"

definition redis ::
    "'srv redis_client \<Rightarrow> (string \<Rightarrow> nat) \<Rightarrow> (nat list \<Rightarrow> nat list) \<Rightarrow> 'srv list storage_interface"
  where
  "redis C hash order =
     \<lparr>si_get = redis_get C hash, si_put = redis_put C hash,
      si_get_batch = redis_get_batch C hash order, si_put_batch = redis_put_batch C hash order\<rparr>"

section \<open>How many replies the loop reads\<close>

fun gather :: "reply list \<Rightarrow> string list res" where
  "gather [] = Inr []"
| "gather (r # rs) =
     rbind (reply_strings r) (\<lambda>ss. rbind (gather rs) (\<lambda>ts. Inr (ss @ ts)))"

lemma collect_replies_gather:
  "collect_replies i futures acc =
     rbind (gather (take ((length futures + 1 - i) div 2) futures)) (\<lambda>vs. Inr (acc @ vs))"
proof (induction i futures acc rule: collect_replies.induct)
  case (1 i acc)
  then show ?case by simp
next
  case (2 i reply futures acc)
  show ?case
  proof (cases "i < length (reply # futures)")
    case True
    then have "(length (reply # futures) + 1 - i) div 2 = Suc ((length futures + 1 - Suc i) div 2)"
      by (simp add: Suc_diff_le)
    with True 2 show ?thesis
      by (cases "reply_strings reply") (simp_all add: rbind_assoc)
  next
    case False
    then have "(length (reply # futures) + 1 - i) div 2 = 0" by simp
    with False show ?thesis by simp
  qed
qed

section \<open>One server\<close>

locale redis_laws =
  fixes C :: "'srv redis_client"
    and lookup :: "'srv \<Rightarrow> (string \<rightharpoonup> string)"
    and hash :: "string \<Rightarrow> nat"
    and order :: "nat list \<Rightarrow> nat list"
  assumes GET_law: "lookup c k = Some v \<Longrightarrow> redis_GET C c k = Reply_string v"
    and SET_law: "\<exists>r c'. redis_SET C c k v = (r, c') \<and> \<not> is_error r \<and> lookup c' = (lookup c)(k \<mapsto> v)"
    and MGET_law: "redis_MGET C c ks =
      Reply_array (map (\<lambda>k. case lookup c k of Some v \<Rightarrow> Reply_string v | None \<Rightarrow> Reply_null) ks)"
    and MSET_law: "\<exists>r c'. redis_MSET C c ps = (r, c') \<and> \<not> is_error r \<and>
      lookup c' = put_all (lookup c) (map fst ps) (map snd ps)"
    and order_law: "mset (order ids) = mset ids"
begin

lemma order_single: "order [i] = [i]"
  using order_law [of "[i]"] by simp

lemma order_Nil: "order [] = []"
  using order_law [of "[]"] by simp

lemma group_keys_single_acc:
  "group_keys hash (Suc 0) ks [(0, xs)] = Inr [(0, xs @ ks)]"
  by (induction ks arbitrary: xs) (simp_all add: server_index_def)

lemma group_keys_single:
  "group_keys hash (Suc 0) ks [] = Inr (if ks = [] then [] else [(0, ks)])"
  by (cases ks) (simp_all add: server_index_def group_keys_single_acc)

lemma group_pairs_single_acc:
  "length ks = length vs \<Longrightarrow>
   group_pairs hash (Suc 0) ks vs [(0, xs)] = Inr [(0, xs @ zip ks vs)]"
  by (induction ks vs arbitrary: xs rule: list_induct2) (simp_all add: server_index_def)

lemma group_pairs_single:
  "length ks = length vs \<Longrightarrow>
   group_pairs hash (Suc 0) ks vs [] = Inr (if ks = [] then [] else [(0, zip ks vs)])"
  by (cases ks; cases vs) (simp_all add: server_index_def group_pairs_single_acc)

lemma nested_strings_lookup:
  "set ks \<subseteq> dom (lookup c) \<Longrightarrow>
   nested_strings (map (\<lambda>k. case lookup c k of Some v \<Rightarrow> Reply_string v | None \<Rightarrow> Reply_null) ks)
     = Inr (map (\<lambda>k. the (lookup c k)) ks)"
  by (induction ks) auto

lemma redis_get_batch_single:
  "set ks \<subseteq> dom (lookup c) \<Longrightarrow>
   redis_get_batch C hash order [c] ks = Inr (map (\<lambda>k. the (lookup c k)) ks)"
  by (cases "ks = []")
    (simp_all add: redis_get_batch_def group_keys_single iterate_buckets_def order_single order_Nil MGET_law
      reply_strings_def nested_strings_lookup)

lemma redis_put_batch_single:
  assumes "length ks = length vs"
  shows "\<exists>c'. redis_put_batch C hash order [c] ks vs = Inr [c'] \<and>
    lookup c' = put_all (lookup c) ks vs"
proof (cases "ks = []")
  case True
  with assms show ?thesis
    by (simp add: redis_put_batch_def group_pairs_single iterate_buckets_def order_single order_Nil)
next
  case False
  obtain r c' where "redis_MSET C c (zip ks vs) = (r, c')" "\<not> is_error r"
      "lookup c' = put_all (lookup c) ks vs"
    using MSET_law [of c "zip ks vs"] assms by auto
  with False assms show ?thesis
    by (simp add: redis_put_batch_def group_pairs_single iterate_buckets_def order_single order_Nil)
qed

end

sublocale redis_laws \<subseteq> redis1:
  kv_storage "redis C hash order" "\<lambda>cs. lookup (cs ! 0)" "\<lambda>cs. length cs = 1"
proof (unfold_locales, goal_cases)
  case (1 s k v)
  then show ?case
    by (simp add: redis_def redis_get_def server_index_def GET_law)
next
  case (2 s k v)
  obtain c where s: "s = [c]" using 2 by (auto simp: length_Suc_conv)
  obtain r c' where "redis_SET C c k v = (r, c')" "\<not> is_error r" "lookup c' = (lookup c)(k \<mapsto> v)"
    using SET_law by blast
  with s show ?case
    by (simp add: redis_def redis_put_def server_index_def)
next
  case (3 s ks)
  then show ?case
    by (auto simp: redis_def redis_get_batch_single length_Suc_conv)
next
  case (4 s ks vs)
  then show ?case
    using redis_put_batch_single by (fastforce simp: redis_def length_Suc_conv)
qed

context redis_laws begin

lemma batch_reads_back:
  "length cs = 1 \<Longrightarrow> distinct ks \<Longrightarrow> length ks = length vs \<Longrightarrow>
   \<exists>cs'. redis_put_batch C hash order cs ks vs = Inr cs' \<and> length cs' = 1 \<and>
     redis_get_batch C hash order cs' ks = Inr vs"
  using redis1.batch_roundtrip [of cs ks vs] by (simp add: redis_def)

end

section \<open>In-memory servers\<close>

definition mem_redis :: "(string \<rightharpoonup> string) redis_client" where
  "mem_redis =
     \<lparr>redis_connect = (\<lambda>_ _. Some Map.empty),
      redis_GET = (\<lambda>m k. case m k of Some v \<Rightarrow> Reply_string v | None \<Rightarrow> Reply_null),
      redis_SET = (\<lambda>m k v. (Reply_string ''OK'', m(k \<mapsto> v))),
      redis_MGET = (\<lambda>m ks. Reply_array
        (map (\<lambda>k. case m k of Some v \<Rightarrow> Reply_string v | None \<Rightarrow> Reply_null) ks)),
      redis_MSET = (\<lambda>m ps. (Reply_string ''OK'', put_all m (map fst ps) (map snd ps)))\<rparr>"

definition mem_ssdb :: "(string \<rightharpoonup> string) ssdb_client" where
  "mem_ssdb =
     \<lparr>ssdb_get = (\<lambda>m k. case m k of Some v \<Rightarrow> Inr v | None \<Rightarrow> Inl ''not_found''),
      ssdb_set = (\<lambda>m k v. Inr (m(k \<mapsto> v))),
      ssdb_connect = (\<lambda>_ _. Some Map.empty)\<rparr>"

interpretation mem_redis: redis_laws mem_redis "\<lambda>m. m" hash "\<lambda>ids. ids" for hash
  by unfold_locales (simp_all add: mem_redis_def)

interpretation mem_rocks: ssdb_laws mem_ssdb "\<lambda>m. m" hash for hash
  by unfold_locales (simp_all add: mem_ssdb_def)

end
