(* ===== verification/Encryption_Engine.thy ===== *)
theory Encryption_Engine
  imports Util
begin

text \<open>
  \<^verbatim>\<open>proxy/src/encryption_engine.cpp\<close>. OpenSSL is not part of the repository: its cipher
  and digest calls are the parameters \<open>evp_cipher\<close> and \<open>evp_md\<close>, where \<open>None\<close> (or
  \<open>False\<close>) is the failing return code of a call. \<open>handle_errors\<close> aborts. What the
  proxy relies on is the locale \<open>cipher\<close>; it is derived from the documented behaviour of
  the EVP calls (locale \<open>evp_laws\<close>) for the wrapper functions of the source.
\<close>

section \<open>The cipher\<close>

record 'c evp_cipher =
  ctx_new :: "'c option"
  encrypt_init :: "'c \<Rightarrow> string \<Rightarrow> string \<Rightarrow> 'c option"
  encrypt_update :: "'c \<Rightarrow> string \<Rightarrow> (string \<times> 'c) option"
  encrypt_final :: "'c \<Rightarrow> string option"
  decrypt_init :: "'c \<Rightarrow> string \<Rightarrow> string \<Rightarrow> 'c option"
  decrypt_update :: "'c \<Rightarrow> string \<Rightarrow> (string \<times> 'c) option"
  decrypt_final :: "'c \<Rightarrow> string option"

definition or_abort :: "'a option \<Rightarrow> 'a res" where
  "or_abort x = (case x of None \<Rightarrow> Inl Aborted | Some y \<Rightarrow> Inr y)"

lemma or_abort_simps [simp]: "or_abort None = Inl Aborted" "or_abort (Some y) = Inr y"
  by (simp_all add: or_abort_def)

text \<open>
  \<open>EVP_aes_256_cbc\<close> reads 32 bytes of key and 16 of IV; both callers pass output buffers of
  \<open>buffer_size\<close> bytes.
\<close>

definition buffer_size :: nat where
  "buffer_size = 4096"

definition key_material :: "string \<Rightarrow> string \<Rightarrow> unit res" where
  "key_material k iv = require (32 \<le> length k \<and> 16 \<le> length iv) Out_of_range"

definition encrypt_raw :: "'c evp_cipher \<Rightarrow> string \<Rightarrow> string \<Rightarrow> string \<Rightarrow> string res" where
  "encrypt_raw E plaintext k iv =
     rbind (or_abort (ctx_new E)) (\<lambda>ctx.
     rbind (key_material k iv) (\<lambda>_.
     rbind (or_abort (encrypt_init E ctx k iv)) (\<lambda>ctx1.
     rbind (or_abort (encrypt_update E ctx1 plaintext)) (\<lambda>(out, ctx2).
     rbind (require (length out \<le> buffer_size) Out_of_range) (\<lambda>_.
     rbind (or_abort (encrypt_final E ctx2)) (\<lambda>out2.
     rbind (require (length out + length out2 \<le> buffer_size) Out_of_range) (\<lambda>_.
       Inr (out @ out2))))))))"

definition decrypt_raw :: "'c evp_cipher \<Rightarrow> string \<Rightarrow> string \<Rightarrow> string \<Rightarrow> string res" where
  "decrypt_raw E ciphertext k iv =
     rbind (or_abort (ctx_new E)) (\<lambda>ctx.
     rbind (key_material k iv) (\<lambda>_.
     rbind (or_abort (decrypt_init E ctx k iv)) (\<lambda>ctx1.
     rbind (or_abort (decrypt_update E ctx1 ciphertext)) (\<lambda>(out, ctx2).
     rbind (require (length out \<le> buffer_size) Out_of_range) (\<lambda>_.
     rbind (or_abort (decrypt_final E ctx2)) (\<lambda>out2.
     rbind (require (length out + length out2 \<le> buffer_size) Out_of_range) (\<lambda>_.
       Inr (out @ out2))))))))"

section \<open>Message digests and keys\<close>

record 'k evp_md =
  md_ctx_create :: bool
  get_digestbyname :: bool
  md_size :: int
  digest_init :: bool
  digest_sign_init :: "'k \<Rightarrow> bool"
  digest_sign_update :: "string \<Rightarrow> bool"
  digest_sign_len :: "nat option"
  digest_sign_final :: "'k \<Rightarrow> string \<Rightarrow> string option"
  openssl_malloc :: "nat \<Rightarrow> bool"
  rand_bytes :: "nat \<Rightarrow> string option"
  new_mac_key :: "string \<Rightarrow> 'k option"

definition EVP_MAX_MD_SIZE :: int where
  "EVP_MAX_MD_SIZE = 64"

definition passert :: "bool \<Rightarrow> unit res" where
  "passert b = require b Assertion_failed"

lemma passert_simps [simp]: "passert True = Inr ()" "passert False = Inl Assertion_failed"
  by (simp_all add: passert_def)

lemma passert_Inr_iff [res_simps]: "passert b = Inr u \<longleftrightarrow> b"
  by (simp add: passert_def require_Inr_iff)

text \<open>
  The shared prefix of \<open>sign_it\<close>, \<open>verify_it\<close> and \<open>hmac_it\<close> up to
  \<open>EVP_DigestSignUpdate\<close>. Every check of the source is an \<open>assert\<close> first.
\<close>

definition digest_start :: "'k evp_md \<Rightarrow> string \<Rightarrow> 'k \<Rightarrow> unit res" where
  "digest_start M msg pkey =
     rbind (passert (md_ctx_create M)) (\<lambda>_.
     rbind (passert (get_digestbyname M)) (\<lambda>_.
     rbind (passert (digest_init M)) (\<lambda>_.
     rbind (passert (digest_sign_init M pkey)) (\<lambda>_.
       passert (digest_sign_update M msg)))))"

text \<open>\<open>sign_it\<close> returns 0 and the signature; an empty message or no key fails \<open>assert(0)\<close>.\<close>

definition sign_it :: "'k evp_md \<Rightarrow> string \<Rightarrow> 'k option \<Rightarrow> (int \<times> string) res" where
  "sign_it M msg pkey =
     (case pkey of
        None \<Rightarrow> Inl Assertion_failed
      | Some k \<Rightarrow>
          if msg = [] then Inl Assertion_failed
          else
            rbind (digest_start M msg k) (\<lambda>_.
              case digest_sign_len M of
                None \<Rightarrow> Inl Assertion_failed
              | Some req \<Rightarrow>
                  rbind (passert (0 < req)) (\<lambda>_.
                  rbind (passert (openssl_malloc M req)) (\<lambda>_.
                    case digest_sign_final M k msg of
                      None \<Rightarrow> Inl Assertion_failed
                    | Some sig \<Rightarrow>
                        rbind (passert (req = length sig)) (\<lambda>_. Inr (0, sig))))))"

definition hmac_it :: "'k evp_md \<Rightarrow> string \<Rightarrow> 'k option \<Rightarrow> (int \<times> string) res" where
  "hmac_it M msg pkey =
     (case pkey of
        None \<Rightarrow> Inl Assertion_failed
      | Some k \<Rightarrow>
          if msg = [] then Inl Assertion_failed
          else
            rbind (digest_start M msg k) (\<lambda>_.
              case digest_sign_len M of
                None \<Rightarrow> Inl Assertion_failed
              | Some req \<Rightarrow>
                  rbind (passert (0 < req)) (\<lambda>_.
                  rbind (passert (openssl_malloc M req)) (\<lambda>_.
                    case digest_sign_final M k msg of
                      None \<Rightarrow> Inl Assertion_failed
                    | Some val \<Rightarrow>
                        rbind (passert (req = length val)) (\<lambda>_. Inr (0, val))))))"

text \<open>\<open>verify_it\<close> compares \<open>min slen size\<close> bytes and returns 0 when they agree.\<close>

definition verify_it :: "'k evp_md \<Rightarrow> string \<Rightarrow> string \<Rightarrow> 'k option \<Rightarrow> int res" where
  "verify_it M msg sig pkey =
     (case pkey of
        None \<Rightarrow> Inl Assertion_failed
      | Some k \<Rightarrow>
          if msg = [] \<or> sig = [] then Inl Assertion_failed
          else
            rbind (digest_start M msg k) (\<lambda>_.
              case digest_sign_final M k msg of
                None \<Rightarrow> Inl Assertion_failed
              | Some buff \<Rightarrow>
                  rbind (passert (0 < length buff)) (\<lambda>_.
                    let m = (if length sig < length buff then length sig else length buff)
                    in Inr (if take m sig = take m buff then 0 else 1))))"

text \<open>\<open>make_keys\<close> on fresh (NULL) handles: one random key behind both handles.\<close>

definition make_keys :: "'k evp_md \<Rightarrow> (int \<times> 'k \<times> 'k) res" where
  "make_keys M =
     rbind (passert (get_digestbyname M)) (\<lambda>_.
     rbind (passert (16 \<le> md_size M)) (\<lambda>_.
     rbind (passert (md_size M \<le> EVP_MAX_MD_SIZE)) (\<lambda>_.
       case rand_bytes M (nat (md_size M)) of
         None \<Rightarrow> Inl Assertion_failed
       | Some hkey \<Rightarrow>
           (case new_mac_key M hkey of
              None \<Rightarrow> Inl Assertion_failed
            | Some skey \<Rightarrow>
                (case new_mac_key M hkey of
                   None \<Rightarrow> Inl Assertion_failed
                 | Some vkey \<Rightarrow> Inr (0, skey, vkey))))))"

section \<open>The engine\<close>

text \<open>
  \<open>eng_key\<close> and \<open>eng_iv\<close> are the bytes behind the pointers \<open>encryption_key_\<close> and
  \<open>iv_\<close>; \<open>eng_key_string\<close> and \<open>eng_iv_string\<close> are the engine's own strings.
\<close>

record 'k engine =
  eng_key_string :: string
  eng_iv_string :: string
  eng_key :: string
  eng_iv :: string
  eng_skey :: 'k
  eng_vkey :: 'k

definition engine_new :: "'k evp_md \<Rightarrow> rng \<Rightarrow> ('k engine \<times> rng) res" where
  "engine_new M g =
     rbind (rand_str 32 g) (\<lambda>(ks, g1).
     rbind (rand_str 16 g1) (\<lambda>(ivs, g2).
     rbind (make_keys M) (\<lambda>(rc, sk, vk).
       Inr (\<lparr>eng_key_string = ks, eng_iv_string = ivs, eng_key = ks, eng_iv = ivs,
             eng_skey = sk, eng_vkey = vk\<rparr>, g2))))"

text \<open>The copy points into the source's strings and leaves its own strings empty.\<close>

definition engine_copy :: "'k evp_md \<Rightarrow> 'k engine \<Rightarrow> 'k engine res" where
  "engine_copy M e =
     rbind (make_keys M) (\<lambda>(rc, sk, vk).
       Inr \<lparr>eng_key_string = [], eng_iv_string = [], eng_key = eng_key_string e,
            eng_iv = eng_iv_string e, eng_skey = sk, eng_vkey = vk\<rparr>)"

definition NUL :: char where
  "NUL = CHR 0x00"

definition encrypt :: "'c evp_cipher \<Rightarrow> 'k engine \<Rightarrow> string \<Rightarrow> string res" where
  "encrypt E e plain_text =
     rbind (encrypt_raw E plain_text (eng_key e) (eng_iv e)) (\<lambda>cipher_text.
     rbind (passert (0 < length cipher_text)) (\<lambda>_. Inr cipher_text))"

definition decrypt :: "'c evp_cipher \<Rightarrow> 'k engine \<Rightarrow> string \<Rightarrow> string res" where
  "decrypt E e cipher_text =
     rbind (decrypt_raw E cipher_text (eng_key e) (eng_iv e)) (\<lambda>txt.
     rbind (passert (0 < length txt)) (\<lambda>_. Inr (takeWhile (\<lambda>c. c \<noteq> NUL) txt)))"

definition hmac :: "'k evp_md \<Rightarrow> 'k engine \<Rightarrow> string \<Rightarrow> string res" where
  "hmac M e k = rbind (hmac_it M k (Some (eng_skey e))) (\<lambda>(res, val). Inr val)"

lemma takeWhile_no_NUL: "NUL \<notin> set x \<Longrightarrow> takeWhile (\<lambda>c. c \<noteq> NUL) x = x"
  by (induction x) auto

section \<open>What the proxy relies on\<close>

locale cipher =
  fixes enc :: "string \<Rightarrow> string res"
    and dec :: "string \<Rightarrow> string res"
    and valid :: "string \<Rightarrow> bool"
  assumes roundtrip_law: "valid x \<Longrightarrow> \<exists>c. enc x = Inr c \<and> dec c = Inr x"
    and valid_nonempty: "valid x \<Longrightarrow> x \<noteq> []"
begin

text \<open>Equal ciphertexts come from equal plaintexts.\<close>

lemma enc_inject: "valid x \<Longrightarrow> valid y \<Longrightarrow> enc x = enc y \<Longrightarrow> x = y"
  using roundtrip_law [of x] roundtrip_law [of y] by auto

end

text \<open>
  Values the engine carries through: not empty, no NUL byte, and short enough that the
  padded ciphertext fits the buffer.
\<close>

definition engine_valid :: "string \<Rightarrow> bool" where
  "engine_valid x \<longleftrightarrow> x \<noteq> [] \<and> NUL \<notin> set x \<and> length x < buffer_size"

text \<open>
  CBC with PKCS#7 padding: the ciphertext has the next multiple of 16 bytes, and
  decrypting it under the same key and IV gives the plaintext back.
\<close>

locale evp_laws =
  fixes E :: "'c evp_cipher"
  assumes new_law: "ctx_new E \<noteq> None"
    and init_law: "\<exists>ce cd. encrypt_init E c k iv = Some ce \<and> decrypt_init E c k iv = Some cd \<and>
      (\<forall>p. \<exists>o1 c2 o2. encrypt_update E ce p = Some (o1, c2) \<and> encrypt_final E c2 = Some o2 \<and>
         length (o1 @ o2) = 16 * (length p div 16 + 1) \<and>
         (\<exists>d1 c3 d2. decrypt_update E cd (o1 @ o2) = Some (d1, c3) \<and>
            decrypt_final E c3 = Some d2 \<and> d1 @ d2 = p))"
begin

lemma raw_roundtrip:
  assumes "32 \<le> length k" and "16 \<le> length iv" and "length p < buffer_size"
  shows "\<exists>c. encrypt_raw E p k iv = Inr c \<and> length c = 16 * (length p div 16 + 1) \<and>
    decrypt_raw E c k iv = Inr p"
proof -
  obtain c0 where c0: "ctx_new E = Some c0" using new_law by blast
  obtain ce cd where i: "encrypt_init E c0 k iv = Some ce" "decrypt_init E c0 k iv = Some cd"
    and "\<forall>p. \<exists>o1 c2 o2. encrypt_update E ce p = Some (o1, c2) \<and> encrypt_final E c2 = Some o2 \<and>
         length (o1 @ o2) = 16 * (length p div 16 + 1) \<and>
         (\<exists>d1 c3 d2. decrypt_update E cd (o1 @ o2) = Some (d1, c3) \<and>
            decrypt_final E c3 = Some d2 \<and> d1 @ d2 = p)"
    using init_law by blast
  then obtain o1 c2 o2 d1 c3 d2 where e: "encrypt_update E ce p = Some (o1, c2)"
      "encrypt_final E c2 = Some o2" "length (o1 @ o2) = 16 * (length p div 16 + 1)"
    and d: "decrypt_update E cd (o1 @ o2) = Some (d1, c3)" "decrypt_final E c3 = Some d2" "d1 @ d2 = p"
    by blast
  have "length p div 16 \<le> 255" using assms(3) by (simp add: buffer_size_def)
  then have le: "length o1 + length o2 \<le> buffer_size"
    using e(3) by (simp add: buffer_size_def)
  have "length d1 + length d2 \<le> buffer_size"
  proof -
    have "length d1 + length d2 = length p" using d(3) by (simp flip: length_append)
    with assms(3) show ?thesis by simp
  qed
  with le have "encrypt_raw E p k iv = Inr (o1 @ o2)" "decrypt_raw E (o1 @ o2) k iv = Inr p"
    using c0 i e d assms
    by (simp_all add: encrypt_raw_def decrypt_raw_def key_material_def)
  with e(3) show ?thesis by blast
qed

end

text \<open>An engine whose key pointers reach enough bytes is a cipher on the valid values.\<close>

definition engine_ready :: "'k engine \<Rightarrow> bool" where
  "engine_ready e \<longleftrightarrow> 32 \<le> length (eng_key e) \<and> 16 \<le> length (eng_iv e)"

locale ready_engine = evp_laws E for E :: "'c evp_cipher" +
  fixes e :: "'k engine"
  assumes ready: "engine_ready e"

sublocale ready_engine \<subseteq> eng: cipher "encrypt E e" "decrypt E e" engine_valid
proof (unfold_locales, goal_cases)
  case (1 x)
  then obtain c where c: "encrypt_raw E x (eng_key e) (eng_iv e) = Inr c"
      "length c = 16 * (length x div 16 + 1)" "decrypt_raw E c (eng_key e) (eng_iv e) = Inr x"
    using raw_roundtrip [of "eng_key e" "eng_iv e" x] ready
    by (auto simp: engine_ready_def engine_valid_def)
  from 1 have x: "x \<noteq> []" "NUL \<notin> set x" by (simp_all add: engine_valid_def)
  from x(2) have "takeWhile (\<lambda>c. c \<noteq> NUL) x = x"
    by (rule takeWhile_no_NUL)
  moreover have "c \<noteq> []" using c(2) by auto
  ultimately show ?case
    using c x(1) by (simp add: encrypt_def decrypt_def)
next
  case (2 x)
  then show ?case by (simp add: engine_valid_def)
qed

context ready_engine begin

lemma engine_gives_back:
  "engine_valid x \<Longrightarrow> \<exists>c. encrypt E e x = Inr c \<and> decrypt E e c = Inr x"
  by (rule eng.roundtrip_law)

end

section \<open>Construction and copies\<close>

lemma engine_new_ready:
  assumes "engine_new M g = Inr (e, g')"
  shows "engine_ready e \<and> length (eng_key e) = 32 \<and> length (eng_iv e) = 16 \<and>
     eng_key e = eng_key_string e \<and> eng_iv e = eng_iv_string e \<and>
     (\<forall>c \<in> set (eng_key e) \<union> set (eng_iv e). is_digit c)"
proof -
  obtain ks g1 where k: "rand_chars 32 g = (ks, g1)" by fastforce
  obtain ivs g2 where i: "rand_chars 16 g1 = (ivs, g2)" by fastforce
  have "length ks = 32" "length ivs = 16"
    using rand_chars_length [of 32 g] rand_chars_length [of 16 g1] k i by simp_all
  moreover have "\<forall>c \<in> set ks \<union> set ivs. is_digit c"
    using rand_chars_digits [of _ 32 g] rand_chars_digits [of _ 16 g1] k i by auto
  moreover have "eng_key e = ks \<and> eng_key_string e = ks \<and> eng_iv e = ivs \<and> eng_iv_string e = ivs"
    using assms k i by (auto simp: engine_new_def rand_str_def rbind_Inr_iff)
  ultimately show ?thesis by (simp add: engine_ready_def)
qed

lemma engine_copy_key:
  "engine_copy M e = Inr e' \<Longrightarrow>
     eng_key e' = eng_key_string e \<and> eng_iv e' = eng_iv_string e \<and> eng_key_string e' = []"
  by (auto simp: engine_copy_def rbind_Inr_iff split: prod.splits)

section \<open>A reference cipher\<close>

text \<open>
  An instance of the EVP calls with the documented shape (padding to the next multiple of
  16, chaining from the IV, a keyed byte cipher), on which the locales are interpreted.
\<close>

record ref_ctx =
  rc_key :: string
  rc_iv :: string
  rc_buf :: string

definition pkcs7_pad :: "string \<Rightarrow> string" where
  "pkcs7_pad p =
     (let n = 16 - length p mod 16 in p @ replicate n (char_of n))"

definition pkcs7_unpad :: "string \<Rightarrow> string" where
  "pkcs7_unpad x = take (length x - of_char (last x)) x"

definition key_byte :: "string \<Rightarrow> nat \<Rightarrow> int" where
  "key_byte k i = (if k = [] then 0 else of_char (k ! (i mod length k)))"

fun chain_enc :: "(nat \<Rightarrow> int) \<Rightarrow> int \<Rightarrow> nat \<Rightarrow> string \<Rightarrow> string" where
  "chain_enc ks prev i [] = []"
| "chain_enc ks prev i (c # cs) =
     (let x = char_of (of_char c + ks i + prev) in x # chain_enc ks (of_char x) (Suc i) cs)"

fun chain_dec :: "(nat \<Rightarrow> int) \<Rightarrow> int \<Rightarrow> nat \<Rightarrow> string \<Rightarrow> string" where
  "chain_dec ks prev i [] = []"
| "chain_dec ks prev i (x # xs) =
     char_of (of_char x - ks i - prev) # chain_dec ks (of_char x) (Suc i) xs"

definition ref_evp :: "ref_ctx evp_cipher" where
  "ref_evp =
     \<lparr>ctx_new = Some \<lparr>rc_key = [], rc_iv = [], rc_buf = []\<rparr>,
      encrypt_init = (\<lambda>c k iv. Some \<lparr>rc_key = k, rc_iv = iv, rc_buf = []\<rparr>),
      encrypt_update = (\<lambda>c p. Some ([], c\<lparr>rc_buf := rc_buf c @ p\<rparr>)),
      encrypt_final = (\<lambda>c. Some (chain_enc (key_byte (rc_key c)) (key_byte (rc_iv c) 0) 0
                                 (pkcs7_pad (rc_buf c)))),
      decrypt_init = (\<lambda>c k iv. Some \<lparr>rc_key = k, rc_iv = iv, rc_buf = []\<rparr>),
      decrypt_update = (\<lambda>c x. Some ([], c\<lparr>rc_buf := rc_buf c @ x\<rparr>)),
      decrypt_final = (\<lambda>c. Some (pkcs7_unpad
                                 (chain_dec (key_byte (rc_key c)) (key_byte (rc_iv c) 0) 0 (rc_buf c))))\<rparr>"

lemma char_of_shift: "char_of ((of_char c + k + p) mod 256 - k - p :: int) = (c :: char)"
proof -
  have "((of_char c + k + p) mod 256 - k - p :: int) mod 256
      = (of_char c + k + p - k - p) mod 256"
    by (metis mod_diff_left_eq)
  also have "\<dots> = of_char c mod 256" by simp
  finally have "((of_char c + k + p) mod 256 - k - p :: int) mod 256 = of_char c mod 256" .
  then have "(char_of (((of_char c + k + p) mod 256 - k - p :: int) mod 256) :: char) = c"
    by simp
  then show ?thesis by (simp only: char_of_mod_256)
qed

lemma chain_dec_enc [simp]: "chain_dec ks prev i (chain_enc ks prev i p) = p"
  by (induction p arbitrary: prev i) (simp_all add: Let_def char_of_shift)

lemma length_chain_enc [simp]: "length (chain_enc ks prev i p) = length p"
  by (induction p arbitrary: prev i) (simp_all add: Let_def)

lemma pkcs7_unpad_pad [simp]: "pkcs7_unpad (pkcs7_pad p) = p"
proof -
  define n where "n = 16 - length p mod 16"
  have "length p mod 16 < 16" by simp
  then have n: "0 < n" "n \<le> 16" by (simp_all add: n_def)
  have p: "pkcs7_pad p = p @ replicate n (char_of n)"
    by (simp add: pkcs7_pad_def n_def Let_def)
  moreover from n have "last (p @ replicate n (char_of n)) = (char_of n :: char)" by simp
  ultimately show ?thesis
    using n by (simp add: pkcs7_unpad_def of_char_of)
qed

lemma length_pkcs7_pad: "length (pkcs7_pad p) = 16 * (length p div 16 + 1)"
proof -
  have "length p + (16 - length p mod 16) = 16 * (length p div 16 + 1)"
    by presburger
  then show ?thesis by (simp add: pkcs7_pad_def Let_def)
qed

interpretation ref: evp_laws ref_evp
  by unfold_locales (auto simp: ref_evp_def length_pkcs7_pad)

text \<open>An engine with a full-length key, and the cipher it gives.\<close>

definition ref_engine :: "unit engine" where
  "ref_engine =
     \<lparr>eng_key_string = replicate 32 (CHR ''7''), eng_iv_string = replicate 16 (CHR ''3''),
      eng_key = replicate 32 (CHR ''7''), eng_iv = replicate 16 (CHR ''3''),
      eng_skey = (), eng_vkey = ()\<rparr>"

interpretation ref_eng: ready_engine ref_evp ref_engine
  by unfold_locales (simp add: engine_ready_def ref_engine_def)

end
