(* ===== verification/Proxy_State.thy ===== *)
theory Proxy_State
  imports Distribution Update_Cache Redis_Storage Encryption_Engine
begin

text \<open>
  The state of \<^verbatim>\<open>pancake_proxy\<close> (the fields of \<^verbatim>\<open>proxy/src/pancake_proxy.h\<close>, each with
  the prefix \<open>px_\<close>), the environment it calls (the encryption engine and the storage
  interface), and the invariants the proxy keeps between its tables and the stored data.
\<close>

section \<open>State and environment\<close>

record proxy_state =
  px_update_cache :: update_cache
  px_missing_new_replicas :: update_cache
  px_key_to_frequency :: "string \<rightharpoonup> int"
  px_new_key_to_frequency :: "string \<rightharpoonup> int"
  px_label_count :: int
  px_dummy_keys :: int
  px_p_max :: real
  px_alpha :: real
  px_delta :: real
  px_dummy_key :: string
  px_key_to_number_of_replicas :: "string \<rightharpoonup> int"
  px_replica_to_label :: "string \<rightharpoonup> int"
  px_fake_distribution :: distribution
  px_real_distribution :: distribution
  px_security_batch_size :: int
  px_storage_batch_size :: int
  px_object_size :: int

record 'st env =
  env_encrypt :: "string \<Rightarrow> string res"
  env_decrypt :: "string \<Rightarrow> string res"
  env_storage :: "'st storage_interface"

text \<open>\<open>key + std::to_string(i)\<close>, the name of replica \<open>i\<close> of a key.\<close>

definition replica_name :: "string \<Rightarrow> int \<Rightarrow> string" where
  "replica_name k i = k @ to_string i"

text \<open>Conversion of a \<open>double\<close> to \<open>int\<close> truncates; a wide integer keeps its low 32 bits.\<close>

definition trunc_int :: "real \<Rightarrow> int" where
  "trunc_int x = (if 0 \<le> x then \<lfloor>x\<rfloor> else \<lceil>x\<rceil>)"

definition int32 :: "int \<Rightarrow> int" where
  "int32 x = signed_take_bit 31 x"

lemma int32_id: "- (2 ^ 31) \<le> x \<Longrightarrow> x < 2 ^ 31 \<Longrightarrow> int32 x = x"
  by (simp add: int32_def signed_take_bit_int_eq_self)

section \<open>Replicas, labels and stored values\<close>

definition replicas :: "proxy_state \<Rightarrow> string \<Rightarrow> int" where
  "replicas p k = (case px_key_to_number_of_replicas p k of Some r \<Rightarrow> r | None \<Rightarrow> 0)"

definition label :: "proxy_state \<Rightarrow> string \<Rightarrow> int \<Rightarrow> int option" where
  "label p k i = px_replica_to_label p (replica_name k i)"

definition in_range :: "proxy_state \<Rightarrow> string \<Rightarrow> int \<Rightarrow> bool" where
  "in_range p k i \<longleftrightarrow> 0 \<le> i \<and> i < replicas p k"

text \<open>
  \<open>proxy_wf\<close>: every replica has a label, no two replicas share one, and the update
  cache's bit vectors have one bit per replica.
\<close>

definition labels_total :: "proxy_state \<Rightarrow> bool" where
  "labels_total p \<longleftrightarrow> (\<forall>k i. in_range p k i \<longrightarrow> label p k i \<noteq> None)"

definition labels_inj :: "proxy_state \<Rightarrow> bool" where
  "labels_inj p \<longleftrightarrow>
     (\<forall>k i k' i'. in_range p k i \<longrightarrow> in_range p k' i' \<longrightarrow> label p k i = label p k' i' \<longrightarrow>
        k = k' \<and> i = i')"

definition proxy_wf :: "proxy_state \<Rightarrow> bool" where
  "proxy_wf p \<longleftrightarrow> labels_total p \<and> labels_inj p \<and> cache_sized (replicas p) (px_update_cache p)"

text \<open>
  \<open>holds E p vw V\<close>: \<open>V\<close> is the key-value map the proxy presents. The replica's latest
  value is pending in the update cache or is what the storage \<open>vw\<close> decrypts to.
\<close>

definition holds ::
    "'st env \<Rightarrow> proxy_state \<Rightarrow> (string \<rightharpoonup> string) \<Rightarrow> (string \<Rightarrow> string) \<Rightarrow> bool" where
  "holds E p vw V \<longleftrightarrow>
     (\<forall>k i. in_range p k i \<longrightarrow>
        (\<exists>l c x. label p k i = Some l \<and> vw (to_string l) = Some c \<and> env_decrypt E c = Inr x \<and>
           (case cache_pending (px_update_cache p) k i of Some v \<Rightarrow> v = V k | None \<Rightarrow> x = V k)))"

text \<open>
  Names built from the keys in \<open>K\<close> are unambiguous. Keys of one length are.
\<close>

definition names_unique :: "string set \<Rightarrow> bool" where
  "names_unique K \<longleftrightarrow>
     (\<forall>k\<in>K. \<forall>k'\<in>K. \<forall>i i'. replica_name k i = replica_name k' i' \<longrightarrow> k = k' \<and> i = i')"

lemma replica_name_same_key [simp]: "replica_name k i = replica_name k j \<longleftrightarrow> i = j"
  by (simp add: replica_name_def)

lemma names_unique_same_length:
  "\<forall>k\<in>K. length k = n \<Longrightarrow> names_unique K"
  by (auto simp: names_unique_def replica_name_def)

lemma names_uniqueD:
  "names_unique K \<Longrightarrow> k \<in> K \<Longrightarrow> k' \<in> K \<Longrightarrow> replica_name k i = replica_name k' i' \<Longrightarrow> k = k' \<and> i = i'"
  by (auto simp: names_unique_def)

lemma proxy_wfI:
  "labels_total p \<Longrightarrow> labels_inj p \<Longrightarrow> cache_sized (replicas p) (px_update_cache p) \<Longrightarrow> proxy_wf p"
  by (simp add: proxy_wf_def)

text \<open>Fields that do not matter to the invariants.\<close>

lemma proxy_inv_cong:
  assumes "px_key_to_number_of_replicas p' = px_key_to_number_of_replicas p"
    and "px_replica_to_label p' = px_replica_to_label p"
    and "px_update_cache p' = px_update_cache p"
  shows "proxy_wf p' = proxy_wf p" and "holds E p' vw V = holds E p vw V"
    and "in_range p' k i = in_range p k i" and "label p' k i = label p k i"
  using assms
  by (simp_all add: proxy_wf_def holds_def labels_total_def labels_inj_def in_range_def
      replicas_def [abs_def] label_def)

section \<open>The environment's contract\<close>

locale replica_store =
  kv_storage "env_storage E" view sound + cipher "env_encrypt E" "env_decrypt E" valid
  for E :: "'st env" and view sound valid

definition ref_env :: "(string \<rightharpoonup> string) list env" where
  "ref_env =
     \<lparr>env_encrypt = encrypt ref_evp ref_engine, env_decrypt = decrypt ref_evp ref_engine,
      env_storage = redis mem_redis (\<lambda>_. 0) (\<lambda>ids. ids)\<rparr>"

lemma ref_env_simps [simp]:
  "env_encrypt ref_env = encrypt ref_evp ref_engine"
  "env_decrypt ref_env = decrypt ref_evp ref_engine"
  "env_storage ref_env = redis mem_redis (\<lambda>_. 0) (\<lambda>ids. ids)"
  by (simp_all add: ref_env_def)

interpretation ref_store: replica_store ref_env "\<lambda>cs. cs ! 0" "\<lambda>cs. length cs = 1" engine_valid
  unfolding replica_store_def ref_env_simps
  by (intro conjI mem_redis.redis1.kv_storage_axioms ref_eng.eng.cipher_axioms)

end
