(* ===== verification/Benchmark.thy ===== *)
theory Benchmark
  imports Client_Library Trace Proxy_State
begin

text \<open>
  \<^verbatim>\<open>benchmark/src/proxy_benchmark.cpp\<close>: one client thread of the benchmark, which replays a
  trace for a given time. The clock is a list of the readings it will give, and \<open>meanwhile\<close> is
  what the client's reading thread does before a call. \<open>benchmark_replays_prefix\<close> says which
  part of the trace is ever replayed.
\<close>

section \<open>The loop\<close>

definition issue_batch :: "'n tproto \<Rightarrow> string list \<times> string list \<Rightarrow> ('n async_client, unit) io" where
  "issue_batch P keys_values =
     (if snd keys_values = [] then ithen (async_client_get_batch P (fst keys_values)) (iret ())
      else async_client_put_batch P (fst keys_values) (snd keys_values))"

text \<open>
  The indices replayed are the result. When the readings run out the loop has not ended
  (\<open>None\<close>); an index past the trace and a batch without keys are undefined in the code.
\<close>

fun bench_loop ::
    "'n tproto \<Rightarrow> ('n async_client, unit) io \<Rightarrow> int \<Rightarrow> trace_vector \<Rightarrow> nat \<Rightarrow> int \<Rightarrow> int list \<Rightarrow>
     ('n async_client, nat list) io" where
  "bench_loop P meanwhile limit trace i elapsed readings =
     (if \<not> elapsed < limit then iret []
      else if length trace \<le> i then ithrow Out_of_range
      else ithen meanwhile (ithen (issue_batch P (trace ! i))
        (case readings of
           [] \<Rightarrow> (\<lambda>w. None)
         | e # es \<Rightarrow>
             if length (fst (trace ! i)) = 0 then ithrow Division_by_zero
             else ibind (bench_loop P meanwhile limit trace ((i + 1) mod length (fst (trace ! i))) e es)
                    (\<lambda>is. iret (i # is)))))"

declare bench_loop.simps [simp del]

text \<open>
  The client is passed by value: the copy has its own numbers, and shares the queue, the
  counters and the connection with the original.
\<close>

definition by_value :: "('n async_client, 'a) io \<Rightarrow> ('n async_client, 'a) io" where
  "by_value m = (\<lambda>w. map_option
     (\<lambda>(r, w'). (r, w'\<lparr>ac_sequence_num := ac_sequence_num w, ac_seq_id := ac_seq_id w\<rparr>)) (m w))"

text \<open>
  The result is the new throughput: with \<open>stats\<close>, the requests satisfied per second are added.
  \<open>stop_time\<close> is the clock's reading after the loop. Latencies are not modelled.
\<close>

definition run_benchmark ::
    "'n tproto \<Rightarrow> ('n async_client, unit) io \<Rightarrow> int \<Rightarrow> bool \<Rightarrow> trace_vector \<Rightarrow> int list \<Rightarrow> int \<Rightarrow> int \<Rightarrow>
     ('n async_client, int) io" where
  "run_benchmark P meanwhile run_time stats trace readings stop_time xput =
     by_value
       (ibind num_requests_satisfied (\<lambda>ops0.
        ibind (bench_loop P meanwhile (run_time * 1000000) trace 0 0 readings) (\<lambda>_.
        ibind num_requests_satisfied (\<lambda>ops1.
          if \<not> stats then iret xput
          else if stop_time = 0 then ithrow Undefined
          else let ops = int32 (sint ops1 - sint ops0)
               in iret (int32 (xput + trunc_int (real_of_int ops * 1000000 / real_of_int stop_time)))))))"

definition warmup ::
    "'n tproto \<Rightarrow> ('n async_client, unit) io \<Rightarrow> trace_vector \<Rightarrow> int list \<Rightarrow> int \<Rightarrow> int \<Rightarrow> ('n async_client, int) io" where
  "warmup P meanwhile trace readings stop_time xput =
     by_value (run_benchmark P meanwhile 15 False trace readings stop_time xput)"

definition cooldown ::
    "'n tproto \<Rightarrow> ('n async_client, unit) io \<Rightarrow> trace_vector \<Rightarrow> int list \<Rightarrow> int \<Rightarrow> int \<Rightarrow> ('n async_client, int) io" where
  "cooldown P meanwhile trace readings stop_time xput =
     by_value (run_benchmark P meanwhile 15 False trace readings stop_time xput)"

text \<open>The thread of one client, with a clock for each of its three phases.\<close>

definition bench_client ::
    "('n, unit) io \<Rightarrow> ('n async_client, unit) io \<Rightarrow> 'n tproto \<Rightarrow> ('n async_client, unit) io \<Rightarrow> trace_vector \<Rightarrow>
     (int list \<times> int) \<times> (int list \<times> int) \<times> (int list \<times> int) \<Rightarrow> int \<Rightarrow> ('n async_client, int) io" where
  "bench_client transport_open join P meanwhile trace clocks xput =
     (let ((r1, l1), (r2, l2), (r3, l3)) = clocks
      in ithen (async_client_init transport_open P)
        (ibind (warmup P meanwhile trace r1 l1 0) (\<lambda>x1.
         ibind (run_benchmark P meanwhile 20 True trace r2 l2 x1) (\<lambda>x2.
         ibind (cooldown P meanwhile trace r3 l3 x2) (\<lambda>_.
         ithen (async_client_finish join) (iret (int32 (xput + x2))))))))"

section \<open>What is replayed\<close>

text \<open>
  The next index is taken modulo the number of keys of a batch, so with batches of at most
  \<open>n\<close> keys the benchmark replays only the first \<open>n\<close> batches of the trace, whatever its length.
\<close>

lemma benchmark_replays_prefix:
  assumes "\<forall>b\<in>set trace. length (fst b) \<le> n" and "n \<le> length trace" and "i < n"
  shows "bench_loop P meanwhile limit trace i elapsed readings
    = bench_loop P meanwhile limit (take n trace) i elapsed readings"
  using assms(3)
proof (induction readings arbitrary: i elapsed)
  case Nil
  then have "trace ! i = take n trace ! i" "\<not> length trace \<le> i" "\<not> length (take n trace) \<le> i"
    using assms(2) by simp_all
  then show ?case by (simp add: bench_loop.simps)
next
  case (Cons e es)
  have same: "take n trace ! i = trace ! i" "\<not> length trace \<le> i" "\<not> length (take n trace) \<le> i"
    using assms(2) Cons.prems by simp_all
  show ?case
  proof (cases "length (fst (trace ! i)) = 0")
    case True
    with same show ?thesis by (simp add: bench_loop.simps [of _ _ _ _ i])
  next
    case False
    have "trace ! i \<in> set trace" using same(2) by simp
    then have "length (fst (trace ! i)) \<le> n" using assms(1) by blast
    moreover have "(i + 1) mod length (fst (trace ! i)) < length (fst (trace ! i))"
      using False by (intro mod_less_divisor) simp
    ultimately have "(i + 1) mod length (fst (trace ! i)) < n" by linarith
    from Cons.IH [OF this] same show ?thesis
      by (simp add: bench_loop.simps [of _ _ _ _ i])
  qed
qed

text \<open>After a phase the client numbers its requests as before it.\<close>

lemma by_value_numbers:
  "by_value m w = Some (r, w') \<Longrightarrow> ac_sequence_num w' = ac_sequence_num w \<and> ac_seq_id w' = ac_seq_id w"
  by (auto simp: by_value_def)

end
