(* ===== verification/Multiface.thy ===== *)
theory Multiface
  imports Thrift_Processor Response_Service
begin

text \<open>
  The classes of \<^verbatim>\<open>service/src/thrift.h\<close> and \<^verbatim>\<open>thrift_response_service.h\<close> that pass a call on to
  several handlers, and the factory that hands out one handler to everybody.
\<close>

text \<open>
  The loop runs to \<open>sz - 1\<close>, in \<open>size_t\<close>, and the last handler is called after it. Without
  handlers \<open>sz - 1\<close> wraps around and the first access is out of range. A handler's method
  assigns its result, so the result is that of the last one.
\<close>

fun multi_loop :: "('i \<Rightarrow> ('w, 'a) io) \<Rightarrow> 'i list \<Rightarrow> ('w, 'a) io" where
  "multi_loop call [] = ithrow Out_of_range"
| "multi_loop call [i] = call i"
| "multi_loop call (i # j # is) = ithen (call i) (multi_loop call (j # is))"

definition multi_add :: "'w iface \<Rightarrow> 'w iface list \<Rightarrow> 'w iface list" where
  "multi_add i ifaces = ifaces @ [i]"

definition multi_get_client_id :: "'w iface list \<Rightarrow> ('w, 64 word) io" where
  "multi_get_client_id ifaces = multi_loop if_get_client_id ifaces"

definition multi_register_client_id :: "'w iface list \<Rightarrow> 32 word \<Rightarrow> 64 word \<Rightarrow> ('w, unit) io" where
  "multi_register_client_id ifaces block_id client_id =
     multi_loop (\<lambda>i. if_register_client_id i block_id client_id) ifaces"

definition multi_async_get :: "'w iface list \<Rightarrow> sequence_id \<Rightarrow> string \<Rightarrow> ('w, unit) io" where
  "multi_async_get ifaces seq_id k = multi_loop (\<lambda>i. if_async_get i seq_id k) ifaces"

definition multi_async_put :: "'w iface list \<Rightarrow> sequence_id \<Rightarrow> string \<Rightarrow> string \<Rightarrow> ('w, unit) io" where
  "multi_async_put ifaces seq_id k v = multi_loop (\<lambda>i. if_async_put i seq_id k v) ifaces"

definition multi_async_get_batch :: "'w iface list \<Rightarrow> sequence_id \<Rightarrow> string list \<Rightarrow> ('w, unit) io" where
  "multi_async_get_batch ifaces seq_id keys = multi_loop (\<lambda>i. if_async_get_batch i seq_id keys) ifaces"

definition multi_async_put_batch ::
    "'w iface list \<Rightarrow> sequence_id \<Rightarrow> string list \<Rightarrow> string list \<Rightarrow> ('w, unit) io" where
  "multi_async_put_batch ifaces seq_id keys values =
     multi_loop (\<lambda>i. if_async_put_batch i seq_id keys values) ifaces"

definition multi_get :: "'w iface list \<Rightarrow> string \<Rightarrow> ('w, string) io" where
  "multi_get ifaces k = multi_loop (\<lambda>i. if_get i k) ifaces"

definition multi_put :: "'w iface list \<Rightarrow> string \<Rightarrow> string \<Rightarrow> ('w, unit) io" where
  "multi_put ifaces k v = multi_loop (\<lambda>i. if_put i k v) ifaces"

definition multi_get_batch :: "'w iface list \<Rightarrow> string list \<Rightarrow> ('w, string list) io" where
  "multi_get_batch ifaces keys = multi_loop (\<lambda>i. if_get_batch i keys) ifaces"

definition multi_put_batch :: "'w iface list \<Rightarrow> string list \<Rightarrow> string list \<Rightarrow> ('w, unit) io" where
  "multi_put_batch ifaces keys values = multi_loop (\<lambda>i. if_put_batch i keys values) ifaces"

definition multi_iface :: "'w iface list \<Rightarrow> 'w iface" where
  "multi_iface ifaces =
     \<lparr>if_get_client_id = multi_get_client_id ifaces, if_register_client_id = multi_register_client_id ifaces,
      if_async_get = multi_async_get ifaces, if_async_put = multi_async_put ifaces,
      if_async_get_batch = multi_async_get_batch ifaces, if_async_put_batch = multi_async_put_batch ifaces,
      if_get = multi_get ifaces, if_put = multi_put ifaces,
      if_get_batch = multi_get_batch ifaces, if_put_batch = multi_put_batch ifaces\<rparr>"

type_synonym 'w respond_iface = "sequence_id \<Rightarrow> 32 word \<Rightarrow> string list \<Rightarrow> ('w, unit) io"

definition multi_async_response :: "'w respond_iface list \<Rightarrow> 'w respond_iface" where
  "multi_async_response ifaces seq_id op_code result = multi_loop (\<lambda>i. i seq_id op_code result) ifaces"

text \<open>The factory with one handler for every connection.\<close>

definition singleton_getHandler :: "'w iface \<Rightarrow> nat \<Rightarrow> 'w iface" where
  "singleton_getHandler i conn_info = i"

definition singleton_releaseHandler :: "'w iface \<Rightarrow> ('w, unit) io" where
  "singleton_releaseHandler handler = iret ()"

section \<open>Facts\<close>

lemma multi_loop_snoc:
  "multi_loop call (is @ [i]) = ithen (iall (map (\<lambda>j. ithen (call j) (iret ())) is)) (call i)"
proof (induction "is")
  case (Cons j js)
  have "multi_loop call (j # js @ [i]) = ithen (call j) (multi_loop call (js @ [i]))"
    by (cases js) simp_all
  with Cons show ?case by (simp add: ithen_def ibind_assoc)
qed (simp add: ithen_def)

text \<open>One handler behind the class is that handler.\<close>

lemma multi_iface_single: "multi_iface [i] = i"
  by (simp add: multi_iface_def multi_get_client_id_def multi_register_client_id_def [abs_def]
      multi_async_get_def [abs_def] multi_async_put_def [abs_def] multi_async_get_batch_def [abs_def]
      multi_async_put_batch_def [abs_def] multi_get_def [abs_def] multi_put_def [abs_def]
      multi_get_batch_def [abs_def] multi_put_batch_def [abs_def])

end
