(* ===== verification/Batch.thy ===== *)
theory Batch
  imports Proxy_State Cpp_Queue
begin

text \<open>
  The consumer's work on one batch (\<^verbatim>\<open>pancake_proxy.cpp\<close>): \<open>is_true_distribution\<close>,
  \<open>create_security_batch\<close> and \<open>execute_batch\<close>. A promise is a number; the promise store
  says which are pending and which have their value. Theory \<open>Batch_Refinement\<close> has the
  refinement of \<open>execute_batch\<close> to a plain key-value map.
\<close>

section \<open>Promises\<close>

type_synonym promise_store = "nat \<rightharpoonup> string option"

text \<open>\<open>set_value\<close> on a promise that has its value already throws.\<close>

definition set_value :: "promise_store \<Rightarrow> nat \<Rightarrow> string \<Rightarrow> promise_store res" where
  "set_value ps pid v = (if ps pid = Some None then Inr (ps(pid \<mapsto> Some v)) else Inl Future_error)"

type_synonym op_queue = "(operation \<times> nat) queue"

section \<open>Building a batch\<close>

definition is_true_distribution :: "proxy_state \<Rightarrow> rng \<Rightarrow> bool \<times> rng" where
  "is_true_distribution p g =
     prob_quot 1 (2 * px_p_max p * real (card (dom (px_key_to_frequency p)))) g"

record batch =
  b_ops :: "operation list"
  b_trues :: "bool list"
  b_promises :: "nat list"

definition batch_empty :: batch where
  "batch_empty = \<lparr>b_ops = [], b_trues = [], b_promises = []\<rparr>"

definition batch_fake :: "string \<Rightarrow> batch \<Rightarrow> batch" where
  "batch_fake k b =
     b\<lparr>b_ops := b_ops b @ [\<lparr>op_key = k, op_value = []\<rparr>], b_trues := b_trues b @ [False]\<rparr>"

definition batch_real :: "operation \<times> nat \<Rightarrow> batch \<Rightarrow> batch" where
  "batch_real op_promise b =
     b\<lparr>b_ops := b_ops b @ [fst op_promise], b_trues := b_trues b @ [True],
       b_promises := b_promises b @ [snd op_promise]\<rparr>"

text \<open>
  One turn of the loop of \<open>create_security_batch\<close>. The consumer is the only thread that
  pops its queue, so a queue of positive size does not block it.
\<close>

definition security_step ::
    "proxy_state \<Rightarrow> op_queue \<Rightarrow> batch \<Rightarrow> rng \<Rightarrow> (op_queue \<times> batch \<times> rng) res" where
  "security_step p q b g =
     (let (is_true, g1) = is_true_distribution p g
      in if is_true then
           (if queue_size q = 0 then
              rbind (sample (px_real_distribution p) g1) (\<lambda>(k, g2). Inr (q, batch_fake k b, g2))
            else
              (case queue_pop q of
                 None \<Rightarrow> Inl Aborted
               | Some (op_promise, q') \<Rightarrow> Inr (q', batch_real op_promise b, g1)))
         else rbind (sample (px_fake_distribution p) g1) (\<lambda>(k, g2). Inr (q, batch_fake k b, g2)))"

fun security_loop ::
    "nat \<Rightarrow> proxy_state \<Rightarrow> op_queue \<Rightarrow> batch \<Rightarrow> rng \<Rightarrow> (op_queue \<times> batch \<times> rng) res" where
  "security_loop 0 p q b g = Inr (q, b, g)"
| "security_loop (Suc n) p q b g =
     rbind (security_step p q b g) (\<lambda>(q1, b1, g1). security_loop n p q1 b1 g1)"

definition create_security_batch ::
    "proxy_state \<Rightarrow> op_queue \<Rightarrow> batch \<Rightarrow> rng \<Rightarrow> (op_queue \<times> batch \<times> rng) res" where
  "create_security_batch p q b g = security_loop (nat (px_security_batch_size p)) p q b g"

section \<open>Executing a batch\<close>

text \<open>
  The first loop of \<open>execute_batch\<close>: a replica for each operation, its label, and the keys
  to read. The three \<open>operator[]\<close> reads insert defaults for unknown keys.
\<close>

fun choose_replicas ::
    "operation list \<Rightarrow> bool list \<Rightarrow> proxy_state \<Rightarrow> rng \<Rightarrow>
     (int list \<times> string list \<times> proxy_state \<times> rng) res" where
  "choose_replicas [] trues p g = Inr ([], [], p, g)"
| "choose_replicas (oper # ops) [] p g = Inl Out_of_range"
| "choose_replicas (oper # ops) (t # ts) p g =
     (let k = op_key oper;
          (n, nrs) = map_at 0 (px_key_to_number_of_replicas p) k;
          (f, freqs) = map_at 0 (px_key_to_frequency p) k;
          p1 = p\<lparr>px_key_to_number_of_replicas := nrs, px_key_to_frequency := freqs\<rparr>
      in rbind (sample_a_replica k n t f (px_p_max p1) (px_missing_new_replicas p1) g) (\<lambda>(rid, g1).
           let (l, labels) = map_at 0 (px_replica_to_label p1) (replica_name k rid);
               p2 = p1\<lparr>px_replica_to_label := labels\<rparr>
           in rbind (choose_replicas ops ts p2 g1) (\<lambda>(rids, storage_keys, p3, g2).
                Inr (rid # rids, to_string l # storage_keys, p3, g2))))"

text \<open>The update cache part of the second loop, for one operation and its plaintext.\<close>

definition apply_update ::
    "operation \<Rightarrow> int \<Rightarrow> string \<Rightarrow> proxy_state \<Rightarrow> (string \<times> proxy_state) res" where
  "apply_update oper rid plaintext0 p =
     rbind
       (if op_value oper \<noteq> [] then
          let (n, nrs) = map_at 0 (px_key_to_number_of_replicas p) (op_key oper)
          in rbind (populate_replica_updates (op_key oper) (op_value oper) n (px_update_cache p))
               (\<lambda>(_, uc). Inr (p\<lparr>px_key_to_number_of_replicas := nrs, px_update_cache := uc\<rparr>))
        else Inr p) (\<lambda>p1.
     rbind (check_for_update (op_key oper) rid (px_update_cache p1)) (\<lambda>(plaintext_update, uc).
       let plaintext = (if plaintext_update = [] then plaintext0 else plaintext_update)
       in rbind (check_if_missing (op_key oper) plaintext (px_missing_new_replicas p1) uc)
            (\<lambda>(missing, uc').
               Inr (plaintext, p1\<lparr>px_update_cache := uc', px_missing_new_replicas := missing\<rparr>))))"

definition fulfil ::
    "bool \<Rightarrow> nat list \<Rightarrow> string \<Rightarrow> promise_store \<Rightarrow> (nat list \<times> promise_store) res" where
  "fulfil is_true promises plaintext ps =
     (if is_true then
        (case promises of
           [] \<Rightarrow> Inl Out_of_range
         | pid # rest \<Rightarrow> rbind (set_value ps pid plaintext) (\<lambda>ps'. Inr (rest, ps')))
      else Inr (promises, ps))"

fun process_responses ::
    "'st env \<Rightarrow> operation list \<Rightarrow> int list \<Rightarrow> string list \<Rightarrow> bool list \<Rightarrow> nat list \<Rightarrow> proxy_state \<Rightarrow>
     promise_store \<Rightarrow> (string list \<times> proxy_state \<times> promise_store) res" where
  "process_responses E [] rids resps trues promises p ps = Inr ([], p, ps)"
| "process_responses E (oper # ops) (rid # rids) (cph # resps) (t # ts) promises p ps =
     rbind (env_decrypt E cph) (\<lambda>plaintext0.
     rbind (apply_update oper rid plaintext0 p) (\<lambda>(plaintext, p1).
     rbind (fulfil t promises plaintext ps) (\<lambda>(promises', ps1).
     rbind (env_encrypt E plaintext) (\<lambda>c.
     rbind (process_responses E ops rids resps ts promises' p1 ps1) (\<lambda>(storage_values, p2, ps2).
       Inr (c # storage_values, p2, ps2))))))"
| "process_responses E (oper # ops) _ _ _ promises p ps = Inl Out_of_range"

definition execute_batch ::
    "'st env \<Rightarrow> operation list \<Rightarrow> bool list \<Rightarrow> nat list \<Rightarrow> proxy_state \<Rightarrow> 'st \<Rightarrow> rng \<Rightarrow> promise_store \<Rightarrow>
     (proxy_state \<times> 'st \<times> rng \<times> promise_store) res" where
  "execute_batch E ops is_trues promises p st g ps =
     rbind (choose_replicas ops is_trues p g) (\<lambda>(rids, storage_keys, p1, g1).
     rbind (si_get_batch (env_storage E) st storage_keys) (\<lambda>responses.
     rbind (process_responses E ops rids responses is_trues promises p1 ps) (\<lambda>(storage_values, p2, ps').
     rbind (si_put_batch (env_storage E) st storage_keys storage_values) (\<lambda>st'.
       Inr (p2, st', g1, ps')))))"

section \<open>The abstract specification\<close>

text \<open>
  The operations one after the other on a map from keys to values; an empty value is a
  read. Each answers with the value of its key after it.
\<close>

definition spec_step :: "(string \<Rightarrow> string) \<Rightarrow> operation \<Rightarrow> string \<Rightarrow> string" where
  "spec_step V oper = (if op_value oper = [] then V else V(op_key oper := op_value oper))"

fun spec_run :: "(string \<Rightarrow> string) \<Rightarrow> operation list \<Rightarrow> string list \<times> (string \<Rightarrow> string)" where
  "spec_run V [] = ([], V)"
| "spec_run V (oper # ops) =
     (let V1 = spec_step V oper; (answers, V2) = spec_run V1 ops
      in (V1 (op_key oper) # answers, V2))"

fun real_answers :: "bool list \<Rightarrow> 'a list \<Rightarrow> 'a list" where
  "real_answers (t # ts) (a # as) = (if t then a # real_answers ts as else real_answers ts as)"
| "real_answers _ _ = []"

lemma length_spec_run [simp]: "length (fst (spec_run V ops)) = length ops"
  by (induction ops arbitrary: V) (auto simp: Let_def split_beta)

end
