(* ===== verification/Batch_Refinement.thy ===== *)
theory Batch_Refinement
  imports Batch
begin

text \<open>
  \<open>execute_batch\<close> against a plain key-value map, for a proxy whose distribution is not being
  changed (no missing replicas) and a batch that touches each label at most once: the
  batch answers and leaves the same map as its operations run one after the other.
\<close>

section \<open>Choosing replicas\<close>

fun aligned :: "proxy_state \<Rightarrow> operation list \<Rightarrow> int list \<Rightarrow> string list \<Rightarrow> bool" where
  "aligned p [] [] [] = True"
| "aligned p (oper # ops) (rid # rids) (s # ss) =
     (in_range p (op_key oper) rid \<and>
      (case label p (op_key oper) rid of Some l \<Rightarrow> s = to_string l | None \<Rightarrow> False) \<and>
      aligned p ops rids ss)"
| "aligned p _ _ _ = False"

fun_cases aligned_ConsE: "aligned p (oper # ops) rids ss"
fun_cases aligned_NilE: "aligned p [] rids ss"

definition same_tables :: "proxy_state \<Rightarrow> proxy_state \<Rightarrow> bool" where
  "same_tables p p' \<longleftrightarrow>
     px_key_to_number_of_replicas p' = px_key_to_number_of_replicas p \<and>
     px_replica_to_label p' = px_replica_to_label p \<and>
     px_real_distribution p' = px_real_distribution p \<and>
     px_fake_distribution p' = px_fake_distribution p \<and>
     px_p_max p' = px_p_max p \<and> px_dummy_key p' = px_dummy_key p \<and>
     px_security_batch_size p' = px_security_batch_size p \<and>
     px_storage_batch_size p' = px_storage_batch_size p"

lemma same_tables_refl [simp]: "same_tables p p"
  by (simp add: same_tables_def)

lemma same_tables_trans: "same_tables p q \<Longrightarrow> same_tables q r \<Longrightarrow> same_tables p r"
  by (simp add: same_tables_def)

lemma same_tables_simps:
  "same_tables p p' \<Longrightarrow> replicas p' = replicas p"
  "same_tables p p' \<Longrightarrow> label p' = label p"
  "same_tables p p' \<Longrightarrow> in_range p' = in_range p"
  "same_tables p p' \<Longrightarrow> labels_total p' = labels_total p"
  "same_tables p p' \<Longrightarrow> labels_inj p' = labels_inj p"
  by (simp_all add: same_tables_def fun_eq_iff replicas_def label_def in_range_def
      labels_total_def labels_inj_def)

lemma aligned_same_tables: "same_tables p p' \<Longrightarrow> aligned p' ops rids ss = aligned p ops rids ss"
  by (induction p ops rids ss rule: aligned.induct) (simp_all add: same_tables_simps)

lemma aligned_length: "aligned p ops rids ss \<Longrightarrow> length rids = length ops \<and> length ss = length ops"
  by (induction p ops rids ss rule: aligned.induct) auto

lemma replicas_pos_Some:
  "0 < replicas p k \<Longrightarrow> px_key_to_number_of_replicas p k = Some (replicas p k)"
  by (simp add: replicas_def split: option.splits)

lemma choose_replicas_static:
  assumes "labels_total p" and "px_missing_new_replicas p = Map.empty"
    and "\<forall>oper\<in>set ops. 0 < replicas p (op_key oper)" and "length ts = length ops"
  shows "\<exists>rids ss freqs g'. choose_replicas ops ts p g =
      Inr (rids, ss, p\<lparr>px_key_to_frequency := freqs\<rparr>, g') \<and> aligned p ops rids ss"
  using assms
proof (induction ops arbitrary: ts p g)
  case Nil
  then show ?case
    by (intro exI [of _ "[]"] exI [of _ "px_key_to_frequency p"]) simp
next
  case (Cons oper ops)
  obtain t ts' where ts: "ts = t # ts'" "length ts' = length ops"
    using Cons.prems(4) by (cases ts) auto
  define k where "k = op_key oper"
  define n where "n = replicas p k"
  have n: "0 < n" "px_key_to_number_of_replicas p k = Some n"
    using Cons.prems(3) replicas_pos_Some [of p k] by (auto simp: n_def k_def)
  obtain f freqs where f: "map_at 0 (px_key_to_frequency p) k = (f, freqs)" by fastforce
  obtain rid where rid: "rand_mod n g = Inr (rid, stl g)"
    using rand_mod_total [of n g] n(1) by auto
  have rng: "0 \<le> rid \<and> rid < n" using rand_mod_range [OF rid] n(1) by simp
  then have inr: "in_range p k rid" by (simp add: in_range_def n_def)
  then obtain l where l: "label p k rid = Some l"
    using Cons.prems(1) by (auto simp: labels_total_def)
  define p1 where "p1 = p\<lparr>px_key_to_frequency := freqs\<rparr>"
  have st: "same_tables p p1" by (simp add: same_tables_def p1_def)
  have "labels_total p1" "px_missing_new_replicas p1 = Map.empty"
      "\<forall>oper\<in>set ops. 0 < replicas p1 (op_key oper)"
    using Cons.prems st by (simp_all add: same_tables_simps p1_def)
  from Cons.IH [OF this ts(2), of "stl g"] obtain rids ss freqs' g' where
    ih: "choose_replicas ops ts' p1 (stl g) = Inr (rids, ss, p1\<lparr>px_key_to_frequency := freqs'\<rparr>, g')"
      "aligned p1 ops rids ss" by blast
  have p1: "p\<lparr>px_key_to_number_of_replicas := px_key_to_number_of_replicas p,
      px_key_to_frequency := freqs\<rparr> = p1" "p1\<lparr>px_replica_to_label := px_replica_to_label p\<rparr> = p1"
    by (simp_all add: p1_def)
  have "choose_replicas (oper # ops) ts p g =
      Inr (rid # rids, to_string l # ss, p\<lparr>px_key_to_frequency := freqs'\<rparr>, g')"
    using n(2) f rid l ih(1) Cons.prems(2)
    by (simp add: ts(1) Let_def k_def [symmetric] p1 sample_a_replica_static label_def)
       (simp add: p1_def)
  moreover have "aligned p (oper # ops) (rid # rids) (to_string l # ss)"
    using inr l ih(2) st by (simp add: k_def aligned_same_tables)
  ultimately show ?case by blast
qed

section \<open>Fulfilling promises\<close>

lemma fulfil_next:
  assumes "length pids = (if t then 1 else 0) + m" and "distinct pids"
    and "\<forall>pid\<in>set pids. ps pid = Some None"
  shows "\<exists>pids1 ps1. fulfil t pids v ps = Inr (pids1, ps1) \<and> length pids1 = m \<and> distinct pids1 \<and>
    (\<forall>pid\<in>set pids1. ps1 pid = Some None) \<and>
    (\<forall>ps2 as. map ps2 pids1 = map (\<lambda>a. Some (Some a)) as \<longrightarrow>
      (\<forall>pid. pid \<notin> set pids1 \<longrightarrow> ps2 pid = ps1 pid) \<longrightarrow>
      map ps2 pids = map (\<lambda>a. Some (Some a)) (if t then v # as else as) \<and>
      (\<forall>pid. pid \<notin> set pids \<longrightarrow> ps2 pid = ps pid))"
proof (cases t)
  case True
  then obtain q qs where q: "pids = q # qs" using assms(1) by (cases pids) simp_all
  have new: "q \<notin> set qs" "distinct qs" "ps q = Some None" using assms(2,3) q by simp_all
  have "fulfil t pids v ps = Inr (qs, ps(q \<mapsto> Some v))"
    using True q new(3) by (simp add: fulfil_def set_value_def)
  moreover have "length qs = m" using assms(1) True q by simp
  moreover have "\<forall>pid\<in>set qs. (ps(q \<mapsto> Some v)) pid = Some None"
    using assms(3) new(1) q by auto
  moreover have "map ps2 pids = map (\<lambda>a. Some (Some a)) (if t then v # as else as) \<and>
      (\<forall>pid. pid \<notin> set pids \<longrightarrow> ps2 pid = ps pid)"
    if "map ps2 qs = map (\<lambda>a. Some (Some a)) as"
      "\<forall>pid. pid \<notin> set qs \<longrightarrow> ps2 pid = (ps(q \<mapsto> Some v)) pid" for ps2 as
    using that q new(1) True by simp
  ultimately show ?thesis using True new(2) by blast
next
  case False
  then have "fulfil t pids v ps = Inr (pids, ps)" "length pids = m"
    using assms(1) by (simp_all add: fulfil_def)
  with False assms(2,3) show ?thesis by (simp only: if_False) blast
qed

section \<open>One operation\<close>

context replica_store begin

lemma apply_update_spec:
  assumes wf: "proxy_wf p" and h: "holds E p vw V" and miss: "px_missing_new_replicas p = Map.empty"
    and inr: "in_range p (op_key oper) rid" and l: "label p (op_key oper) rid = Some l"
    and c0: "vw (to_string l) = Some c0" "env_decrypt E c0 = Inr x0"
    and V: "valid (V (op_key oper))" and val: "op_value oper = [] \<or> valid (op_value oper)"
  shows "\<exists>p'. apply_update oper rid x0 p = Inr (spec_step V oper (op_key oper), p') \<and>
    proxy_wf p' \<and> same_tables p p' \<and> px_missing_new_replicas p' = Map.empty \<and>
    (\<forall>c1. env_decrypt E c1 = Inr (spec_step V oper (op_key oper)) \<longrightarrow>
       holds E p' (vw(to_string l \<mapsto> c1)) (spec_step V oper))"
proof -
  define k where "k = op_key oper"
  define V' where "V' = spec_step V oper"
  define R where "R = replicas p"
  define uc where "uc = px_update_cache p"
  define pend where "pend = (if op_value oper = [] then cache_pending uc
     else (cache_pending uc)(k := (\<lambda>i. if 0 \<le> i \<and> i < R k then Some (op_value oper) else None)))"
  have sz: "cache_sized R uc" using wf by (simp add: proxy_wf_def R_def uc_def)
  have ik: "0 \<le> rid" "rid < R k" using inr by (simp_all add: in_range_def R_def k_def)
  have nk: "px_key_to_number_of_replicas p k = Some (R k)"
    using ik replicas_pos_Some [of p k] by (simp add: R_def)
  obtain uc1 where uc1: "cache_sized R uc1" "cache_pending uc1 = pend"
    and step1: "(if op_value oper \<noteq> [] then
          let (n, nrs) = map_at 0 (px_key_to_number_of_replicas p) (op_key oper)
          in rbind (populate_replica_updates (op_key oper) (op_value oper) n (px_update_cache p))
               (\<lambda>(_, uc). Inr (p\<lparr>px_key_to_number_of_replicas := nrs, px_update_cache := uc\<rparr>))
        else Inr p) = Inr (p\<lparr>px_update_cache := uc1\<rparr>)"
  proof (cases "op_value oper = []")
    case True
    with sz that [of uc] show ?thesis by (simp add: pend_def uc_def)
  next
    case False
    have "0 \<le> R k" using ik by simp
    then obtain b c' where "populate_replica_updates k (op_value oper) (R k) uc = Inr (b, c')"
        "cache_sized R c'" "cache_pending c' =
          (cache_pending uc)(k := (\<lambda>i. if 0 \<le> i \<and> i < R k then Some (op_value oper) else None))"
      using ucache.put_law [OF sz] by blast
    with False nk that [of c'] show ?thesis
      by (simp add: k_def uc_def pend_def)
  qed
  obtain uc2 where uc2: "check_for_update k rid uc1
        = Inr (case pend k rid of Some v \<Rightarrow> v | None \<Rightarrow> [], uc2)"
      "cache_sized R uc2" "cache_pending uc2 = pend(k := (pend k)(rid := None))"
    using ucache.take_law [OF uc1(1) ik] uc1(2) by auto
  have old: "\<exists>l c x. label p k' i' = Some l \<and> vw (to_string l) = Some c \<and> env_decrypt E c = Inr x \<and>
      (case cache_pending uc k' i' of Some v \<Rightarrow> v = V k' | None \<Rightarrow> x = V k')" if "in_range p k' i'" for k' i'
    using h that by (simp add: holds_def uc_def)
  have x0: "x0 = V k" if "cache_pending uc k rid = None"
    using old [of k rid] inr l c0 that by (auto simp: k_def)
  have pv: "v = V k" if "cache_pending uc k rid = Some v" for v
    using old [of k rid] inr that by (auto simp: k_def)
  have V'_at: "V' k' = (if op_value oper \<noteq> [] \<and> k' = k then op_value oper else V k')" for k'
    by (simp add: V'_def spec_step_def k_def)
  have plain: "(if (case pend k rid of Some v \<Rightarrow> v | None \<Rightarrow> []) = [] then x0
      else (case pend k rid of Some v \<Rightarrow> v | None \<Rightarrow> [])) = V' k"
  proof -
    have "\<not> valid []" using valid_nonempty by blast
    with x0 pv ik val V show ?thesis
      by (auto simp: pend_def V'_def spec_step_def k_def split: option.splits)
  qed
  define p' where "p' = p\<lparr>px_update_cache := uc2, px_missing_new_replicas := Map.empty\<rparr>"
  have run: "apply_update oper rid x0 p = Inr (V' k, p')"
    unfolding apply_update_def step1
    using uc2(1) plain miss
    by (simp add: k_def [symmetric] check_if_missing_def Let_def p'_def)
  have st: "same_tables p p'" by (simp add: same_tables_def p'_def)
  have wf': "proxy_wf p'"
    using wf uc2(2) st by (simp add: proxy_wf_def same_tables_simps R_def) (simp add: p'_def)
  have h': "holds E p' (vw(to_string l \<mapsto> c1)) V'" if c1: "env_decrypt E c1 = Inr (V' k)" for c1
    unfolding holds_def
  proof (intro allI impI)
    fix k' i' assume r: "in_range p' k' i'"
    then have r': "in_range p k' i'" using st by (simp add: same_tables_simps)
    show "\<exists>l' c x. label p' k' i' = Some l' \<and> (vw(to_string l \<mapsto> c1)) (to_string l') = Some c \<and>
       env_decrypt E c = Inr x \<and>
       (case cache_pending (px_update_cache p') k' i' of Some v \<Rightarrow> v = V' k' | None \<Rightarrow> x = V' k')"
    proof (cases "k' = k \<and> i' = rid")
      case True
      then show ?thesis
        using l c1 st uc2(3) by (simp add: k_def same_tables_simps p'_def)
    next
      case False
      obtain l' c x where o: "label p k' i' = Some l'" "vw (to_string l') = Some c"
          "env_decrypt E c = Inr x"
          "case cache_pending uc k' i' of Some v \<Rightarrow> v = V k' | None \<Rightarrow> x = V k'"
        using old [OF r'] by blast
      have "l' \<noteq> l"
        using wf False r' inr l o(1) unfolding proxy_wf_def labels_inj_def k_def by metis
      moreover have "cache_pending uc2 k' i' = pend k' i'" using False uc2(3) by auto
      moreover have "case pend k' i' of Some v \<Rightarrow> v = V' k' | None \<Rightarrow> x = V' k'"
        using o(4) r' by (cases "op_value oper = []"; cases "k' = k")
          (simp_all add: pend_def V'_at in_range_def R_def split: option.splits)
      ultimately show ?thesis
        using o st by (simp add: same_tables_simps p'_def)
    qed
  qed
  show ?thesis
    using run wf' st h' by (auto simp: V'_def k_def p'_def)
qed

section \<open>The whole batch\<close>

text \<open>Storing under a fresh label does not disturb the reads of the rest of the batch.\<close>

lemma process_responses_spec:
  assumes "aligned p ops rids ss" and "distinct ss" and "length ts = length ops"
    and "set ss \<subseteq> dom vw" and "proxy_wf p" and "holds E p vw V"
    and "px_missing_new_replicas p = Map.empty"
    and "\<forall>k. 0 < replicas p k \<longrightarrow> valid (V k)"
    and "\<forall>oper\<in>set ops. op_value oper = [] \<or> valid (op_value oper)"
    and "length pids = length (filter (\<lambda>t. t) ts)" and "distinct pids"
    and "\<forall>pid\<in>set pids. ps pid = Some None"
  shows "\<exists>vals p' ps'.
    process_responses E ops rids (map (\<lambda>s. the (vw s)) ss) ts pids p ps = Inr (vals, p', ps') \<and>
    length vals = length ops \<and> proxy_wf p' \<and> same_tables p p' \<and>
    px_missing_new_replicas p' = Map.empty \<and>
    holds E p' (put_all vw ss vals) (snd (spec_run V ops)) \<and>
    map ps' pids = map (\<lambda>a. Some (Some a)) (real_answers ts (fst (spec_run V ops))) \<and>
    (\<forall>pid. pid \<notin> set pids \<longrightarrow> ps' pid = ps pid)"
  using assms
proof (induction ops arbitrary: rids ss ts pids p ps vw V)
  case Nil
  have "ss = []" "ts = []" "pids = []"
    using aligned_length [OF Nil.prems(1)] Nil.prems(3,10) by simp_all
  with Nil.prems show ?case by simp
next
  case (Cons oper ops)
  obtain rid rids' s ss' t ts' where lists: "rids = rid # rids'" "ss = s # ss'" "ts = t # ts'"
    using aligned_length [OF Cons.prems(1)] Cons.prems(3)
    by (cases rids; cases ss; cases ts) auto
  obtain l where l: "in_range p (op_key oper) rid" "label p (op_key oper) rid = Some l"
      "s = to_string l" "aligned p ops rids' ss'"
    using Cons.prems(1) lists by (auto split: option.splits)
  obtain c0 x0 where c0: "vw s = Some c0" "env_decrypt E c0 = Inr x0"
    using Cons.prems(6) l unfolding holds_def by fastforce
  define V1 where "V1 = spec_step V oper"
  define plain where "plain = V1 (op_key oper)"
  have pos: "0 < replicas p (op_key oper)" using l(1) by (auto simp: in_range_def)
  obtain p1 where p1: "apply_update oper rid x0 p = Inr (plain, p1)" "proxy_wf p1"
      "same_tables p p1" "px_missing_new_replicas p1 = Map.empty"
      "\<And>c1. env_decrypt E c1 = Inr plain \<Longrightarrow> holds E p1 (vw(s \<mapsto> c1)) V1"
    using apply_update_spec [OF Cons.prems(5,6,7) l(1,2), of c0 x0] c0 l(3) Cons.prems(8,9) pos
    by (auto simp: plain_def V1_def)
  have vplain: "valid plain"
    using Cons.prems(8,9) pos by (auto simp: plain_def V1_def spec_step_def)
  obtain c1 where c1: "env_encrypt E plain = Inr c1" "env_decrypt E c1 = Inr plain"
    using roundtrip_law [OF vplain] by blast
  have np: "length pids = (if t then 1 else 0) + length (filter (\<lambda>t. t) ts')"
    using Cons.prems(10) by (simp add: lists(3))
  obtain pids1 ps1 where ful: "fulfil t pids plain ps = Inr (pids1, ps1)"
      "length pids1 = length (filter (\<lambda>t. t) ts')" "distinct pids1"
      "\<forall>pid\<in>set pids1. ps1 pid = Some None"
      "\<And>ps2 as. map ps2 pids1 = map (\<lambda>a. Some (Some a)) as \<Longrightarrow>
        \<forall>pid. pid \<notin> set pids1 \<longrightarrow> ps2 pid = ps1 pid \<Longrightarrow>
        map ps2 pids = map (\<lambda>a. Some (Some a)) (if t then plain # as else as) \<and>
        (\<forall>pid. pid \<notin> set pids \<longrightarrow> ps2 pid = ps pid)"
    using fulfil_next [OF np Cons.prems(11,12)] by blast
  define vw1 where "vw1 = vw(s \<mapsto> c1)"
  have ss': "s \<notin> set ss'" "distinct ss'" using Cons.prems(2) lists(2) by simp_all
  have reads: "map (\<lambda>s. the (vw s)) ss' = map (\<lambda>s. the (vw1 s)) ss'"
    using ss'(1) by (auto simp: vw1_def)
  have a1: "aligned p1 ops rids' ss'" using l(4) aligned_same_tables [OF p1(3)] by blast
  have len1: "length ts' = length ops" using Cons.prems(3) lists(3) by simp
  have dom1: "set ss' \<subseteq> dom vw1" using Cons.prems(4) lists(2) by (auto simp: vw1_def)
  have h1: "holds E p1 vw1 V1" unfolding vw1_def by (rule p1(5) [OF c1(2)])
  have v1: "\<forall>k. 0 < replicas p1 k \<longrightarrow> valid (V1 k)"
    using Cons.prems(8,9) same_tables_simps(1) [OF p1(3)] by (auto simp: V1_def spec_step_def)
  have o1: "\<forall>oper\<in>set ops. op_value oper = [] \<or> valid (op_value oper)"
    using Cons.prems(9) by simp
  obtain vals p2 ps2 where rec: "process_responses E ops rids' (map (\<lambda>s. the (vw1 s)) ss') ts' pids1 p1 ps1
        = Inr (vals, p2, ps2)" "length vals = length ops" "proxy_wf p2" "same_tables p1 p2"
      "px_missing_new_replicas p2 = Map.empty"
      "holds E p2 (put_all vw1 ss' vals) (snd (spec_run V1 ops))"
      "map ps2 pids1 = map (\<lambda>a. Some (Some a)) (real_answers ts' (fst (spec_run V1 ops)))"
      "\<forall>pid. pid \<notin> set pids1 \<longrightarrow> ps2 pid = ps1 pid"
    using Cons.IH [OF a1 ss'(2) len1 dom1 p1(2) h1 p1(4) v1 o1 ful(2,3,4)] by blast
  have run: "process_responses E (oper # ops) rids (map (\<lambda>s. the (vw s)) ss) ts pids p ps
      = Inr (c1 # vals, p2, ps2)"
    unfolding lists list.map process_responses.simps reads c0(1) option.sel c0(2) p1(1) ful(1) c1(1)
      rec(1) rbind_simps prod.case ..
  have answers: "real_answers ts (fst (spec_run V (oper # ops)))
      = (if t then plain # real_answers ts' (fst (spec_run V1 ops))
         else real_answers ts' (fst (spec_run V1 ops)))"
    by (simp add: lists(3) Let_def split_beta V1_def plain_def)
  have final: "snd (spec_run V (oper # ops)) = snd (spec_run V1 ops)"
    by (simp add: Let_def split_beta V1_def)
  have h2: "holds E p2 (put_all vw ss (c1 # vals)) (snd (spec_run V (oper # ops)))"
    using rec(6) unfolding final lists(2) put_all_Cons vw1_def .
  have len2: "length (c1 # vals) = length (oper # ops)" using rec(2) by simp
  show ?case
    using run len2 rec(3) same_tables_trans [OF p1(3) rec(4)] rec(5) h2 ful(5) [OF rec(7,8)]
    unfolding answers by blast
qed

lemma aligned_keys_stored:
  assumes "aligned p ops rids ss" and "holds E p vw V"
  shows "set ss \<subseteq> dom vw"
  using assms
proof (induction p ops rids ss rule: aligned.induct)
  case (2 p oper ops rid rids s ss)
  then show ?case
    unfolding holds_def by (fastforce split: option.splits)
qed simp_all

lemma execute_batch_spec:
  assumes sound: "sound st" and wf: "proxy_wf p" and h: "holds E p (view st) V"
    and static: "px_missing_new_replicas p = Map.empty"
    and known: "\<forall>oper\<in>set ops. 0 < replicas p (op_key oper)"
    and V: "\<forall>k. 0 < replicas p k \<longrightarrow> valid (V k)"
    and vals: "\<forall>oper\<in>set ops. op_value oper = [] \<or> valid (op_value oper)"
    and ts: "length ts = length ops" and n: "length pids = length (filter (\<lambda>t. t) ts)"
    and pids: "distinct pids" "\<forall>pid\<in>set pids. ps pid = Some None"
    and labels: "\<forall>rids ss p1 g1. choose_replicas ops ts p g = Inr (rids, ss, p1, g1) \<longrightarrow> distinct ss"
  shows "\<exists>p' st' g' ps'. execute_batch E ops ts pids p st g ps = Inr (p', st', g', ps') \<and>
    sound st' \<and> proxy_wf p' \<and> holds E p' (view st') (snd (spec_run V ops)) \<and>
    map ps' pids = map (\<lambda>a. Some (Some a)) (real_answers ts (fst (spec_run V ops))) \<and>
    same_tables p p' \<and> px_missing_new_replicas p' = Map.empty \<and>
    (\<forall>pid. pid \<notin> set pids \<longrightarrow> ps' pid = ps pid)"
proof -
  have "labels_total p" using wf by (simp add: proxy_wf_def)
  then obtain rids ss freqs g1 where choose: "choose_replicas ops ts p g =
      Inr (rids, ss, p\<lparr>px_key_to_frequency := freqs\<rparr>, g1)" and al: "aligned p ops rids ss"
    using choose_replicas_static [OF _ static known ts] by blast
  define p1 where "p1 = p\<lparr>px_key_to_frequency := freqs\<rparr>"
  have choose: "choose_replicas ops ts p g = Inr (rids, ss, p1, g1)"
    using choose by (simp add: p1_def)
  have h1: "holds E p1 (view st) V"
    using h by (subst proxy_inv_cong(2) [of p1 p]) (simp_all add: p1_def)
  have same: "same_tables p p1" "proxy_wf p1" "px_missing_new_replicas p1 = Map.empty"
    using wf static proxy_inv_cong(1) [of p1 p] by (simp_all add: p1_def same_tables_def)
  have al1: "aligned p1 ops rids ss" using al aligned_same_tables [OF same(1)] by simp
  have d: "distinct ss" using labels choose by blast
  have stored: "set ss \<subseteq> dom (view st)" by (rule aligned_keys_stored [OF al h])
  have V1: "\<forall>k. 0 < replicas p1 k \<longrightarrow> valid (V k)"
    using V same_tables_simps(1) [OF same(1)] by simp
  obtain cs p2 ps2 where run: "process_responses E ops rids (map (\<lambda>s. the (view st s)) ss) ts pids p1 ps
        = Inr (cs, p2, ps2)" "length cs = length ops" "proxy_wf p2"
      "same_tables p1 p2" "px_missing_new_replicas p2 = Map.empty"
      "\<forall>pid. pid \<notin> set pids \<longrightarrow> ps2 pid = ps pid"
      "holds E p2 (put_all (view st) ss cs) (snd (spec_run V ops))"
      "map ps2 pids = map (\<lambda>a. Some (Some a)) (real_answers ts (fst (spec_run V ops)))"
    using process_responses_spec [OF al1 d ts stored same(2) h1 same(3) V1 vals n pids] by blast
  have "length ss = length cs" using aligned_length [OF al] run(2) by simp
  then obtain st' where st': "si_put_batch (env_storage E) st ss cs = Inr st'" "sound st'"
      "view st' = put_all (view st) ss cs"
    using put_batch_law [OF sound] by blast
  have "execute_batch E ops ts pids p st g ps = Inr (p2, st', g1, ps2)"
    using choose get_batch_law [OF sound stored] run(1) st'(1) by (simp add: execute_batch_def)
  then show ?thesis
    using st'(2,3) run(3-8) same_tables_trans [OF same(1) run(4)] by auto
qed

end

end
