(* ===== verification/Consumer.thy ===== *)
theory Consumer
  imports Batch_Refinement
begin

text \<open>
  The consumer thread of \<^verbatim>\<open>pancake_proxy.cpp\<close> with the request threads that feed its
  queue. \<open>consumer_step\<close> is one step of \<open>consumer_thread\<close>, with the program point made
  explicit; \<open>consumer_run\<close> interleaves these steps with arriving requests and with
  \<open>close\<close>. Theory \<open>Consumer_Properties\<close> is about every run: requests are answered in the order they
  were queued, and the answers are those of a plain map.
\<close>

section \<open>Program points and state\<close>

text \<open>
  \<open>Outer\<close>: the test of the outer loop. \<open>Inner\<close>: the test of the inner loop. \<open>Rounds i\<close>: the
  test of its \<open>for\<close> loop. \<open>Slots i j\<close>: the test of the loop in \<open>create_security_batch\<close>.
\<close>

datatype consumer_point = Outer | Inner | Rounds "32 word" | Slots "32 word" int | Done

record 'st consumer =
  cs_point :: consumer_point
  cs_proxy :: proxy_state
  cs_queue :: op_queue
  cs_batch :: batch
  cs_serviced :: "32 word"
  cs_previous :: "32 word"
  cs_total :: "32 word"
  cs_storage :: 'st
  cs_rng :: rng
  cs_promises :: promise_store
  cs_finished :: bool

text \<open>\<open>storage_batch.size() < storage_batch_size_\<close> compares as \<open>size_t\<close>.\<close>

definition batch_open :: "'st consumer \<Rightarrow> bool" where
  "batch_open s \<longleftrightarrow>
     int (length (b_ops (cs_batch s))) < px_storage_batch_size (cs_proxy s) mod 2 ^ 64 \<and>
     \<not> cs_finished s"

definition consumer_execute :: "'st env \<Rightarrow> 'st consumer \<Rightarrow> 'st consumer res" where
  "consumer_execute E s =
     (let b = cs_batch s
      in rbind (execute_batch E (b_ops b) (b_trues b) (b_promises b) (cs_proxy s) (cs_storage s)
                  (cs_rng s) (cs_promises s)) (\<lambda>(p', st', g', ps').
           Inr (s\<lparr>cs_point := Outer, cs_proxy := p', cs_storage := st', cs_rng := g',
                 cs_promises := ps', cs_batch := batch_empty\<rparr>)))"

definition consumer_step :: "'st env \<Rightarrow> 'st consumer \<Rightarrow> 'st consumer res" where
  "consumer_step E s =
     (case cs_point s of
        Outer \<Rightarrow>
          Inr (if cs_finished s then s\<lparr>cs_point := Done\<rparr>
               else s\<lparr>cs_point := Inner, cs_batch := batch_empty\<rparr>)
      | Inner \<Rightarrow>
          (if batch_open s then
             Inr (s\<lparr>cs_total := size_ctr (cs_queue s) + cs_serviced s, cs_point := Rounds 0\<rparr>)
           else consumer_execute E s)
      | Rounds i \<Rightarrow>
          (if sint i < sint (cs_total s - cs_previous s) then Inr (s\<lparr>cs_point := Slots i 0\<rparr>)
           else if i \<noteq> 0 then
             Inr (s\<lparr>cs_serviced := cs_serviced s + i, cs_previous := cs_total s, cs_point := Inner\<rparr>)
           else Inr (s\<lparr>cs_point := Inner\<rparr>))
      | Slots i j \<Rightarrow>
          (if j < px_security_batch_size (cs_proxy s) then
             rbind (security_step (cs_proxy s) (cs_queue s) (cs_batch s) (cs_rng s))
               (\<lambda>(q', b', g'). Inr (s\<lparr>cs_queue := q', cs_batch := b', cs_rng := g',
                                     cs_point := Slots i (j + 1)\<rparr>))
           else Inr (s\<lparr>cs_point := Rounds (i + 1)\<rparr>))
      | Done \<Rightarrow> Inr s)"

text \<open>A request thread puts a request with a new promise on the queue.\<close>

definition submit :: "operation \<Rightarrow> nat \<Rightarrow> 'st consumer \<Rightarrow> 'st consumer" where
  "submit oper pid s =
     s\<lparr>cs_queue := queue_push (oper, pid) (cs_queue s),
       cs_promises := (cs_promises s)(pid \<mapsto> None)\<rparr>"

definition batch_append :: "batch \<Rightarrow> batch \<Rightarrow> batch" where
  "batch_append a b =
     \<lparr>b_ops = b_ops a @ b_ops b, b_trues = b_trues a @ b_trues b,
      b_promises = b_promises a @ b_promises b\<rparr>"

definition executes :: "'st consumer \<Rightarrow> bool" where
  "executes s \<longleftrightarrow> cs_point s = Inner \<and> \<not> batch_open s"

definition filling :: "'st env \<Rightarrow> 'st consumer \<Rightarrow> 'st consumer \<Rightarrow> bool" where
  "filling E s s' \<longleftrightarrow> \<not> executes s \<and> consumer_step E s = Inr s'"

lemma fills_0: "(filling E ^^ 0) s s"
  by simp

lemma fills_Suc: "(filling E ^^ n) s s' \<Longrightarrow> filling E s' s'' \<Longrightarrow> (filling E ^^ Suc n) s s''"
  by auto

lemma filling_shared:
  "filling E s s' \<Longrightarrow> cs_proxy s' = cs_proxy s \<and> cs_storage s' = cs_storage s \<and>
     cs_promises s' = cs_promises s \<and> cs_finished s' = cs_finished s"
  by (cases "cs_point s") (auto simp: filling_def consumer_step_def executes_def rbind_Inr_iff split: if_splits)

text \<open>
  \<open>consumer_run E A P s0 subs hist s\<close>: from \<open>s0\<close> to \<open>s\<close>, where \<open>subs\<close> are the requests
  queued and \<open>hist\<close> is the concatenation of the batches executed. \<open>A\<close> restricts the
  requests and \<open>P\<close> the states from which the consumer steps.
\<close>

inductive consumer_run ::
    "'st env \<Rightarrow> (operation \<Rightarrow> bool) \<Rightarrow> ('st consumer \<Rightarrow> bool) \<Rightarrow> 'st consumer \<Rightarrow>
     (operation \<times> nat) list \<Rightarrow> batch \<Rightarrow> 'st consumer \<Rightarrow> bool"
  for E A P s0 where
  run_start: "consumer_run E A P s0 [] batch_empty s0"
| run_submit: "consumer_run E A P s0 subs hist s \<Longrightarrow> A oper \<Longrightarrow> cs_promises s pid = None \<Longrightarrow>
    consumer_run E A P s0 (subs @ [(oper, pid)]) hist (submit oper pid s)"
| run_close: "consumer_run E A P s0 subs hist s \<Longrightarrow>
    consumer_run E A P s0 subs hist (s\<lparr>cs_finished := True\<rparr>)"
| run_step: "consumer_run E A P s0 subs hist s \<Longrightarrow> P s \<Longrightarrow> consumer_step E s = Inr s' \<Longrightarrow>
    consumer_run E A P s0 subs
      (if executes s then batch_append hist (cs_batch s) else hist) s'"

definition consumer_initial :: "'st consumer \<Rightarrow> bool" where
  "consumer_initial s \<longleftrightarrow> cs_point s = Outer \<and> cs_queue s = queue_new \<and> cs_batch s = batch_empty \<and>
     cs_serviced s = 0 \<and> cs_previous s = 0 \<and> cs_promises s = Map.empty"

section \<open>Well-formed batches\<close>

definition batch_wf :: "batch \<Rightarrow> bool" where
  "batch_wf b \<longleftrightarrow> list_all2 (\<lambda>t oper. t \<or> op_value oper = []) (b_trues b) (b_ops b) \<and>
     length (b_promises b) = length (filter (\<lambda>t. t) (b_trues b))"

definition real_pairs :: "batch \<Rightarrow> (operation \<times> nat) list" where
  "real_pairs b = zip (real_answers (b_trues b) (b_ops b)) (b_promises b)"

lemma real_answers_append:
  "length ts = length xs \<Longrightarrow> real_answers (ts @ ts') (xs @ ys) = real_answers ts xs @ real_answers ts' ys"
  by (induction ts xs rule: list_induct2) auto

lemma length_real_answers:
  "length ts = length xs \<Longrightarrow> length (real_answers ts xs) = length (filter (\<lambda>t. t) ts)"
  by (induction ts xs rule: list_induct2) auto

lemma batch_wf_lengths:
  "batch_wf b \<Longrightarrow> length (b_trues b) = length (b_ops b) \<and>
     length (real_answers (b_trues b) (b_ops b)) = length (b_promises b)"
  by (auto simp: batch_wf_def length_real_answers dest: list_all2_lengthD)

lemma batch_wf_empty [simp]: "batch_wf batch_empty" "real_pairs batch_empty = []"
  by (simp_all add: batch_wf_def batch_empty_def real_pairs_def)

lemma batch_append_wf: "batch_wf a \<Longrightarrow> batch_wf b \<Longrightarrow> batch_wf (batch_append a b)"
  by (simp add: batch_wf_def batch_append_def list_all2_appendI)

lemma real_pairs_append:
  "batch_wf a \<Longrightarrow> real_pairs (batch_append a b) = real_pairs a @ real_pairs b"
  using batch_wf_lengths [of a]
  by (simp add: real_pairs_def batch_append_def real_answers_append)

lemma b_promises_append [simp]: "b_promises (batch_append a b) = b_promises a @ b_promises b"
  by (simp add: batch_append_def)

lemma batch_append_empty [simp]: "batch_append batch_empty b = b"
  by (simp add: batch_append_def batch_empty_def)

lemma batch_fake_wf:
  assumes "batch_wf b"
  shows "batch_wf (batch_fake k b)" and "real_pairs (batch_fake k b) = real_pairs b"
  using assms batch_wf_lengths [OF assms]
  by (simp_all add: batch_wf_def batch_fake_def list_all2_appendI real_pairs_def real_answers_append)

lemma batch_real_wf:
  assumes "batch_wf b"
  shows "batch_wf (batch_real x b)" and "real_pairs (batch_real x b) = real_pairs b @ [x]"
  using assms batch_wf_lengths [OF assms]
  by (simp_all add: batch_wf_def batch_real_def list_all2_appendI real_pairs_def real_answers_append)

lemma map_snd_real_pairs: "batch_wf b \<Longrightarrow> map snd (real_pairs b) = b_promises b"
  by (simp add: real_pairs_def batch_wf_lengths)

lemma map_fst_real_pairs:
  "batch_wf b \<Longrightarrow> map fst (real_pairs b) = real_answers (b_trues b) (b_ops b)"
  by (simp add: real_pairs_def batch_wf_lengths)

text \<open>Reads do not change the map, so the fake operations do not show in the answers.\<close>

lemma spec_run_reals:
  "list_all2 (\<lambda>t oper. t \<or> op_value oper = []) ts ops \<Longrightarrow>
   real_answers ts (fst (spec_run V ops)) = fst (spec_run V (real_answers ts ops)) \<and>
   snd (spec_run V ops) = snd (spec_run V (real_answers ts ops))"
proof (induction arbitrary: V rule: list_all2_induct)
  case Nil
  then show ?case by simp
next
  case (Cons t ts oper ops)
  then show ?case
    by (cases t) (auto simp: Let_def split_beta spec_step_def)
qed

lemma spec_run_append:
  "fst (spec_run V (xs @ ys)) = fst (spec_run V xs) @ fst (spec_run (snd (spec_run V xs)) ys)"
  "snd (spec_run V (xs @ ys)) = snd (spec_run (snd (spec_run V xs)) ys)"
  by (induction xs arbitrary: V) (simp_all add: Let_def split_beta)

section \<open>What one step does to queue, batch and promises\<close>

lemma security_step_cases:
  assumes "security_step p q b g = Inr (q', b', g')"
  obtains (fake) d k g1 where "b' = batch_fake k b" "q' = q" "sample d g1 = Inr (k, g')"
      "d = px_real_distribution p \<or> d = px_fake_distribution p"
    | (real) x where "b' = batch_real x b" "queue_pop q = Some (x, q')"
  using assms
  by (auto simp: security_step_def Let_def rbind_Inr_iff split: prod.splits if_splits option.splits)

lemma security_step_pairs:
  assumes "security_step p q b g = Inr (q', b', g')" and "batch_wf b" and "queue_ok q"
  shows "batch_wf b' \<and> real_pairs b' @ m_queue q' = real_pairs b @ m_queue q \<and> queue_ok q' \<and>
    length (b_ops b') = Suc (length (b_ops b))"
  using assms(1)
proof (cases rule: security_step_cases)
  case fake
  then show ?thesis using batch_fake_wf [OF assms(2)] assms(3) by (simp add: batch_fake_def)
next
  case (real x)
  then show ?thesis
    using batch_real_wf [OF assms(2)] cppq.deq_Some [OF assms(3) real(2)]
    by (simp add: batch_real_def)
qed

lemma security_step_total:
  assumes "queue_ok q"
    and "\<forall>g. \<exists>k. sample (px_real_distribution p) g = Inr (k, stl g)"
    and "\<forall>g. \<exists>k. sample (px_fake_distribution p) g = Inr (k, stl g)"
  shows "\<exists>r. security_step p q b g = Inr r"
proof -
  have "m_queue q \<noteq> []" if "queue_size q \<noteq> 0"
    using that assms(1) by (auto simp: queue_ok_def queue_size_def)
  then have pop: "\<exists>x q'. queue_pop q = Some (x, q')" if "queue_size q \<noteq> 0"
    using that by (cases "queue_pop q") auto
  obtain t g1 where t: "is_true_distribution p g = (t, g1)" by fastforce
  obtain k k' where "sample (px_real_distribution p) g1 = Inr (k, stl g1)"
      "sample (px_fake_distribution p) g1 = Inr (k', stl g1)"
    using assms(2,3) by meson
  with t pop show ?thesis
    by (cases "queue_size q = 0") (auto simp: security_step_def)
qed

lemma process_responses_promises:
  assumes "process_responses E ops rids cs ts pids p ps = Inr (vals, p', ps')"
    and "length ts = length ops" and "length pids = length (filter (\<lambda>t. t) ts)" and "distinct pids"
  shows "(\<forall>pid\<in>set pids. \<exists>v. ps' pid = Some (Some v)) \<and> (\<forall>pid. pid \<notin> set pids \<longrightarrow> ps' pid = ps pid)"
  using assms
proof (induction E ops rids cs ts pids p ps arbitrary: vals p' ps' rule: process_responses.induct)
  case (2 E oper ops rid rids cph resps t ts pids p ps)
  from 2(2) obtain plain0 plain p1 pids1 ps1 c vals1 where s:
      "env_decrypt E cph = Inr plain0" "apply_update oper rid plain0 p = Inr (plain, p1)"
      "fulfil t pids plain ps = Inr (pids1, ps1)" "env_encrypt E plain = Inr c"
      "process_responses E ops rids resps ts pids1 p1 ps1 = Inr (vals1, p', ps')"
    by (auto simp: rbind_Inr_iff)
  note ih = 2(1) [OF s(1,2) refl s(3) refl s(4) s(5)]
  show ?case
  proof (cases t)
    case True
    with s(3) obtain pid where f: "pids = pid # pids1" "ps1 = ps(pid \<mapsto> Some plain)"
      by (auto simp: fulfil_def set_value_def rbind_Inr_iff split: list.splits if_splits)
    from ih 2(3,4,5) True f show ?thesis by auto
  next
    case False
    with s(3) have "pids1 = pids" "ps1 = ps" by (simp_all add: fulfil_def)
    with ih 2(3,4,5) False show ?thesis by auto
  qed
qed simp_all

lemma execute_batch_promises:
  assumes "execute_batch E ops ts pids p st g ps = Inr (p', st', g', ps')"
    and "length ts = length ops" and "length pids = length (filter (\<lambda>t. t) ts)" and "distinct pids"
  shows "(\<forall>pid\<in>set pids. \<exists>v. ps' pid = Some (Some v)) \<and> (\<forall>pid. pid \<notin> set pids \<longrightarrow> ps' pid = ps pid)"
proof -
  obtain rids ss p1 rs vals where
    "process_responses E ops rids rs ts pids p1 ps = Inr (vals, p', ps')"
    using assms(1) by (auto simp: execute_batch_def rbind_Inr_iff)
  then show ?thesis by (rule process_responses_promises [OF _ assms(2-4)])
qed

section \<open>The invariant of every run\<close>

definition queue_inv :: "(operation \<times> nat) list \<Rightarrow> batch \<Rightarrow> 'st consumer \<Rightarrow> bool" where
  "queue_inv subs hist s \<longleftrightarrow>
     batch_wf hist \<and> batch_wf (cs_batch s) \<and> queue_ok (cs_queue s) \<and>
     (cs_point s = Outer \<or> cs_point s = Done \<longrightarrow> cs_batch s = batch_empty) \<and>
     subs = real_pairs hist @ real_pairs (cs_batch s) @ m_queue (cs_queue s) \<and>
     distinct (map snd subs) \<and> dom (cs_promises s) = set (map snd subs) \<and>
     (\<forall>pid\<in>set (b_promises hist). \<exists>v. cs_promises s pid = Some (Some v)) \<and>
     (\<forall>pid\<in>set (map snd subs) - set (b_promises hist). cs_promises s pid = Some None)"

lemma queue_inv_initial: "consumer_initial s \<Longrightarrow> queue_inv [] batch_empty s"
  by (simp add: consumer_initial_def queue_inv_def queue_new_def queue_ok_def)
    (simp add: batch_empty_def)

lemma queue_invD:
  assumes "queue_inv subs hist s"
  shows "batch_wf hist" and "batch_wf (cs_batch s)" and "queue_ok (cs_queue s)"
    and "cs_point s = Outer \<or> cs_point s = Done \<Longrightarrow> cs_batch s = batch_empty"
    and "subs = real_pairs hist @ real_pairs (cs_batch s) @ m_queue (cs_queue s)"
    and "map snd subs = b_promises hist @ b_promises (cs_batch s) @ map snd (m_queue (cs_queue s))"
    and "distinct (map snd subs)" and "dom (cs_promises s) = set (map snd subs)"
    and "\<forall>pid\<in>set (b_promises hist). \<exists>v. cs_promises s pid = Some (Some v)"
    and "\<forall>pid\<in>set (map snd subs) - set (b_promises hist). cs_promises s pid = Some None"
proof -
  note inv = assms [unfolded queue_inv_def]
  show wf: "batch_wf hist" "batch_wf (cs_batch s)" using inv by blast+
  show "queue_ok (cs_queue s)" "distinct (map snd subs)" "dom (cs_promises s) = set (map snd subs)"
    using inv by blast+
  show "cs_batch s = batch_empty" if "cs_point s = Outer \<or> cs_point s = Done"
    using inv that by blast
  show subs: "subs = real_pairs hist @ real_pairs (cs_batch s) @ m_queue (cs_queue s)"
    using inv by blast
  show "map snd subs = b_promises hist @ b_promises (cs_batch s) @ map snd (m_queue (cs_queue s))"
    by (simp add: subs map_snd_real_pairs wf)
  show "\<forall>pid\<in>set (b_promises hist). \<exists>v. cs_promises s pid = Some (Some v)" using inv by blast
  show "\<forall>pid\<in>set (map snd subs) - set (b_promises hist). cs_promises s pid = Some None"
    using inv by blast
qed

lemma queue_inv_submit:
  assumes inv: "queue_inv subs hist s" and fresh: "cs_promises s pid = None"
  shows "queue_inv (subs @ [(oper, pid)]) hist (submit oper pid s)"
proof -
  note d = queue_invD [OF inv]
  have new: "pid \<notin> set (map snd subs)" using fresh d(8) by blast
  then have hist: "pid \<notin> set (b_promises hist)" by (simp add: d(6) del: set_map)
  have "dom (cs_promises (submit oper pid s)) = set (map snd (subs @ [(oper, pid)]))"
    using d(8) by (simp add: submit_def del: set_map)
  moreover have "\<forall>x\<in>set (map snd (subs @ [(oper, pid)])) - set (b_promises hist).
      cs_promises (submit oper pid s) x = Some None"
    using d(10) by (auto simp: submit_def)
  moreover have "\<forall>x\<in>set (b_promises hist). \<exists>v. cs_promises (submit oper pid s) x = Some (Some v)"
    using d(9) hist by (auto simp: submit_def)
  moreover have "subs @ [(oper, pid)]
      = real_pairs hist @ real_pairs (cs_batch (submit oper pid s)) @ m_queue (cs_queue (submit oper pid s))"
    by (simp add: d(5) submit_def)
  moreover have "distinct (map snd (subs @ [(oper, pid)]))" using d(7) new by simp
  moreover have "queue_ok (cs_queue (submit oper pid s))"
    using cppq.ok_enq [OF d(3)] by (simp add: submit_def)
  ultimately show ?thesis
    using d(1,2,4) unfolding queue_inv_def by (simp add: submit_def)
qed

text \<open>Steps that leave queue, batch and promises alone.\<close>

lemma queue_inv_control:
  assumes "queue_inv subs hist s" and "cs_queue s' = cs_queue s" and "cs_promises s' = cs_promises s"
    and "cs_batch s' = cs_batch s" and "cs_point s' = Outer \<or> cs_point s' = Done \<longrightarrow> cs_batch s = batch_empty"
  shows "queue_inv subs hist s'"
  using assms unfolding queue_inv_def by metis

lemma queue_inv_execute:
  assumes inv: "queue_inv subs hist s" and step: "consumer_execute E s = Inr s'"
  shows "queue_inv subs (batch_append hist (cs_batch s)) s'"
proof -
  define b where "b = cs_batch s"
  obtain p' st' g' ps' where run: "execute_batch E (b_ops b) (b_trues b) (b_promises b) (cs_proxy s)
      (cs_storage s) (cs_rng s) (cs_promises s) = Inr (p', st', g', ps')"
    and s': "s' = s\<lparr>cs_point := Outer, cs_proxy := p', cs_storage := st', cs_rng := g',
      cs_promises := ps', cs_batch := batch_empty\<rparr>"
    using step by (auto simp: consumer_execute_def b_def Let_def rbind_Inr_iff)
  note d = queue_invD [OF inv, folded b_def]
  have db: "distinct (b_promises b)" using d(7) by (simp add: d(6))
  have lens: "length (b_trues b) = length (b_ops b)"
      "length (b_promises b) = length (filter (\<lambda>t. t) (b_trues b))"
    using d(2) batch_wf_lengths [OF d(2)] by (simp_all add: batch_wf_def)
  note pr = execute_batch_promises [OF run lens db]
  have disj: "set (b_promises hist) \<inter> set (b_promises b) = {}" using d(7) by (auto simp: d(6))
  have sub: "set (b_promises b) \<subseteq> dom (cs_promises s)"
    unfolding d(8) d(6) by auto
  have "dom ps' = dom (cs_promises s)"
  proof (rule set_eqI)
    fix x
    show "x \<in> dom ps' \<longleftrightarrow> x \<in> dom (cs_promises s)"
      using pr sub by (cases "x \<in> set (b_promises b)") (auto simp: dom_def)
  qed
  then have "dom ps' = set (map snd subs)" using d(8) by simp
  moreover have "\<forall>x\<in>set (b_promises hist @ b_promises b). \<exists>v. ps' x = Some (Some v)"
  proof
    fix x assume x: "x \<in> set (b_promises hist @ b_promises b)"
    show "\<exists>v. ps' x = Some (Some v)"
      using x d(9) pr by (cases "x \<in> set (b_promises b)") simp_all
  qed
  moreover have "\<forall>x\<in>set (map snd subs) - set (b_promises hist @ b_promises b). ps' x = Some None"
    using d(10) pr by simp
  moreover have "subs = real_pairs (batch_append hist b) @ m_queue (cs_queue s)"
    by (simp add: d(5) real_pairs_append [OF d(1)])
  ultimately show ?thesis
    using d(3,7) batch_append_wf [OF d(1,2)]
    unfolding queue_inv_def b_def [symmetric] s'
    by (simp del: set_map map_append)
qed

lemma queue_inv_step:
  assumes "queue_inv subs hist s" and "consumer_step E s = Inr s'"
  shows "queue_inv subs (if executes s then batch_append hist (cs_batch s) else hist) s'"
proof (cases "executes s")
  case True
  with assms show ?thesis
    using queue_inv_execute by (auto simp: executes_def consumer_step_def)
next
  case False
  show ?thesis
  proof (cases "cs_point s")
    case Outer
    have "cs_batch s = batch_empty" using queue_invD(4) [OF assms(1)] Outer by blast
    with Outer assms(2) False show ?thesis
      by (auto simp: consumer_step_def split: if_splits intro!: queue_inv_control [OF assms(1)])
  next
    case Inner
    with assms(2) False show ?thesis
      by (auto simp: consumer_step_def executes_def intro!: queue_inv_control [OF assms(1)])
  next
    case (Rounds i)
    with assms(2) False show ?thesis
      by (auto simp: consumer_step_def split: if_splits intro!: queue_inv_control [OF assms(1)])
  next
    case (Slots i j)
    show ?thesis
    proof (cases "j < px_security_batch_size (cs_proxy s)")
      case True
      obtain q' b' g' where st: "security_step (cs_proxy s) (cs_queue s) (cs_batch s) (cs_rng s)
          = Inr (q', b', g')"
        and s': "s' = s\<lparr>cs_queue := q', cs_batch := b', cs_rng := g', cs_point := Slots i (j + 1)\<rparr>"
        using assms(2) Slots True by (auto simp: consumer_step_def rbind_Inr_iff)
      note d = queue_invD [OF assms(1)]
      note n = security_step_pairs [OF st d(2,3)]
      have "subs = real_pairs hist @ real_pairs b' @ m_queue q'" using d(5) n by simp
      with d n False show ?thesis
        unfolding queue_inv_def s' by (simp del: set_map map_append)
    next
      case j: False
      with assms(2) Slots False show ?thesis
        by (auto simp: consumer_step_def intro!: queue_inv_control [OF assms(1)])
    qed
  next
    case Done
    with assms False show ?thesis by (simp add: consumer_step_def)
  qed
qed

lemma queue_inv_run:
  "consumer_run E A P s0 subs hist s \<Longrightarrow> consumer_initial s0 \<Longrightarrow> queue_inv subs hist s"
proof (induction rule: consumer_run.induct)
  case run_start
  then show ?case by (rule queue_inv_initial)
next
  case (run_submit subs hist s oper pid)
  then show ?case by (blast intro: queue_inv_submit)
next
  case (run_close subs hist s)
  then have inv: "queue_inv subs hist s" by blast
  show ?case
    by (rule queue_inv_control [OF inv]) (use queue_invD(4) [OF inv] in simp_all)
next
  case (run_step subs hist s s')
  then show ?case by (blast intro: queue_inv_step)
qed

section \<open>The values\<close>

text \<open>A distribution that can be sampled and only gives keys that have replicas.\<close>

definition dist_ok :: "proxy_state \<Rightarrow> distribution \<Rightarrow> bool" where
  "dist_ok p d \<longleftrightarrow>
     (\<exists>i < length (dist_probs d). 0 < dist_probs d ! i) \<and>
     length (dist_probs d) \<le> length (dist_items d) \<and>
     (\<forall>i < length (dist_probs d). 0 < dist_probs d ! i \<longrightarrow> 0 < replicas p (dist_items d ! i))"

lemma dist_ok_sample:
  "dist_ok p d \<Longrightarrow> \<exists>k. sample d g = Inr (k, stl g) \<and> 0 < replicas p k"
  using sample_positive [of d g] unfolding dist_ok_def by metis

definition dists_ok :: "proxy_state \<Rightarrow> bool" where
  "dists_ok p \<longleftrightarrow> dist_ok p (px_real_distribution p) \<and> dist_ok p (px_fake_distribution p)"

lemma dists_ok_same_tables: "same_tables p p' \<Longrightarrow> dists_ok p' = dists_ok p"
  by (simp add: dists_ok_def dist_ok_def same_tables_simps) (simp add: same_tables_def)

definition op_ok :: "(string \<Rightarrow> bool) \<Rightarrow> proxy_state \<Rightarrow> operation \<Rightarrow> bool" where
  "op_ok ok p oper \<longleftrightarrow> 0 < replicas p (op_key oper) \<and> (op_value oper = [] \<or> ok (op_value oper))"

definition labels_distinct :: "'st consumer \<Rightarrow> bool" where
  "labels_distinct s \<longleftrightarrow>
     (executes s \<longrightarrow> (\<forall>rids ss p1 g1.
        choose_replicas (b_ops (cs_batch s)) (b_trues (cs_batch s)) (cs_proxy s) (cs_rng s)
          = Inr (rids, ss, p1, g1) \<longrightarrow> distinct ss))"

lemma security_step_ops:
  assumes "security_step p q b g = Inr (q', b', g')" and "dists_ok p"
    and "\<forall>oper\<in>set (b_ops b) \<union> fst ` set (m_queue q). op_ok ok p oper"
  shows "\<forall>oper\<in>set (b_ops b') \<union> fst ` set (m_queue q'). op_ok ok p oper"
  using assms(1)
proof (cases rule: security_step_cases)
  case (fake d k g1)
  have "0 < replicas p k"
    using dist_ok_sample [of p d g1] assms(2) fake(3,4) by (auto simp: dists_ok_def)
  with assms(3) fake show ?thesis by (auto simp: batch_fake_def op_ok_def)
next
  case (real x)
  then have "m_queue q = x # m_queue q'" by (auto simp: queue_pop_def split: list.splits)
  with real assms(3) show ?thesis by (auto simp: batch_real_def)
qed

context replica_store begin

lemma valid_spec_run:
  assumes "\<forall>k. 0 < replicas p k \<longrightarrow> valid (V k)" and "\<forall>oper\<in>set ops. op_ok valid p oper"
  shows "\<forall>k. 0 < replicas p k \<longrightarrow> valid (snd (spec_run V ops) k)"
  using assms
proof (induction ops arbitrary: V)
  case Nil
  then show ?case by simp
next
  case (Cons oper ops)
  then have "\<forall>k. 0 < replicas p k \<longrightarrow> valid (spec_step V oper k)"
    by (auto simp: spec_step_def op_ok_def)
  with Cons show ?case by (simp add: Let_def split_beta)
qed

definition value_inv :: "proxy_state \<Rightarrow> (string \<Rightarrow> string) \<Rightarrow> batch \<Rightarrow> 'st consumer \<Rightarrow> bool" where
  "value_inv p0 V0 hist s \<longleftrightarrow>
     sound (cs_storage s) \<and> proxy_wf (cs_proxy s) \<and> same_tables p0 (cs_proxy s) \<and>
     px_missing_new_replicas (cs_proxy s) = Map.empty \<and>
     holds E (cs_proxy s) (view (cs_storage s)) (snd (spec_run V0 (b_ops hist))) \<and>
     (\<forall>oper\<in>set (b_ops hist). op_ok valid p0 oper) \<and>
     (\<forall>oper\<in>set (b_ops (cs_batch s)) \<union> fst ` set (m_queue (cs_queue s)). op_ok valid p0 oper) \<and>
     map (cs_promises s) (b_promises hist)
       = map (\<lambda>a. Some (Some a)) (real_answers (b_trues hist) (fst (spec_run V0 (b_ops hist))))"

lemma value_inv_control:
  assumes "value_inv p0 V0 hist s" and "cs_queue s' = cs_queue s" and "cs_promises s' = cs_promises s"
    and "cs_batch s' = cs_batch s \<or> cs_batch s' = batch_empty"
    and "cs_proxy s' = cs_proxy s" and "cs_storage s' = cs_storage s"
  shows "value_inv p0 V0 hist s'"
  using assms by (auto simp: value_inv_def batch_empty_def)

lemma value_inv_submit:
  assumes "value_inv p0 V0 hist s" and "queue_inv subs hist s" and "cs_promises s pid = None"
    and "op_ok valid p0 oper"
  shows "value_inv p0 V0 hist (submit oper pid s)"
proof -
  note d = queue_invD [OF assms(2)]
  have "pid \<notin> set (b_promises hist)" using assms(3) d(9) by fastforce
  then have "map (cs_promises (submit oper pid s)) (b_promises hist) = map (cs_promises s) (b_promises hist)"
    by (simp add: submit_def)
  with assms(1,4) show ?thesis
    unfolding value_inv_def by (simp add: submit_def)
qed

lemma execute_from_inv:
  assumes val: "value_inv p0 V0 hist s" and q: "queue_inv subs hist s"
    and V0: "\<forall>k. 0 < replicas p0 k \<longrightarrow> valid (V0 k)"
    and ld: "labels_distinct s" and ex: "executes s"
  shows "\<exists>s'. consumer_execute E s = Inr s' \<and> value_inv p0 V0 (batch_append hist (cs_batch s)) s'"
proof -
  define b where "b = cs_batch s"
  define p where "p = cs_proxy s"
  define V where "V = snd (spec_run V0 (b_ops hist))"
  note d = queue_invD [OF q, folded b_def]
  note v = val [unfolded value_inv_def, folded b_def p_def V_def]
  have st: "same_tables p0 p" using v by blast
  have R: "replicas p = replicas p0" by (rule same_tables_simps(1) [OF st])
  have lens: "length (b_trues b) = length (b_ops b)"
      "length (b_promises b) = length (filter (\<lambda>t. t) (b_trues b))" "distinct (b_promises b)"
    using d(2,6,7) batch_wf_lengths [OF d(2)] by (simp_all add: batch_wf_def)
  have pend: "\<forall>pid\<in>set (b_promises b). cs_promises s pid = Some None"
    using d(6,7,10) by auto
  have opok: "\<forall>oper\<in>set (b_ops b). op_ok valid p0 oper"
    using v by blast
  have ops: "\<forall>oper\<in>set (b_ops b). 0 < replicas p (op_key oper)"
      "\<forall>oper\<in>set (b_ops b). op_value oper = [] \<or> valid (op_value oper)"
    using opok by (simp_all add: op_ok_def R)
  have Vok: "\<forall>k. 0 < replicas p k \<longrightarrow> valid (V k)"
    unfolding R V_def by (rule valid_spec_run [OF V0]) (use v in blast)
  have pre: "sound (cs_storage s)" "proxy_wf p" "holds E p (view (cs_storage s)) V"
      "px_missing_new_replicas p = Map.empty"
    using v by blast+
  have ld': "\<forall>rids ss p1 g1. choose_replicas (b_ops b) (b_trues b) p (cs_rng s) = Inr (rids, ss, p1, g1)
      \<longrightarrow> distinct ss"
    using ld ex unfolding labels_distinct_def b_def p_def by blast
  obtain p' st' g' ps' where run: "execute_batch E (b_ops b) (b_trues b) (b_promises b) p
      (cs_storage s) (cs_rng s) (cs_promises s) = Inr (p', st', g', ps')"
    and r: "sound st'" "proxy_wf p'" "holds E p' (view st') (snd (spec_run V (b_ops b)))"
      "map ps' (b_promises b) = map (\<lambda>a. Some (Some a)) (real_answers (b_trues b) (fst (spec_run V (b_ops b))))"
      "same_tables p p'" "px_missing_new_replicas p' = Map.empty"
      "\<forall>pid. pid \<notin> set (b_promises b) \<longrightarrow> ps' pid = cs_promises s pid"
    using execute_batch_spec [OF pre ops(1) Vok ops(2) lens pend ld'] by blast
  define s' where "s' = s\<lparr>cs_point := Outer, cs_proxy := p', cs_storage := st', cs_rng := g',
      cs_promises := ps', cs_batch := batch_empty\<rparr>"
  have step: "consumer_execute E s = Inr s'"
    using run by (simp add: consumer_execute_def b_def p_def s'_def Let_def)
  have "map ps' (b_promises hist) = map (cs_promises s) (b_promises hist)"
    using r(7) d(7) by (auto simp: d(6))
  moreover have "map (cs_promises s) (b_promises hist)
      = map (\<lambda>a. Some (Some a)) (real_answers (b_trues hist) (fst (spec_run V0 (b_ops hist))))"
    using v by blast
  moreover have "length (b_trues hist) = length (fst (spec_run V0 (b_ops hist)))"
    using batch_wf_lengths [OF d(1)] by simp
  ultimately have ans: "map ps' (b_promises (batch_append hist b)) = map (\<lambda>a. Some (Some a))
      (real_answers (b_trues (batch_append hist b)) (fst (spec_run V0 (b_ops (batch_append hist b)))))"
    using r(4) by (simp add: batch_append_def spec_run_append real_answers_append V_def)
  have fin: "snd (spec_run V0 (b_ops (batch_append hist b))) = snd (spec_run V (b_ops b))"
    by (simp add: batch_append_def spec_run_append V_def)
  have "value_inv p0 V0 (batch_append hist b) s'"
    using r(1,2,3,6) same_tables_trans [OF st r(5)] ans fin v opok
    unfolding value_inv_def
    by (simp add: s'_def) (simp add: batch_append_def batch_empty_def ball_Un)
  with step show ?thesis by (auto simp: b_def)
qed

lemma value_inv_step:
  assumes val: "value_inv p0 V0 hist s" and q: "queue_inv subs hist s"
    and V0: "\<forall>k. 0 < replicas p0 k \<longrightarrow> valid (V0 k)" and dists: "dists_ok p0"
    and ld: "labels_distinct s"
  shows "\<exists>s'. consumer_step E s = Inr s' \<and>
    value_inv p0 V0 (if executes s then batch_append hist (cs_batch s) else hist) s'"
proof (cases "executes s")
  case True
  then have "consumer_step E s = consumer_execute E s"
    by (simp add: executes_def consumer_step_def)
  with execute_from_inv [OF val q V0 ld True] True show ?thesis by simp
next
  case False
  note ctl = value_inv_control [OF val]
  have st: "same_tables p0 (cs_proxy s)" using val by (simp add: value_inv_def)
  show ?thesis
  proof (cases "cs_point s")
    case (Slots i j)
    show ?thesis
    proof (cases "j < px_security_batch_size (cs_proxy s)")
      case True
      have dists': "dists_ok (cs_proxy s)" using dists dists_ok_same_tables [OF st] by simp
      have "\<forall>g. \<exists>k. sample (px_real_distribution (cs_proxy s)) g = Inr (k, stl g)"
          "\<forall>g. \<exists>k. sample (px_fake_distribution (cs_proxy s)) g = Inr (k, stl g)"
        using dist_ok_sample dists' unfolding dists_ok_def by blast+
      then obtain q' b' g' where step: "security_step (cs_proxy s) (cs_queue s) (cs_batch s) (cs_rng s)
          = Inr (q', b', g')"
        using security_step_total [OF queue_invD(3) [OF q]] by (metis prod_cases3)
      have "op_ok valid (cs_proxy s) = op_ok valid p0"
        by (simp add: fun_eq_iff op_ok_def same_tables_simps(1) [OF st])
      then have "\<forall>oper\<in>set (b_ops b') \<union> fst ` set (m_queue q'). op_ok valid p0 oper"
        using security_step_ops [OF step dists', of valid] val unfolding value_inv_def by metis
      with Slots True step val False show ?thesis
        by (simp add: consumer_step_def value_inv_def)
    next
      case j: False
      with Slots False show ?thesis
        by (auto simp: consumer_step_def intro!: ctl)
    qed
  qed (use False in \<open>auto simp: consumer_step_def executes_def intro!: ctl\<close>)
qed

lemma value_inv_initial:
  assumes "consumer_initial s0" and "cs_proxy s0 = p0" and "sound (cs_storage s0)"
    and "proxy_wf p0" and "px_missing_new_replicas p0 = Map.empty"
    and "holds E p0 (view (cs_storage s0)) V0"
  shows "value_inv p0 V0 batch_empty s0"
  using assms by (simp add: value_inv_def consumer_initial_def queue_new_def batch_empty_def)

lemma value_inv_run:
  assumes "consumer_run E (op_ok valid p0) labels_distinct s0 subs hist s"
    and "consumer_initial s0" and "value_inv p0 V0 batch_empty s0"
    and "\<forall>k. 0 < replicas p0 k \<longrightarrow> valid (V0 k)" and "dists_ok p0"
  shows "value_inv p0 V0 hist s"
  using assms
proof (induction rule: consumer_run.induct)
  case run_start
  then show ?case by simp
next
  case (run_submit subs hist s oper pid)
  then have "queue_inv subs hist s" using queue_inv_run by blast
  with run_submit show ?case by (intro value_inv_submit) auto
next
  case (run_close subs hist s)
  then have "value_inv p0 V0 hist s" by blast
  then show ?case by (rule value_inv_control) simp_all
next
  case (run_step subs hist s s')
  then have "queue_inv subs hist s" "value_inv p0 V0 hist s" using queue_inv_run by blast+
  with run_step value_inv_step [of p0 V0 hist s subs] show ?case by auto
qed

text \<open>The requests answered so far are the first ones of those queued.\<close>

lemma run_values:
  assumes q: "queue_inv subs hist s" and v: "value_inv p0 V0 hist s"
  shows "\<exists>n. map (cs_promises s) (map snd (take n subs))
        = map (\<lambda>a. Some (Some a)) (fst (spec_run V0 (map fst (take n subs)))) \<and>
      (\<forall>r\<in>set (drop n subs). cs_promises s (snd r) = Some None) \<and>
      holds E (cs_proxy s) (view (cs_storage s)) (snd (spec_run V0 (map fst (take n subs))))"
proof -
  note d = queue_invD [OF q]
  define n where "n = length (real_pairs hist)"
  have tk: "take n subs = real_pairs hist"
    and dr: "drop n subs = real_pairs (cs_batch s) @ m_queue (cs_queue s)"
    by (simp_all add: d(5) n_def)
  have la: "list_all2 (\<lambda>t oper. t \<or> op_value oper = []) (b_trues hist) (b_ops hist)"
    using d(1) by (simp add: batch_wf_def)
  have rest: "snd r \<notin> set (b_promises hist)" if "r \<in> set (drop n subs)" for r
  proof -
    have "set (map snd (take n subs)) \<inter> set (map snd (drop n subs)) = {}"
      using d(7) by (metis append_take_drop_id distinct_append map_append)
    then show ?thesis
      using that by (auto simp: tk map_snd_real_pairs [OF d(1), symmetric])
  qed
  have "\<forall>r\<in>set (drop n subs). cs_promises s (snd r) = Some None"
  proof
    fix r assume r: "r \<in> set (drop n subs)"
    then have "snd r \<in> set (map snd subs)" using in_set_dropD [of r n subs] by simp
    with rest [OF r] d(10) show "cs_promises s (snd r) = Some None" by blast
  qed
  then show ?thesis
    using v spec_run_reals [OF la, of V0]
    by (intro exI [of _ n])
      (simp add: tk map_snd_real_pairs [OF d(1)] map_fst_real_pairs [OF d(1)] value_inv_def)
qed

end

section \<open>How many rounds\<close>

text \<open>
  The two counters of the thread are equal whenever its inner loop is tested, so the
  \<open>for\<close> loop runs once per request in the queue. The counters are 32-bit and wrap.
\<close>

definition counters_inv :: "'st consumer \<Rightarrow> bool" where
  "counters_inv s \<longleftrightarrow>
     (case cs_point s of
        Rounds i \<Rightarrow> cs_serviced s = cs_previous s \<and> 0 \<le> sint i \<and>
          (i = 0 \<or> sint i \<le> sint (cs_total s - cs_previous s))
      | Slots i j \<Rightarrow> cs_serviced s = cs_previous s \<and> 0 \<le> sint i \<and>
          sint i < sint (cs_total s - cs_previous s)
      | _ \<Rightarrow> cs_serviced s = cs_previous s)"

lemma sint_suc:
  "sint (i :: 32 word) < sint (n :: 32 word) \<Longrightarrow> sint (i + 1) = sint i + 1"
proof -
  assume lt: "sint i < sint n"
  have n: "sint n < 2 ^ 31" using sint_lt [of n] by simp
  have i: "- (2 ^ 31) \<le> sint i" using sint_ge [of i] by simp
  have "sint (i + 1) = signed_take_bit 31 (sint i + 1)"
    by (simp add: sint_word_ariths)
  also have "\<dots> = sint i + 1"
    using lt n i by (intro signed_take_bit_int_eq_self) simp_all
  finally show ?thesis .
qed

lemma counters_inv_step:
  assumes "counters_inv s" and "consumer_step E s = Inr s'"
  shows "counters_inv s'"
proof (cases "cs_point s")
  case Inner
  then show ?thesis
    using assms
    by (auto simp: counters_inv_def consumer_step_def consumer_execute_def Let_def rbind_Inr_iff
        split: if_splits)
next
  case (Rounds i)
  have "cs_serviced s + i = cs_total s" if "\<not> sint i < sint (cs_total s - cs_previous s)" "i \<noteq> 0"
  proof -
    have "sint i = sint (cs_total s - cs_previous s)"
      using assms(1) Rounds that by (simp add: counters_inv_def)
    then have "i = cs_total s - cs_previous s" by (rule signed_word_eqI)
    with assms(1) Rounds show ?thesis by (simp add: counters_inv_def)
  qed
  then show ?thesis
    using assms Rounds by (auto simp: counters_inv_def consumer_step_def split: if_splits)
next
  case (Slots i j)
  have lt: "sint i < sint (cs_total s - cs_previous s)" "0 \<le> sint i"
      "cs_serviced s = cs_previous s"
    using assms(1) Slots by (simp_all add: counters_inv_def)
  show ?thesis
    using assms(2) Slots lt sint_suc [OF lt(1)]
    by (auto simp: counters_inv_def consumer_step_def rbind_Inr_iff split: if_splits)
qed (use assms in \<open>auto simp: counters_inv_def consumer_step_def split: if_splits\<close>)

lemma counters_inv_run:
  "consumer_run E A P s0 subs hist s \<Longrightarrow> consumer_initial s0 \<Longrightarrow> counters_inv s"
proof (induction rule: consumer_run.induct)
  case run_start
  then show ?case by (simp add: consumer_initial_def counters_inv_def)
next
  case (run_submit subs hist s oper pid)
  then show ?case
    by (simp add: submit_def counters_inv_def split: consumer_point.splits)
next
  case (run_close subs hist s)
  then show ?case by (simp add: counters_inv_def split: consumer_point.splits)
next
  case (run_step subs hist s s')
  then show ?case by (blast intro: counters_inv_step)
qed

end
