(* ===== verification/Proxy_Api.thy ===== *)
theory Proxy_Api
  imports Thrift_Types Consumer
begin

text \<open>
  The calls of \<^verbatim>\<open>pancake_proxy.cpp\<close> that other threads make: \<open>get\<close>, \<open>put\<close>, their batches and
  their asynchronous variants, and \<open>flush\<close>. They put requests on the queues of the consumer
  threads (theory \<open>Consumer\<close>), wait on futures, and leave work for the responder thread
  (theory \<open>Responder\<close>).
\<close>

section \<open>State\<close>

text \<open>
  The fields of the proxy these calls use, and the promises made so far, numbered from 0.
  A future is the number of its promise, or \<open>None\<close> after \<open>get\<close> has released the shared state.
  An entry of \<open>respond_queue_\<close> is an op code, a sequence id and the futures to wait for.
\<close>

type_synonym future = "nat option"

type_synonym response = "32 word \<times> sequence_id \<times> future list"

record 'st api =
  ap_proxy :: proxy_state
  ap_storage :: 'st
  ap_operation_queues :: "op_queue list"
  ap_promises :: promise_store
  ap_next_promise :: nat
  ap_respond_queue :: "response queue"
  ap_sequence_queue :: "sequence_id queue"
  ap_finished :: bool
  ap_rng :: rng

definition GET :: "32 word" where "GET = 0"
definition PUT :: "32 word" where "PUT = 1"
definition GET_BATCH :: "32 word" where "GET_BATCH = 2"
definition PUT_BATCH :: "32 word" where "PUT_BATCH = 3"

section \<open>Requests and futures\<close>

text \<open>\<open>queue_id % operation_queues_.size()\<close>: the \<open>int\<close> is converted to \<open>size_t\<close> first.\<close>

definition queue_index :: "32 word \<Rightarrow> nat \<Rightarrow> nat res" where
  "queue_index queue_id n =
     (if n = 0 then Inl Division_by_zero else Inr (nat (sint queue_id mod 2 ^ 64) mod n))"

definition push_request :: "32 word \<Rightarrow> operation \<Rightarrow> (('st, 'z) api_scheme, future) io" where
  "push_request queue_id operat = (\<lambda>w.
     case queue_index queue_id (length (ap_operation_queues w)) of
       Inl e \<Rightarrow> Some (Inl e, w)
     | Inr i \<Rightarrow>
         (let prom = ap_next_promise w in
          Some (Inr (Some prom),
            w\<lparr>ap_next_promise := Suc prom, ap_promises := (ap_promises w)(prom \<mapsto> None),
              ap_operation_queues :=
                (ap_operation_queues w)[i := queue_push (operat, prom) (ap_operation_queues w ! i)]\<rparr>)))"

definition get_future :: "32 word \<Rightarrow> string \<Rightarrow> (('st, 'z) api_scheme, future) io" where
  "get_future queue_id k =
     ibind (iget (\<lambda>w. px_key_to_frequency (ap_proxy w) k = None)) (\<lambda>missing.
       if missing then ithrow (Logic_error ''Key does not exist'')
       else push_request queue_id \<lparr>op_key = k, op_value = []\<rparr>)"

definition put_future :: "32 word \<Rightarrow> string \<Rightarrow> string \<Rightarrow> (('st, 'z) api_scheme, future) io" where
  "put_future queue_id k v = push_request queue_id \<lparr>op_key = k, op_value = v\<rparr>"

text \<open>
  \<open>future::get\<close>. What the other threads do until promise \<open>p\<close> has its value is the argument
  \<open>wait\<close>; it is \<open>None\<close> when they never set it. A second \<open>get\<close> on a future throws.
\<close>

type_synonym ('st, 'z) waiting = "('st, 'z) api_scheme \<Rightarrow> nat \<Rightarrow> ('st, 'z) api_scheme option"

definition future_get :: "('st, 'z) waiting \<Rightarrow> future \<Rightarrow> (('st, 'z) api_scheme, string) io" where
  "future_get wait f =
     (case f of
        None \<Rightarrow> ithrow Future_error
      | Some p \<Rightarrow> (\<lambda>w. Option.bind (wait w p) (\<lambda>w'.
          case ap_promises w' p of Some (Some v) \<Rightarrow> Some (Inr v, w') | _ \<Rightarrow> None)))"

text \<open>The loops over keys, and over pairs of a key and \<open>values[i]\<close>.\<close>

definition get_futures :: "32 word \<Rightarrow> string list \<Rightarrow> (('st, 'z) api_scheme, future list) io" where
  "get_futures queue_id keys = imap (get_future queue_id) keys"

fun put_futures :: "32 word \<Rightarrow> string list \<Rightarrow> string list \<Rightarrow> (('st, 'z) api_scheme, future list) io" where
  "put_futures queue_id [] vs = iret []"
| "put_futures queue_id (k # ks) [] = ithrow Out_of_range"
| "put_futures queue_id (k # ks) (v # vs) =
     ibind (put_future queue_id k v) (\<lambda>f. ibind (put_futures queue_id ks vs) (\<lambda>fs. iret (f # fs)))"

definition get_all :: "('st, 'z) waiting \<Rightarrow> future list \<Rightarrow> (('st, 'z) api_scheme, string list) io" where
  "get_all wait waiters = imap (future_get wait) waiters"

section \<open>Synchronous calls\<close>

definition api_get :: "('st, 'z) waiting \<Rightarrow> 32 word \<Rightarrow> string \<Rightarrow> (('st, 'z) api_scheme, string) io" where
  "api_get wait queue_id k = ibind (get_future queue_id k) (future_get wait)"

definition api_put :: "('st, 'z) waiting \<Rightarrow> 32 word \<Rightarrow> string \<Rightarrow> string \<Rightarrow> (('st, 'z) api_scheme, unit) io" where
  "api_put wait queue_id k v =
     ibind (put_future queue_id k v) (\<lambda>f. ibind (future_get wait f) (\<lambda>_. iret ()))"

definition api_get_batch ::
    "('st, 'z) waiting \<Rightarrow> 32 word \<Rightarrow> string list \<Rightarrow> (('st, 'z) api_scheme, string list) io" where
  "api_get_batch wait queue_id keys = ibind (get_futures queue_id keys) (get_all wait)"

definition api_put_batch ::
    "('st, 'z) waiting \<Rightarrow> 32 word \<Rightarrow> string list \<Rightarrow> string list \<Rightarrow> (('st, 'z) api_scheme, unit) io" where
  "api_put_batch wait queue_id keys values =
     ibind (put_futures queue_id keys values) (\<lambda>waiters. ibind (get_all wait waiters) (\<lambda>_. iret ()))"

section \<open>Asynchronous calls\<close>

definition push_response :: "32 word \<Rightarrow> sequence_id \<Rightarrow> future list \<Rightarrow> (('st, 'z) api_scheme, unit) io" where
  "push_response op_code seq_id waiters =
     imodify (\<lambda>w. w\<lparr>ap_respond_queue := queue_push (op_code, seq_id, waiters) (ap_respond_queue w)\<rparr>)"

definition push_sequence :: "sequence_id \<Rightarrow> (('st, 'z) api_scheme, unit) io" where
  "push_sequence seq_id =
     imodify (\<lambda>w. w\<lparr>ap_sequence_queue := queue_push seq_id (ap_sequence_queue w)\<rparr>)"

definition api_async_get :: "sequence_id \<Rightarrow> 32 word \<Rightarrow> string \<Rightarrow> (('st, 'z) api_scheme, unit) io" where
  "api_async_get seq_id queue_id k =
     ibind (get_future queue_id k) (\<lambda>f. push_response GET seq_id [f])"

definition api_async_put ::
    "sequence_id \<Rightarrow> 32 word \<Rightarrow> string \<Rightarrow> string \<Rightarrow> (('st, 'z) api_scheme, unit) io" where
  "api_async_put seq_id queue_id k v =
     ibind (put_future queue_id k v) (\<lambda>f. push_response GET seq_id [f])"

definition api_async_get_batch ::
    "sequence_id \<Rightarrow> 32 word \<Rightarrow> string list \<Rightarrow> (('st, 'z) api_scheme, unit) io" where
  "api_async_get_batch seq_id queue_id keys =
     ibind (get_futures queue_id keys) (\<lambda>waiters.
       ithen (push_response GET_BATCH seq_id waiters) (push_sequence seq_id))"

text \<open>The futures are moved to the responder after the loop has called \<open>get\<close> on each.\<close>

definition api_async_put_batch ::
    "('st, 'z) waiting \<Rightarrow> sequence_id \<Rightarrow> 32 word \<Rightarrow> string list \<Rightarrow> string list \<Rightarrow>
     (('st, 'z) api_scheme, unit) io" where
  "api_async_put_batch wait seq_id queue_id keys values =
     ibind (put_futures queue_id keys values) (\<lambda>waiters.
     ibind (get_all wait waiters) (\<lambda>_.
       push_response PUT_BATCH seq_id (map (\<lambda>_. None) waiters)))"

section \<open>The overloads that draw a queue\<close>

definition any_queue :: "(('st, 'z) api_scheme, 32 word) io" where
  "any_queue = (\<lambda>w. let (r, g) = rand_uint32 0 RAND_MAX (ap_rng w)
                    in Some (Inr (of_nat r), w\<lparr>ap_rng := g\<rparr>))"

definition api_get_any :: "('st, 'z) waiting \<Rightarrow> string \<Rightarrow> (('st, 'z) api_scheme, string) io" where
  "api_get_any wait k = ibind any_queue (\<lambda>q. api_get wait q k)"

definition api_async_get_any :: "sequence_id \<Rightarrow> string \<Rightarrow> (('st, 'z) api_scheme, unit) io" where
  "api_async_get_any seq_id k = ibind any_queue (\<lambda>q. api_async_get seq_id q k)"

definition api_put_any :: "('st, 'z) waiting \<Rightarrow> string \<Rightarrow> string \<Rightarrow> (('st, 'z) api_scheme, unit) io" where
  "api_put_any wait k v = ibind any_queue (\<lambda>q. api_put wait q k v)"

definition api_async_put_any :: "sequence_id \<Rightarrow> string \<Rightarrow> string \<Rightarrow> (('st, 'z) api_scheme, unit) io" where
  "api_async_put_any seq_id k v = ibind any_queue (\<lambda>q. api_async_put seq_id q k v)"

definition api_get_batch_any ::
    "('st, 'z) waiting \<Rightarrow> string list \<Rightarrow> (('st, 'z) api_scheme, string list) io" where
  "api_get_batch_any wait keys = ibind any_queue (\<lambda>q. api_get_batch wait q keys)"

definition api_async_get_batch_any :: "sequence_id \<Rightarrow> string list \<Rightarrow> (('st, 'z) api_scheme, unit) io" where
  "api_async_get_batch_any seq_id keys = ibind any_queue (\<lambda>q. api_async_get_batch seq_id q keys)"

definition api_put_batch_any ::
    "('st, 'z) waiting \<Rightarrow> string list \<Rightarrow> string list \<Rightarrow> (('st, 'z) api_scheme, unit) io" where
  "api_put_batch_any wait keys values = ibind any_queue (\<lambda>q. api_put_batch wait q keys values)"

definition api_async_put_batch_any ::
    "('st, 'z) waiting \<Rightarrow> sequence_id \<Rightarrow> string list \<Rightarrow> string list \<Rightarrow> (('st, 'z) api_scheme, unit) io" where
  "api_async_put_batch_any wait seq_id keys values =
     ibind any_queue (\<lambda>q. api_async_put_batch wait seq_id q keys values)"

section \<open>Flush\<close>

text \<open>
  One request of each queue that is not empty is answered from the storage, under its plain
  key. A queue whose counter is not 0 but which has been emptied makes \<open>pop\<close> wait.
\<close>

definition storage_get :: "'st storage_interface \<Rightarrow> string \<Rightarrow> (('st, 'z) api_scheme, string) io" where
  "storage_get S k = (\<lambda>w. Some (si_get S (ap_storage w) k, w))"

definition storage_put :: "'st storage_interface \<Rightarrow> string \<Rightarrow> string \<Rightarrow> (('st, 'z) api_scheme, unit) io" where
  "storage_put S k v = (\<lambda>w.
     case si_put S (ap_storage w) k v of
       Inl e \<Rightarrow> Some (Inl e, w)
     | Inr st \<Rightarrow> Some (Inr (), w\<lparr>ap_storage := st\<rparr>))"

definition promise_set :: "nat \<Rightarrow> string \<Rightarrow> (('st, 'z) api_scheme, unit) io" where
  "promise_set pid v = (\<lambda>w.
     case set_value (ap_promises w) pid v of
       Inl e \<Rightarrow> Some (Inl e, w)
     | Inr ps \<Rightarrow> Some (Inr (), w\<lparr>ap_promises := ps\<rparr>))"

definition flush_queue :: "'st storage_interface \<Rightarrow> nat \<Rightarrow> (('st, 'z) api_scheme, unit) io" where
  "flush_queue S i = (\<lambda>w.
     let q = ap_operation_queues w ! i in
     if queue_size q \<noteq> 0 then
       (case queue_pop q of
          None \<Rightarrow> None
        | Some ((operat, pid), q') \<Rightarrow>
            ibind (storage_get S (op_key operat)) (\<lambda>read_result.
            ithen (storage_put S (op_key operat) read_result) (promise_set pid read_result))
              (w\<lparr>ap_operation_queues := (ap_operation_queues w)[i := q']\<rparr>))
     else Some (Inr (), w))"

definition flush :: "'st storage_interface \<Rightarrow> (('st, 'z) api_scheme, unit) io" where
  "flush S = (\<lambda>w. iall (map (flush_queue S) [0..<length (ap_operation_queues w)]) w)"

end
