(* ===== verification/Responder.thy ===== *)
theory Responder
  imports Proxy_Api
begin

text \<open>
  The responder thread of \<^verbatim>\<open>pancake_proxy.cpp\<close>, which waits for the futures of the asynchronous
  calls and sends their values back. \<open>responder_step\<close> is one step of the thread, with the
  program point made explicit; \<open>responder_run\<close> interleaves its steps with the threads that
  push responses and sequence ids. The answers take their sequence ids by position, which
  theory \<open>Api_Properties\<close> states.
\<close>

section \<open>The thread\<close>

text \<open>
  \<open>Popping\<close>: before \<open>respond_queue_.pop()\<close>. \<open>Sequencing\<close>: before \<open>sequence_queue_.pop()\<close>, which
  replaces the sequence id of the response. \<open>Collecting\<close>: the loop over the futures, with the
  results so far.
\<close>

datatype responder_point =
    Popping
  | Sequencing "32 word" "future list"
  | Collecting "32 word" sequence_id "future list" "string list"

type_synonym 'w respond = "sequence_id \<Rightarrow> 32 word \<Rightarrow> string list \<Rightarrow> ('w, unit) io"

definition responder_step ::
    "('st, 'z) waiting \<Rightarrow> ('st, 'z) api_scheme respond \<Rightarrow> responder_point \<Rightarrow>
     (('st, 'z) api_scheme, responder_point) io" where
  "responder_step wait respond pt =
     (case pt of
        Popping \<Rightarrow> (\<lambda>w.
          case queue_pop (ap_respond_queue w) of
            None \<Rightarrow> None
          | Some ((op_code, seq, waiters), q') \<Rightarrow>
              Some (Inr (Sequencing op_code waiters), w\<lparr>ap_respond_queue := q'\<rparr>))
      | Sequencing op_code waiters \<Rightarrow> (\<lambda>w.
          case queue_pop (ap_sequence_queue w) of
            None \<Rightarrow> None
          | Some (seq, q') \<Rightarrow>
              Some (Inr (Collecting op_code seq waiters []), w\<lparr>ap_sequence_queue := q'\<rparr>))
      | Collecting op_code seq waiters results \<Rightarrow>
          (case waiters of
             f # fs \<Rightarrow> ibind (future_get wait f) (\<lambda>v. iret (Collecting op_code seq fs (results @ [v])))
           | [] \<Rightarrow> ithen (respond seq op_code results) (iret Popping)))"

text \<open>What one more step adds to the answers sent.\<close>

type_synonym answer = "sequence_id \<times> 32 word \<times> string list"

fun sends :: "responder_point \<Rightarrow> answer list" where
  "sends (Collecting op_code seq [] results) = [(seq, op_code, results)]"
| "sends _ = []"

section \<open>Runs\<close>

definition keeps_values :: "('st, 'z) api_scheme \<Rightarrow> ('st, 'z) api_scheme \<Rightarrow> bool" where
  "keeps_values w w' \<longleftrightarrow> (\<forall>p v. ap_promises w p = Some (Some v) \<longrightarrow> ap_promises w' p = Some (Some v))"

definition same_queues :: "('st, 'z) api_scheme \<Rightarrow> ('st, 'z) api_scheme \<Rightarrow> bool" where
  "same_queues w w' \<longleftrightarrow>
     ap_respond_queue w' = ap_respond_queue w \<and> ap_sequence_queue w' = ap_sequence_queue w"

text \<open>
  \<open>responder_run wait respond w0 rs ss sent pt w\<close>: from \<open>w0\<close> to \<open>w\<close>, where other threads
  have pushed the responses \<open>rs\<close> and the sequence ids \<open>ss\<close>, each in this order, and the
  answers \<open>sent\<close> went out. Pushes that happen while the thread waits for a future are
  listed before or after that step: it does not look at the queues.
\<close>

inductive responder_run ::
    "('st, 'z) waiting \<Rightarrow> ('st, 'z) api_scheme respond \<Rightarrow> ('st, 'z) api_scheme \<Rightarrow> response list \<Rightarrow>
     sequence_id list \<Rightarrow> answer list \<Rightarrow> responder_point \<Rightarrow> ('st, 'z) api_scheme \<Rightarrow> bool"
  for wait respond w0 where
  rr_start: "responder_run wait respond w0 [] [] [] Popping w0"
| rr_response: "responder_run wait respond w0 rs ss sent pt w \<Longrightarrow>
    ap_respond_queue w' = queue_push r (ap_respond_queue w) \<Longrightarrow>
    ap_sequence_queue w' = ap_sequence_queue w \<Longrightarrow> keeps_values w w' \<Longrightarrow>
    responder_run wait respond w0 (rs @ [r]) ss sent pt w'"
| rr_sequence: "responder_run wait respond w0 rs ss sent pt w \<Longrightarrow>
    ap_sequence_queue w' = queue_push s (ap_sequence_queue w) \<Longrightarrow>
    ap_respond_queue w' = ap_respond_queue w \<Longrightarrow> keeps_values w w' \<Longrightarrow>
    responder_run wait respond w0 rs (ss @ [s]) sent pt w'"
| rr_other: "responder_run wait respond w0 rs ss sent pt w \<Longrightarrow>
    same_queues w w' \<Longrightarrow> keeps_values w w' \<Longrightarrow> responder_run wait respond w0 rs ss sent pt w'"
| rr_step: "responder_run wait respond w0 rs ss sent pt w \<Longrightarrow>
    responder_step wait respond pt w = Some (Inr pt', w') \<Longrightarrow>
    responder_run wait respond w0 rs ss (sent @ sends pt) pt' w'"

text \<open>The thread's own steps neither push nor forget values.\<close>

definition well_behaved :: "('st, 'z) waiting \<Rightarrow> ('st, 'z) api_scheme respond \<Rightarrow> bool" where
  "well_behaved wait respond \<longleftrightarrow>
     (\<forall>w p w'. wait w p = Some w' \<longrightarrow> same_queues w w' \<and> keeps_values w w') \<and>
     (\<forall>seq op_code rs w x w'. respond seq op_code rs w = Some (x, w') \<longrightarrow> same_queues w w' \<and> keeps_values w w')"

section \<open>Answers by position\<close>

definition promised :: "('st, 'z) api_scheme \<Rightarrow> future \<Rightarrow> string" where
  "promised w f = (case f of None \<Rightarrow> [] | Some p \<Rightarrow> the (the (ap_promises w p)))"

definition kept :: "('st, 'z) api_scheme \<Rightarrow> future \<Rightarrow> bool" where
  "kept w f \<longleftrightarrow> (\<exists>p v. f = Some p \<and> ap_promises w p = Some (Some v))"

lemma kept_keeps: "kept w f \<Longrightarrow> keeps_values w w' \<Longrightarrow> kept w' f \<and> promised w' f = promised w f"
  by (auto simp: kept_def keeps_values_def promised_def)

lemma promised_keeps: "kept w f \<Longrightarrow> keeps_values w w' \<Longrightarrow> promised w' f = promised w f"
  using kept_keeps by blast

lemma drop_eq_Cons: "drop n xs = x # ys \<Longrightarrow> n < length xs \<and> x = xs ! n \<and> ys = drop (Suc n) xs"
  by (metis Cons_nth_drop_Suc drop_all leI list.distinct(1) list.inject)

lemma kept_list_keeps:
  "\<forall>f\<in>set fs. kept w f \<Longrightarrow> keeps_values w w' \<Longrightarrow>
   (\<forall>f\<in>set fs. kept w' f) \<and> map (promised w') fs = map (promised w) fs"
  by (auto dest: kept_keeps)

definition answers_ok :: "response list \<Rightarrow> sequence_id list \<Rightarrow> answer list \<Rightarrow> ('st, 'z) api_scheme \<Rightarrow> bool" where
  "answers_ok rs ss sent w \<longleftrightarrow>
     length sent \<le> length rs \<and> length sent \<le> length ss \<and>
     (\<forall>i<length sent. (\<forall>f\<in>set (snd (snd (rs ! i))). kept w f) \<and>
        sent ! i = (ss ! i, fst (rs ! i), map (promised w) (snd (snd (rs ! i)))))"

fun point_ok ::
    "response list \<Rightarrow> sequence_id list \<Rightarrow> nat \<Rightarrow> responder_point \<Rightarrow> ('st, 'z) api_scheme \<Rightarrow> bool" where
  "point_ok rs ss n Popping w \<longleftrightarrow>
     m_queue (ap_respond_queue w) = drop n rs \<and> m_queue (ap_sequence_queue w) = drop n ss"
| "point_ok rs ss n (Sequencing op_code waiters) w \<longleftrightarrow>
     n < length rs \<and> op_code = fst (rs ! n) \<and> waiters = snd (snd (rs ! n)) \<and>
     m_queue (ap_respond_queue w) = drop (Suc n) rs \<and> m_queue (ap_sequence_queue w) = drop n ss"
| "point_ok rs ss n (Collecting op_code seq fs results) w \<longleftrightarrow>
     n < length rs \<and> n < length ss \<and> op_code = fst (rs ! n) \<and> seq = ss ! n \<and>
     m_queue (ap_respond_queue w) = drop (Suc n) rs \<and> m_queue (ap_sequence_queue w) = drop (Suc n) ss \<and>
     (\<exists>gs. snd (snd (rs ! n)) = gs @ fs \<and> (\<forall>f\<in>set gs. kept w f) \<and> results = map (promised w) gs)"

lemma answers_ok_queues [simp]:
  "answers_ok rs ss sent (w\<lparr>ap_respond_queue := q\<rparr>) = answers_ok rs ss sent w"
  "answers_ok rs ss sent (w\<lparr>ap_sequence_queue := q'\<rparr>) = answers_ok rs ss sent w"
  by (simp_all add: answers_ok_def kept_def promised_def [abs_def])

definition responder_inv ::
    "response list \<Rightarrow> sequence_id list \<Rightarrow> answer list \<Rightarrow> responder_point \<Rightarrow> ('st, 'z) api_scheme \<Rightarrow> bool" where
  "responder_inv rs ss sent pt w \<longleftrightarrow> answers_ok rs ss sent w \<and> point_ok rs ss (length sent) pt w"

lemma answers_ok_keeps: "answers_ok rs ss sent w \<Longrightarrow> keeps_values w w' \<Longrightarrow> answers_ok rs ss sent w'"
  unfolding answers_ok_def using kept_list_keeps [of _ w w'] by (metis (no_types))

lemma answers_ok_more:
  "answers_ok rs ss sent w \<Longrightarrow> answers_ok (rs @ rs') (ss @ ss') sent w"
  by (auto simp: answers_ok_def nth_append)

lemma answers_ok_lengths: "answers_ok rs ss sent w \<Longrightarrow> length sent \<le> length rs \<and> length sent \<le> length ss"
  by (simp add: answers_ok_def)

text \<open>Steps of other threads.\<close>

lemma point_ok_other:
  assumes "point_ok rs ss n pt w" and "keeps_values w w'"
    and "m_queue (ap_respond_queue w') = m_queue (ap_respond_queue w) @ rs'"
    and "m_queue (ap_sequence_queue w') = m_queue (ap_sequence_queue w) @ ss'"
    and "n \<le> length rs" and "n \<le> length ss"
  shows "point_ok (rs @ rs') (ss @ ss') n pt w'"
proof (cases pt)
  case (Collecting op_code seq fs results)
  with assms(1) obtain gs where gs: "snd (snd (rs ! n)) = gs @ fs" "\<forall>f\<in>set gs. kept w f"
      "results = map (promised w) gs"
    by auto
  with kept_list_keeps [OF gs(2) assms(2)] Collecting assms show ?thesis
    by (auto simp: nth_append intro!: exI [of _ gs])
qed (use assms in \<open>auto simp: nth_append\<close>)

lemma responder_inv_other:
  assumes "responder_inv rs ss sent pt w" and "keeps_values w w'"
    and "m_queue (ap_respond_queue w') = m_queue (ap_respond_queue w) @ rs'"
    and "m_queue (ap_sequence_queue w') = m_queue (ap_sequence_queue w) @ ss'"
  shows "responder_inv (rs @ rs') (ss @ ss') sent pt w'"
proof -
  have a: "answers_ok rs ss sent w" and p: "point_ok rs ss (length sent) pt w"
    using assms(1) by (simp_all add: responder_inv_def)
  then have "length sent \<le> length rs" "length sent \<le> length ss" by (simp_all add: answers_ok_def)
  with point_ok_other [OF p assms(2-4)] answers_ok_more [OF answers_ok_keeps [OF a assms(2)]]
  show ?thesis by (simp add: responder_inv_def)
qed

text \<open>Steps of the thread.\<close>

lemma future_get_kept:
  assumes "future_get wait f w = Some (Inr v, w')" and "well_behaved wait respond"
  shows "kept w' f \<and> promised w' f = v \<and> same_queues w w' \<and> keeps_values w w'"
proof -
  from assms(1) obtain p where p: "f = Some p" "wait w p = Some w'" "ap_promises w' p = Some (Some v)"
    by (auto simp: future_get_def ithrow_apply Option.bind_eq_Some_conv split: option.splits)
  with assms(2) show ?thesis by (auto simp: kept_def promised_def well_behaved_def)
qed

lemma answers_ok_send:
  assumes "answers_ok rs ss sent w" and "length sent < length rs" and "length sent < length ss"
    and "\<forall>f\<in>set (snd (snd (rs ! length sent))). kept w f"
    and "a = (ss ! length sent, fst (rs ! length sent), map (promised w) (snd (snd (rs ! length sent))))"
  shows "answers_ok rs ss (sent @ [a]) w"
  using assms by (auto simp: answers_ok_def nth_append less_Suc_eq)

lemma responder_inv_step:
  assumes "responder_inv rs ss sent pt w" and "responder_step wait respond pt w = Some (Inr pt', w')"
    and wb: "well_behaved wait respond"
  shows "responder_inv rs ss (sent @ sends pt) pt' w'"
proof (cases pt)
  case Popping
  with assms(1,2) show ?thesis
    by (auto simp: responder_inv_def responder_step_def queue_pop_def prod_eq_iff answers_ok_lengths
        split: list.splits option.splits prod.splits dest!: drop_eq_Cons [OF sym] drop_eq_Cons)
next
  case (Sequencing op_code waiters)
  with assms(1,2) show ?thesis
    by (auto simp: responder_inv_def responder_step_def queue_pop_def prod_eq_iff answers_ok_lengths
        split: list.splits option.splits prod.splits dest!: drop_eq_Cons [OF sym] drop_eq_Cons)
next
  case (Collecting op_code seq waiters results)
  note inv = assms(1) [unfolded Collecting responder_inv_def point_ok.simps]
  obtain gs where gs: "snd (snd (rs ! length sent)) = gs @ waiters" "\<forall>f\<in>set gs. kept w f"
      "results = map (promised w) gs"
    using inv by auto
  show ?thesis
  proof (cases waiters)
    case (Cons f fs)
    then obtain v where v: "future_get wait f w = Some (Inr v, w')"
        "pt' = Collecting op_code seq fs (results @ [v])"
      using assms(2) Collecting by (auto simp: responder_step_def ibind_Inr_iff iret_apply)
    note k = future_get_kept [OF v(1) wb]
    have "answers_ok rs ss sent w'" using inv k by (blast intro: answers_ok_keeps)
    moreover have "snd (snd (rs ! length sent)) = (gs @ [f]) @ fs" using gs(1) Cons by simp
    moreover have "\<forall>g\<in>set (gs @ [f]). kept w' g" and "results @ [v] = map (promised w') (gs @ [f])"
      using kept_list_keeps [OF gs(2)] gs(3) k by auto
    ultimately show ?thesis
      using inv k v(2) Collecting Cons by (auto simp: responder_inv_def same_queues_def)
  next
    case Nil
    then have r: "respond seq op_code results w = Some (Inr (), w')" "pt' = Popping"
      using assms(2) Collecting by (auto simp: responder_step_def ithen_def ibind_Inr_iff iret_apply)
    then have k: "same_queues w w'" "keeps_values w w'" using wb by (auto simp: well_behaved_def)
    have "answers_ok rs ss (sent @ [(seq, op_code, results)]) w"
      by (rule answers_ok_send) (use inv gs Nil in auto)
    then show ?thesis
      using inv k r(2) Collecting Nil answers_ok_keeps [OF _ k(2)]
      by (auto simp: responder_inv_def same_queues_def)
  qed
qed

lemma responder_inv_run:
  assumes "responder_run wait respond w0 rs ss sent pt w" and wb: "well_behaved wait respond"
    and "m_queue (ap_respond_queue w0) = []" and "m_queue (ap_sequence_queue w0) = []"
  shows "responder_inv rs ss sent pt w"
  using assms(1)
proof (induction rule: responder_run.induct)
  case rr_start
  then show ?case using assms(3,4) by (simp add: responder_inv_def answers_ok_def)
next
  case (rr_response rs ss sent pt w w' r)
  then show ?case using responder_inv_other [of rs ss sent pt w w' "[r]" "[]"] by simp
next
  case (rr_sequence rs ss sent pt w w' s)
  then show ?case using responder_inv_other [of rs ss sent pt w w' "[]" "[s]"] by simp
next
  case (rr_other rs ss sent pt w w')
  then show ?case using responder_inv_other [of rs ss sent pt w w' "[]" "[]"] by (simp add: same_queues_def)
next
  case (rr_step rs ss sent pt w pt' w')
  then show ?case using responder_inv_step wb by blast
qed

end
