(* ===== verification/Api_Refinement.thy ===== *)
theory Api_Refinement
  imports Responder
begin

text \<open>
  What the calls of theory \<open>Proxy_Api\<close> keep and what they return: an invariant of the queues
  and promises that every call preserves, and, with one consumer thread serving the queue,
  the values of a plain map.
\<close>

section \<open>Queues and promises\<close>

definition queued :: "('st, 'z) api_scheme \<Rightarrow> nat list" where
  "queued w = concat (map (\<lambda>q. map snd (m_queue q)) (ap_operation_queues w))"

text \<open>
  Every promise made is known, a queued request has a pending promise, no promise is queued
  twice, and the counters of the queues are right.
\<close>

definition api_wf :: "('st, 'z) api_scheme \<Rightarrow> bool" where
  "api_wf w \<longleftrightarrow>
     (\<forall>q\<in>set (ap_operation_queues w). queue_ok q) \<and>
     queue_ok (ap_respond_queue w) \<and> queue_ok (ap_sequence_queue w) \<and>
     dom (ap_promises w) = {..<ap_next_promise w} \<and>
     distinct (queued w) \<and> (\<forall>p\<in>set (queued w). ap_promises w p = Some None)"

lemma api_wfD:
  assumes "api_wf w"
  shows "q \<in> set (ap_operation_queues w) \<Longrightarrow> queue_ok q"
    and "queue_ok (ap_respond_queue w)" and "queue_ok (ap_sequence_queue w)"
    and "dom (ap_promises w) = {..<ap_next_promise w}" and "distinct (queued w)"
    and "p \<in> set (queued w) \<Longrightarrow> ap_promises w p = Some None"
  using assms by (auto simp: api_wf_def)

definition keeping :: "('w \<Rightarrow> bool) \<Rightarrow> ('w, 'a) io \<Rightarrow> bool" where
  "keeping I m \<longleftrightarrow> (\<forall>w r w'. I w \<longrightarrow> m w = Some (r, w') \<longrightarrow> I w')"

named_theorems keeping_intros \<open>actions that keep an invariant\<close>

lemma keeping_iret [keeping_intros]: "keeping I (iret x)"
  by (simp add: keeping_def iret_apply)

lemma keeping_ithrow [keeping_intros]: "keeping I (ithrow e)"
  by (simp add: keeping_def ithrow_apply)

lemma keeping_iget [keeping_intros]: "keeping I (iget f)"
  by (simp add: keeping_def iget_apply)

lemma keeping_ibind [keeping_intros]: "keeping I m \<Longrightarrow> (\<And>x. keeping I (f x)) \<Longrightarrow> keeping I (ibind m f)"
  unfolding keeping_def
proof (intro allI impI)
  fix w r w'
  assume m: "\<forall>w r w'. I w \<longrightarrow> m w = Some (r, w') \<longrightarrow> I w'"
    and f: "\<And>x. \<forall>w r w'. I w \<longrightarrow> f x w = Some (r, w') \<longrightarrow> I w'"
    and w: "I w" and b: "ibind m f w = Some (r, w')"
  from b obtain r1 w1 where 1: "m w = Some (r1, w1)"
    by (cases "m w") (auto simp: ibind_None)
  with m w have "I w1" by blast
  with b 1 f show "I w'" by (cases r1) (auto simp: ibind_Inr ibind_Inl)
qed

lemma keeping_ithen [keeping_intros]: "keeping I m \<Longrightarrow> keeping I k \<Longrightarrow> keeping I (ithen m k)"
  unfolding ithen_def by (rule keeping_ibind)

lemma keeping_imap [keeping_intros]: "(\<And>x. keeping I (f x)) \<Longrightarrow> keeping I (imap f xs)"
  by (induction xs) (auto intro!: keeping_intros)

lemma keeping_iall [keeping_intros]: "(\<And>m. m \<in> set ms \<Longrightarrow> keeping I m) \<Longrightarrow> keeping I (iall ms)"
  by (induction ms) (auto intro!: keeping_intros)

lemma mset_concat_snoc:
  "i < length xs \<Longrightarrow> mset (concat (xs[i := xs ! i @ [y]])) = mset (concat xs) + {#y#}"
proof (induction xs arbitrary: i)
  case (Cons a xs)
  then show ?case by (cases i) simp_all
qed simp

lemma mset_concat_tl:
  "i < length xs \<Longrightarrow> xs ! i = y # ys \<Longrightarrow> mset (concat xs) = mset (concat (xs[i := ys])) + {#y#}"
proof (induction xs arbitrary: i)
  case (Cons a xs)
  then show ?case by (cases i) simp_all
qed simp

lemma queue_index_less: "queue_index q n = Inr i \<Longrightarrow> i < n"
  by (auto simp: queue_index_def split: if_splits)

lemma push_request_wf [keeping_intros]: "keeping api_wf (push_request q oper)"
proof -
  have "api_wf w'" if wf: "api_wf w" and m: "push_request q oper w = Some (r, w')" for w r w'
  proof (cases "queue_index q (length (ap_operation_queues w))")
    case (Inr i)
    let ?p = "ap_next_promise w" and ?qs = "ap_operation_queues w"
    have w': "w' = w\<lparr>ap_next_promise := Suc ?p, ap_promises := (ap_promises w)(?p \<mapsto> None),
        ap_operation_queues := ?qs[i := queue_push (oper, ?p) (?qs ! i)]\<rparr>"
      using m Inr by (simp add: push_request_def Let_def)
    have i: "i < length ?qs" using Inr by (rule queue_index_less)
    have "mset (queued w') = mset (queued w) + {#?p#}"
      using mset_concat_snoc [of i "map (\<lambda>q. map snd (m_queue q)) ?qs"] i
      by (simp add: queued_def w' map_update)
    then have qd: "mset (queued w') = mset (?p # queued w)" by simp
    have p: "?p \<notin> set (queued w)" using api_wfD(4,6) [OF wf] by (metis domI lessThan_iff less_irrefl)
    have "distinct (queued w')"
      using mset_eq_imp_distinct_iff [OF qd] p api_wfD(5) [OF wf] by simp
    moreover have "\<forall>p\<in>set (queued w'). ap_promises w' p = Some None"
      using mset_eq_setD [OF qd] api_wfD(6) [OF wf] by (simp add: w')
    moreover have "dom (ap_promises w') = {..<ap_next_promise w'}"
      using api_wfD(4) [OF wf] by (auto simp: w' lessThan_Suc)
    moreover have "\<forall>q\<in>set (ap_operation_queues w'). queue_ok q"
    proof
      fix q assume "q \<in> set (ap_operation_queues w')"
      then have "q = queue_push (oper, ?p) (?qs ! i) \<or> q \<in> set ?qs"
        using set_update_subset_insert [of ?qs i] by (auto simp: w')
      then show "queue_ok q"
        using api_wfD(1) [OF wf] i cppq.ok_enq [of "?qs ! i"] nth_mem [OF i] by metis
    qed
    ultimately show ?thesis
      using api_wfD(2,3) [OF wf] by (simp add: api_wf_def) (simp add: w')
  qed (use that in \<open>auto simp: push_request_def\<close>)
  then show ?thesis unfolding keeping_def by blast
qed

lemma get_future_wf [keeping_intros]: "keeping api_wf (get_future q k)"
  unfolding get_future_def by (intro keeping_intros) (simp add: keeping_intros)

lemma put_future_wf [keeping_intros]: "keeping api_wf (put_future q k v)"
  unfolding put_future_def by (intro keeping_intros)

lemma put_futures_wf [keeping_intros]: "keeping api_wf (put_futures q ks vs)"
  by (induction q ks vs rule: put_futures.induct) (auto intro!: keeping_intros)

lemma get_futures_wf [keeping_intros]: "keeping api_wf (get_futures q ks)"
  unfolding get_futures_def by (intro keeping_intros)

lemma push_response_wf [keeping_intros]: "keeping api_wf (push_response c s fs)"
  by (auto simp: keeping_def push_response_def imodify_apply api_wf_def queued_def intro!: cppq.ok_enq)

lemma push_sequence_wf [keeping_intros]: "keeping api_wf (push_sequence s)"
  by (auto simp: keeping_def push_sequence_def imodify_apply api_wf_def queued_def intro!: cppq.ok_enq)

definition wait_wf :: "('st, 'z) waiting \<Rightarrow> bool" where
  "wait_wf wait \<longleftrightarrow> (\<forall>w p w'. api_wf w \<longrightarrow> wait w p = Some w' \<longrightarrow> api_wf w')"

lemma future_get_wf [keeping_intros]: "wait_wf wait \<Longrightarrow> keeping api_wf (future_get wait f)"
  by (cases f) (auto simp: keeping_def future_get_def wait_wf_def ithrow_apply Option.bind_eq_Some_conv
      split: option.split_asm)

lemma get_all_wf [keeping_intros]: "wait_wf wait \<Longrightarrow> keeping api_wf (get_all wait fs)"
  unfolding get_all_def by (intro keeping_intros)

lemma storage_get_wf [keeping_intros]: "keeping api_wf (storage_get S k)"
  by (simp add: keeping_def storage_get_def)

lemma storage_put_wf [keeping_intros]: "keeping api_wf (storage_put S k v)"
  by (auto simp: keeping_def storage_put_def api_wf_def queued_def split: sum.splits)

lemma promise_set_wf:
  assumes "api_wf w" and "pid \<notin> set (queued w)" and "promise_set pid v w = Some (r, w')"
  shows "api_wf w'"
proof (cases "set_value (ap_promises w) pid v")
  case (Inr ps)
  then have ps: "ps = (ap_promises w)(pid \<mapsto> Some v)" "ap_promises w pid = Some None"
    by (simp_all add: set_value_def split: if_splits)
  have w': "w' = w\<lparr>ap_promises := ps\<rparr>" using assms(3) Inr by (simp add: promise_set_def)
  have q: "queued w' = queued w" by (simp add: w' queued_def)
  have "\<forall>p\<in>set (queued w'). ap_promises w' p = Some None"
    unfolding q using assms(2) api_wfD(6) [OF assms(1)] by (auto simp: w' ps)
  moreover have "dom (ap_promises w') = {..<ap_next_promise w'}"
    using api_wfD(4) [OF assms(1)] ps(2) by (auto simp: w' ps(1))
  ultimately show ?thesis
    using api_wfD(1,2,3,5) [OF assms(1)] by (simp add: api_wf_def q) (simp add: w')
qed (use assms in \<open>simp add: promise_set_def\<close>)

lemma queued_same [simp]: "queued (w\<lparr>ap_storage := st\<rparr>) = queued w"
  by (simp add: queued_def)

lemma promise_set_queues: "promise_set pid v w = Some (r, w') \<Longrightarrow> ap_operation_queues w' = ap_operation_queues w"
  by (auto simp: promise_set_def split: sum.split_asm)

lemma flush_answer_wf:
  assumes "api_wf w" and "pid \<notin> set (queued w)"
    and "ibind (storage_get S k) (\<lambda>x. ithen (storage_put S k x) (promise_set pid x)) w = Some (r, w')"
  shows "api_wf w' \<and> ap_operation_queues w' = ap_operation_queues w"
proof (cases "si_get S (ap_storage w) k")
  case (Inl e)
  then show ?thesis using assms by (simp add: ibind_def storage_get_def)
next
  case get: (Inr x)
  show ?thesis
  proof (cases "si_put S (ap_storage w) k x")
    case (Inl e)
    with get assms show ?thesis by (simp add: ibind_def ithen_def storage_get_def storage_put_def)
  next
    case (Inr st)
    let ?w1 = "w\<lparr>ap_storage := st\<rparr>"
    have wf1: "api_wf ?w1"
      using keeping_def storage_put_wf [of S k x] Inr assms(1)
      by (metis (mono_tags, lifting) old.sum.simps(6) storage_put_def)
    have m: "promise_set pid x ?w1 = Some (r, w')"
      using assms(3) get Inr by (simp add: ibind_def ithen_def storage_get_def storage_put_def)
    have "pid \<notin> set (queued ?w1)" using assms(2) by simp
    from promise_set_wf [OF wf1 this m] promise_set_queues [OF m] show ?thesis by simp
  qed
qed

lemma flush_queue_wf: "i < length (ap_operation_queues w) \<Longrightarrow> api_wf w \<Longrightarrow> flush_queue S i w = Some (r, w') \<Longrightarrow>
   api_wf w' \<and> length (ap_operation_queues w') = length (ap_operation_queues w)"
proof -
  assume i: "i < length (ap_operation_queues w)" and wf: "api_wf w" and m: "flush_queue S i w = Some (r, w')"
  let ?qs = "ap_operation_queues w"
  show ?thesis
  proof (cases "queue_size (?qs ! i) = 0")
    case False
    then obtain k v pid q' where pop: "queue_pop (?qs ! i) = Some ((\<lparr>op_key = k, op_value = v\<rparr>, pid), q')"
      using m by (auto simp: flush_queue_def Let_def split: option.splits) (metis operation.cases)
    let ?w1 = "w\<lparr>ap_operation_queues := ?qs[i := q']\<rparr>"
    have q: "m_queue (?qs ! i) = (\<lparr>op_key = k, op_value = v\<rparr>, pid) # m_queue q'" "queue_ok q'"
      using cppq.deq_Some [OF api_wfD(1) [OF wf nth_mem [OF i]] pop] by simp_all
    have "mset (queued w) = mset (queued ?w1) + {#pid#}"
      using mset_concat_tl [of i "map (\<lambda>q. map snd (m_queue q)) ?qs" pid "map snd (m_queue q')"] i q(1)
      by (simp add: queued_def map_update)
    then have qd: "mset (queued w) = mset (pid # queued ?w1)" by simp
    have d: "distinct (queued ?w1)" "pid \<notin> set (queued ?w1)"
      using mset_eq_imp_distinct_iff [OF qd] api_wfD(5) [OF wf] by simp_all
    have s: "\<forall>p\<in>set (queued ?w1). ap_promises w p = Some None"
      using mset_eq_setD [OF qd] api_wfD(6) [OF wf] by simp
    have "\<forall>q\<in>set (?qs[i := q']). queue_ok q"
      using set_update_subset_insert [of ?qs i q'] api_wfD(1) [OF wf] q(2) by auto
    then have wf1: "api_wf ?w1"
      using d s api_wfD(2-4) [OF wf] by (simp add: api_wf_def)
    from m False pop have "ibind (storage_get S k) (\<lambda>read_result.
        ithen (storage_put S k read_result) (promise_set pid read_result)) ?w1 = Some (r, w')"
      by (simp add: flush_queue_def Let_def)
    then show ?thesis
      using flush_answer_wf [OF wf1 d(2)] by auto
  qed (use m wf in \<open>simp add: flush_queue_def Let_def\<close>)
qed

lemma flush_queues_wf:
  assumes "\<forall>i\<in>set is. i < length (ap_operation_queues w)" and "api_wf w"
    and "iall (map (flush_queue S) is) w = Some (r, w')"
  shows "api_wf w'"
  using assms
proof (induction "is" arbitrary: w)
  case (Cons i js)
  obtain r1 w1 where 1: "flush_queue S i w = Some (r1, w1)"
    using Cons.prems(3) by (cases "flush_queue S i w") (auto simp: ithen_def ibind_None)
  have wf1: "api_wf w1" and len: "length (ap_operation_queues w1) = length (ap_operation_queues w)"
    using flush_queue_wf [OF _ Cons.prems(2) 1] Cons.prems(1) by simp_all
  show ?case
  proof (cases r1)
    case (Inl e)
    with 1 Cons.prems(3) wf1 show ?thesis by (simp add: ithen_Inl)
  next
    case (Inr u)
    with 1 Cons.prems(3) have "iall (map (flush_queue S) js) w1 = Some (r, w')" by (simp add: ithen_Inr)
    with Cons.IH [of w1] Cons.prems(1) wf1 len show ?thesis by simp
  qed
qed (simp add: iret_apply)

lemma flush_wf [keeping_intros]: "keeping api_wf (flush S)"
  unfolding keeping_def flush_def
  using flush_queues_wf [where S = S] by (metis atLeastLessThan_iff set_upt)

text \<open>All calls keep the invariant.\<close>

lemmas api_call_defs =
  api_get_def api_put_def api_get_batch_def api_put_batch_def
  api_async_get_def api_async_put_def api_async_get_batch_def api_async_put_batch_def

lemma api_calls_wf [keeping_intros]:
  assumes "wait_wf wait"
  shows "keeping api_wf (api_get wait q k)" and "keeping api_wf (api_put wait q k v)"
    and "keeping api_wf (api_get_batch wait q ks)" and "keeping api_wf (api_put_batch wait q ks vs)"
    and "keeping api_wf (api_async_get s q k)" and "keeping api_wf (api_async_put s q k v)"
    and "keeping api_wf (api_async_get_batch s q ks)"
    and "keeping api_wf (api_async_put_batch wait s q ks vs)"
  unfolding api_call_defs by (intro keeping_intros assms)+

lemma api_wf_queues:
  "api_wf w \<Longrightarrow> queue_ok q \<Longrightarrow> api_wf (w\<lparr>ap_respond_queue := q\<rparr>)"
  "api_wf w \<Longrightarrow> queue_ok q' \<Longrightarrow> api_wf (w\<lparr>ap_sequence_queue := q'\<rparr>)"
  by (simp_all add: api_wf_def queued_def)

lemma responder_step_wf [keeping_intros]:
  assumes "wait_wf wait" and "\<And>s c rs. keeping api_wf (respond s c rs)"
  shows "keeping api_wf (responder_step wait respond pt)"
proof (cases pt)
  case (Collecting op_code seq waiters results)
  then show ?thesis
    by (cases waiters) (auto simp: responder_step_def intro!: keeping_intros assms)
next
  case Popping
  have "api_wf w'" if "api_wf w" "responder_step wait respond pt w = Some (r, w')" for w r w'
    using that Popping cppq.deq_Some [OF api_wfD(2) [OF that(1)]]
    by (auto simp: responder_step_def api_wf_queues split: option.split_asm)
  then show ?thesis unfolding keeping_def by blast
next
  case (Sequencing op_code waiters)
  have "api_wf w'" if "api_wf w" "responder_step wait respond pt w = Some (r, w')" for w r w'
    using that Sequencing cppq.deq_Some [OF api_wfD(3) [OF that(1)]]
    by (auto simp: responder_step_def api_wf_queues split: option.split_asm)
  then show ?thesis unfolding keeping_def by blast
qed

end
