(* ===== verification/Replicas.thy ===== *)
theory Replicas
  imports Proxy_State
begin

text \<open>
  \<open>insert_replicas\<close> and \<open>create_replicas\<close> of \<^verbatim>\<open>pancake_proxy.cpp\<close>: how many replicas each
  key gets, which labels they get, and the distribution of the fake accesses. The first
  theorems are about the arithmetic, the last ones about the state \<open>init\<close> leaves.
\<close>

section \<open>The code\<close>

text \<open>
  The loop of \<open>insert_replicas\<close>: \<open>m\<close> turns are left and the next index is \<open>i\<close>. Labels are
  sent to the storage in chunks of 50, all with the same ciphertext.
\<close>

fun insert_loop ::
    "'st env \<Rightarrow> string \<Rightarrow> string \<Rightarrow> nat \<Rightarrow> int \<Rightarrow> string list \<Rightarrow> proxy_state \<Rightarrow> 'st \<Rightarrow>
     (string list \<times> proxy_state \<times> 'st) res" where
  "insert_loop E value_cipher k 0 i labels p st = Inr (labels, p, st)"
| "insert_loop E value_cipher k (Suc m) i labels p st =
     (let replica = replica_name k i;
          lc = px_label_count p;
          p1 = p\<lparr>px_replica_to_label := (px_replica_to_label p)(replica \<mapsto> lc)\<rparr>;
          labels1 = labels @ [to_string lc]
      in rbind
           (if 50 \<le> length labels1 then
              rbind (si_put_batch (env_storage E) st labels1 (replicate (length labels1) value_cipher))
                (\<lambda>st1. Inr ([], st1))
            else Inr (labels1, st))
           (\<lambda>(labels2, st2).
              insert_loop E value_cipher k m (i + 1) labels2 (p1\<lparr>px_label_count := lc + 1\<rparr>) st2))"

definition insert_replicas ::
    "'st env \<Rightarrow> string \<Rightarrow> int \<Rightarrow> proxy_state \<Rightarrow> 'st \<Rightarrow> rng \<Rightarrow> (proxy_state \<times> 'st \<times> rng) res" where
  "insert_replicas E k num_replicas p st g =
     rbind (rand_str (px_object_size p) g) (\<lambda>(v, g1).
     rbind (env_encrypt E v) (\<lambda>value_cipher.
     rbind (insert_loop E value_cipher k (nat num_replicas) 0 [] p st) (\<lambda>(labels, p1, st1).
       if labels = [] then Inr (p1, st1, g1)
       else rbind (si_put_batch (env_storage E) st1 labels (replicate (length labels) value_cipher))
              (\<lambda>st2. Inr (p1, st2, g1)))))"

text \<open>The number of replicas of a key and the weight of its fake accesses.\<close>

definition replica_count :: "real \<Rightarrow> real \<Rightarrow> int" where
  "replica_count \<alpha> \<pi> = \<lceil>\<pi> / \<alpha>\<rceil>"

definition fake_weight :: "real \<Rightarrow> real \<Rightarrow> real \<Rightarrow> real" where
  "fake_weight \<alpha> \<delta> \<pi> =
     (let r = real_of_int (replica_count \<alpha> \<pi>) in r * (\<alpha> - \<pi> / r) / (1 / \<delta> - 1))"

definition dummy_weight :: "real \<Rightarrow> real \<Rightarrow> int \<Rightarrow> real" where
  "dummy_weight \<alpha> \<delta> r = (\<alpha> / (1 / \<delta> - 1)) * real_of_int r"

fun create_keys ::
    "'st env \<Rightarrow> string list \<Rightarrow> real list \<Rightarrow> real list \<Rightarrow> (string \<times> int) list \<Rightarrow> int \<Rightarrow>
     proxy_state \<Rightarrow> 'st \<Rightarrow> rng \<Rightarrow>
     (real list \<times> (string \<times> int) list \<times> int \<times> proxy_state \<times> 'st \<times> rng) res" where
  "create_keys E [] probs fakes pairs created p st g = Inr (fakes, pairs, created, p, st, g)"
| "create_keys E (k # ks) [] fakes pairs created p st g = Inl Out_of_range"
| "create_keys E (k # ks) (\<pi> # \<pi>s) fakes pairs created p st g =
     (let r = replica_count (px_alpha p) \<pi>;
          p1 = p\<lparr>px_key_to_frequency := (px_key_to_frequency p)(k \<mapsto> trunc_int \<pi>),
                 px_key_to_number_of_replicas := (px_key_to_number_of_replicas p)(k \<mapsto> r)\<rparr>
      in rbind (insert_replicas E k r p1 st g) (\<lambda>(p2, st2, g2).
           create_keys E ks \<pi>s (fakes @ [fake_weight (px_alpha p) (px_delta p) \<pi>]) (pairs @ [(k, r)])
             (created + r) p2 st2 g2))"

text \<open>
  \<open>2*keys.size()-keys_created\<close> is computed in \<open>size_t\<close>, so the test against 0 never
  holds and the value is stored back into an \<open>int\<close>.
\<close>

definition dummy_count :: "nat \<Rightarrow> int \<Rightarrow> int" where
  "dummy_count n created =
     (let d = (2 * int n - created) mod 2 ^ 64 in int32 (if 0 > d then 0 else d))"

definition create_replicas ::
    "'st env \<Rightarrow> proxy_state \<Rightarrow> 'st \<Rightarrow> rng \<Rightarrow> (proxy_state \<times> 'st \<times> rng) res" where
  "create_replicas E p st g =
     (let keys = get_items (px_real_distribution p);
          probabilities = get_probabilities (px_real_distribution p)
      in rbind (create_keys E keys probabilities [] [] 0 p st g) (\<lambda>(fakes, pairs, created, p1, st1, g1).
         let dummy_r = dummy_count (length keys) created;
             p2 = p1\<lparr>px_dummy_keys := dummy_r\<rparr>
         in rbind
              (if dummy_r \<noteq> 0 then
                 rbind (insert_replicas E (px_dummy_key p2) dummy_r
                     (p2\<lparr>px_key_to_number_of_replicas :=
                           (px_key_to_number_of_replicas p2)(px_dummy_key p2 \<mapsto> dummy_r)\<rparr>) st1 g1)
                   (\<lambda>(p3, st3, g3). Inr (fakes @ [dummy_weight (px_alpha p) (px_delta p) dummy_r],
                                         pairs @ [(px_dummy_key p2, dummy_r)], p3, st3, g3))
               else Inr (fakes, pairs, p2, st1, g1))
              (\<lambda>(fakes', pairs', p3, st3, g3).
                 rbind (update_cache_of pairs') (\<lambda>uc.
                   Inr (p3\<lparr>px_update_cache := uc,
                           px_fake_distribution :=
                             distribution_new (keys @ [px_dummy_key p3]) fakes'\<rparr>, st3, g3)))))"

section \<open>Counting replicas\<close>

text \<open>The rounded-up counts of \<open>n\<close> probabilities that sum to 1 stay between \<open>n\<close> and \<open>2n - 1\<close>.\<close>

lemma replica_count_bounds:
  assumes "0 < \<alpha>" and "0 < \<pi>"
  shows "1 \<le> replica_count \<alpha> \<pi>" and "\<pi> / \<alpha> \<le> replica_count \<alpha> \<pi>"
    and "replica_count \<alpha> \<pi> < \<pi> / \<alpha> + 1"
proof -
  have "0 < \<pi> / \<alpha>" using assms by simp
  then show "1 \<le> replica_count \<alpha> \<pi>" by (simp add: replica_count_def)
  show "\<pi> / \<alpha> \<le> replica_count \<alpha> \<pi>" by (simp add: replica_count_def le_of_int_ceiling)
  show "replica_count \<alpha> \<pi> < \<pi> / \<alpha> + 1"
    using ceiling_correct [of "\<pi> / \<alpha>"] by (simp add: replica_count_def)
qed

lemma sum_list_ge_length:
  "\<forall>x\<in>set xs. (1 :: int) \<le> f x \<Longrightarrow> int (length xs) \<le> sum_list (map f xs)"
  by (induction xs) auto

lemma sum_replica_count_less:
  assumes "0 < \<alpha>" and "\<forall>\<pi>\<in>set \<pi>s. 0 < \<pi>" and "\<pi>s \<noteq> []"
  shows "real_of_int (sum_list (map (replica_count \<alpha>) \<pi>s)) < sum_list \<pi>s / \<alpha> + real (length \<pi>s)"
  using assms(2,3)
proof (induction \<pi>s)
  case Nil
  then show ?case by simp
next
  case (Cons \<pi> \<pi>s)
  have b: "replica_count \<alpha> \<pi> < \<pi> / \<alpha> + 1" using replica_count_bounds(3) [OF assms(1)] Cons.prems by simp
  show ?case
  proof (cases "\<pi>s = []")
    case True
    with b show ?thesis by simp
  next
    case False
    with Cons b show ?thesis by (simp add: add_divide_distrib)
  qed
qed

lemma created_bounds:
  assumes "\<forall>\<pi>\<in>set \<pi>s. 0 < \<pi>" and "sum_list \<pi>s = 1" and "\<pi>s \<noteq> []" and "\<alpha> = 1 / real (length \<pi>s)"
  shows "int (length \<pi>s) \<le> sum_list (map (replica_count \<alpha>) \<pi>s)"
    and "sum_list (map (replica_count \<alpha>) \<pi>s) < 2 * int (length \<pi>s)"
proof -
  have a: "0 < \<alpha>" using assms(3,4) by simp
  then show "int (length \<pi>s) \<le> sum_list (map (replica_count \<alpha>) \<pi>s)"
    using replica_count_bounds(1) assms(1) by (intro sum_list_ge_length) blast
  have "real_of_int (sum_list (map (replica_count \<alpha>) \<pi>s)) < 2 * real (length \<pi>s)"
    using sum_replica_count_less [OF a assms(1,3)] assms(2,4) by simp
  then show "sum_list (map (replica_count \<alpha>) \<pi>s) < 2 * int (length \<pi>s)" by linarith
qed

lemma dummy_count_exact:
  assumes "0 \<le> 2 * int n - created" and "2 * int n - created < 2 ^ 31"
  shows "dummy_count n created = 2 * int n - created"
  using assms by (simp add: dummy_count_def Let_def int32_id)

lemma sum_fake_weight:
  assumes "0 < \<alpha>" and "\<forall>\<pi>\<in>set \<pi>s. 0 < \<pi>"
  shows "sum_list (map (fake_weight \<alpha> \<delta>) \<pi>s) =
     (\<alpha> * real_of_int (sum_list (map (replica_count \<alpha>) \<pi>s)) - sum_list \<pi>s) / (1 / \<delta> - 1)"
  using assms(2)
proof (induction \<pi>s)
  case Nil
  then show ?case by simp
next
  case (Cons \<pi> \<pi>s)
  have "real_of_int (replica_count \<alpha> \<pi>) \<noteq> 0"
    using replica_count_bounds(1) [OF assms(1), of \<pi>] Cons.prems by auto
  then have "fake_weight \<alpha> \<delta> \<pi> = (\<alpha> * real_of_int (replica_count \<alpha> \<pi>) - \<pi>) / (1 / \<delta> - 1)"
    by (simp add: fake_weight_def Let_def right_diff_distrib mult.commute)
  with Cons show ?case by (simp add: diff_divide_distrib add_divide_distrib algebra_simps)
qed

lemma fake_weight_nonneg:
  assumes "0 < \<alpha>" and "0 < \<pi>" and "0 < \<delta>" and "\<delta> < 1"
  shows "0 \<le> fake_weight \<alpha> \<delta> \<pi>"
proof -
  define r where "r = real_of_int (replica_count \<alpha> \<pi>)"
  have r: "\<pi> / \<alpha> \<le> r" "0 < r"
    using replica_count_bounds [OF assms(1,2)] by (simp_all add: r_def)
  then have "\<pi> / r \<le> \<alpha>" using assms(1) by (simp add: divide_simps mult.commute)
  moreover have "0 < 1 / \<delta> - 1" using assms(3,4) by simp
  ultimately show ?thesis using r(2) by (simp add: fake_weight_def Let_def r_def)
qed

section \<open>Assigning labels\<close>

text \<open>What the loop of \<open>insert_replicas\<close> does to the proxy, without the storage.\<close>

fun assign_labels :: "string \<Rightarrow> int \<Rightarrow> nat \<Rightarrow> proxy_state \<Rightarrow> proxy_state" where
  "assign_labels k i 0 p = p"
| "assign_labels k i (Suc m) p =
     assign_labels k (i + 1) m
       (p\<lparr>px_replica_to_label := (px_replica_to_label p)(replica_name k i \<mapsto> px_label_count p),
          px_label_count := px_label_count p + 1\<rparr>)"

fun new_labels :: "int \<Rightarrow> nat \<Rightarrow> string list" where
  "new_labels lc 0 = []"
| "new_labels lc (Suc m) = to_string lc # new_labels (lc + 1) m"

lemma length_new_labels [simp]: "length (new_labels lc m) = m"
  by (induction m arbitrary: lc) simp_all

lemma set_new_labels: "set (new_labels lc m) = to_string ` {lc ..< lc + int m}"
proof (induction m arbitrary: lc)
  case 0
  then show ?case by simp
next
  case (Suc m)
  have "{lc ..< lc + int (Suc m)} = insert lc {lc + 1 ..< lc + 1 + int m}" by auto
  then show ?case by (simp only: new_labels.simps list.set Suc image_insert)
qed

lemma assign_labels_frame:
  "\<exists>f. assign_labels k i m p
     = p\<lparr>px_replica_to_label := f, px_label_count := px_label_count p + int m\<rparr>"
proof (induction m arbitrary: i p)
  case 0
  then show ?case by (intro exI [of _ "px_replica_to_label p"]) simp
next
  case (Suc m)
  obtain f where "assign_labels k (i + 1) m
       (p\<lparr>px_replica_to_label := (px_replica_to_label p)(replica_name k i \<mapsto> px_label_count p),
          px_label_count := px_label_count p + 1\<rparr>)
     = p\<lparr>px_replica_to_label := f, px_label_count := px_label_count p + 1 + int m\<rparr>"
    using Suc [of "i + 1" "p\<lparr>px_replica_to_label := (px_replica_to_label p)(replica_name k i \<mapsto> px_label_count p),
          px_label_count := px_label_count p + 1\<rparr>"] by auto
  then show ?case by (intro exI [of _ f]) (simp add: add.assoc)
qed

lemma assign_labels_other:
  "\<forall>j. 0 \<le> j \<longrightarrow> j < int m \<longrightarrow> nm \<noteq> replica_name k (i + j) \<Longrightarrow>
   px_replica_to_label (assign_labels k i m p) nm = px_replica_to_label p nm"
proof (induction m arbitrary: i p)
  case 0
  then show ?case by simp
next
  case (Suc m)
  have "nm \<noteq> replica_name k (i + 1 + j)" if "0 \<le> j" "j < int m" for j
    using Suc.prems [rule_format, of "1 + j"] that by (simp add: add.assoc)
  moreover have "nm \<noteq> replica_name k i"
    using Suc.prems [rule_format, of 0] by simp
  ultimately show ?case using Suc.IH [of "i + 1"] by simp
qed

lemma assign_labels_label:
  "0 \<le> j \<Longrightarrow> j < int m \<Longrightarrow>
   px_replica_to_label (assign_labels k i m p) (replica_name k (i + j)) = Some (px_label_count p + j)"
proof (induction m arbitrary: i p j)
  case 0
  then show ?case by simp
next
  case (Suc m)
  define q where "q = p\<lparr>px_replica_to_label := (px_replica_to_label p)(replica_name k i \<mapsto> px_label_count p),
      px_label_count := px_label_count p + 1\<rparr>"
  have step: "assign_labels k i (Suc m) p = assign_labels k (i + 1) m q" by (simp add: q_def)
  show ?case
  proof (cases "j = 0")
    case True
    have "px_replica_to_label (assign_labels k (i + 1) m q) (replica_name k i) = px_replica_to_label q (replica_name k i)"
      by (rule assign_labels_other) simp
    then show ?thesis using True step by (simp add: q_def)
  next
    case False
    then have "px_replica_to_label (assign_labels k (i + 1) m q) (replica_name k (i + 1 + (j - 1)))
        = Some (px_label_count q + (j - 1))"
      using Suc.prems by (intro Suc.IH) simp_all
    then show ?thesis using step by (simp add: q_def)
  qed
qed

section \<open>What stays true while replicas are added\<close>

text \<open>
  \<open>build_inv K p vw V\<close>: the keys in \<open>K\<close> have their replicas, labelled \<open>0 \<dots> label_count_ - 1\<close>,
  each stored with the value of its key.
\<close>

definition used_labels :: "proxy_state \<Rightarrow> int set" where
  "used_labels p = {l. \<exists>k i. in_range p k i \<and> label p k i = Some l}"

definition build_inv ::
    "'st env \<Rightarrow> string set \<Rightarrow> proxy_state \<Rightarrow> (string \<rightharpoonup> string) \<Rightarrow> (string \<Rightarrow> string) \<Rightarrow> bool" where
  "build_inv E K p vw V \<longleftrightarrow>
     proxy_wf p \<and> holds E p vw V \<and> px_update_cache p = Map.empty \<and>
     dom (px_key_to_number_of_replicas p) = K \<and> 0 \<le> px_label_count p \<and>
     used_labels p = {0 ..< px_label_count p}"

definition add_key :: "string \<Rightarrow> int \<Rightarrow> proxy_state \<Rightarrow> proxy_state" where
  "add_key k r p =
     assign_labels k 0 (nat r)
       (p\<lparr>px_key_to_number_of_replicas := (px_key_to_number_of_replicas p)(k \<mapsto> r)\<rparr>)"

lemma add_key_fields:
  "px_key_to_number_of_replicas (add_key k r p) = (px_key_to_number_of_replicas p)(k \<mapsto> r)"
  "px_label_count (add_key k r p) = px_label_count p + int (nat r)"
  "px_update_cache (add_key k r p) = px_update_cache p"
  "replicas (add_key k r p) k' = (if k' = k then r else replicas p k')"
  "in_range (add_key k r p) k' i = (if k' = k then 0 \<le> i \<and> i < r else in_range p k' i)"
  using assign_labels_frame [of k 0 "nat r"
      "p\<lparr>px_key_to_number_of_replicas := (px_key_to_number_of_replicas p)(k \<mapsto> r)\<rparr>"]
  by (auto simp: add_key_def replicas_def in_range_def)

lemma add_key_label:
  "0 \<le> i \<Longrightarrow> i < r \<Longrightarrow> label (add_key k r p) k i = Some (px_label_count p + i)"
  using assign_labels_label [of i "nat r" k 0
      "p\<lparr>px_key_to_number_of_replicas := (px_key_to_number_of_replicas p)(k \<mapsto> r)\<rparr>"]
  by (simp add: add_key_def label_def)

lemma add_key_label_other:
  assumes "names_unique (insert k K)" and "k' \<in> K" and "k' \<noteq> k"
  shows "label (add_key k r p) k' i = label p k' i"
proof -
  have "replica_name k' i \<noteq> replica_name k (0 + j)" for j
    using names_uniqueD [OF assms(1), of k' k i "0 + j"] assms(2,3) by auto
  then show ?thesis
    using assign_labels_other [of "nat r" "replica_name k' i" k 0] by (simp add: add_key_def label_def)
qed

lemma used_labels_add_key:
  assumes "names_unique (insert k K)" and "k \<notin> K"
    and "dom (px_key_to_number_of_replicas p) = K" and "0 \<le> r"
  shows "used_labels (add_key k r p) = used_labels p \<union> {px_label_count p ..< px_label_count p + r}"
proof (rule set_eqI)
  fix l
  have known: "k' \<in> K" if "in_range p k' i" for k' i
    using that assms(3) by (auto simp: in_range_def replicas_def split: option.splits)
  have mine: "(\<exists>i. 0 \<le> i \<and> i < r \<and> label (add_key k r p) k i = Some l) \<longleftrightarrow>
      px_label_count p \<le> l \<and> l < px_label_count p + r"
  proof
    assume "\<exists>i. 0 \<le> i \<and> i < r \<and> label (add_key k r p) k i = Some l"
    then show "px_label_count p \<le> l \<and> l < px_label_count p + r" using add_key_label by force
  next
    assume "px_label_count p \<le> l \<and> l < px_label_count p + r"
    then show "\<exists>i. 0 \<le> i \<and> i < r \<and> label (add_key k r p) k i = Some l"
      using add_key_label [of "l - px_label_count p" r k p]
      by (intro exI [of _ "l - px_label_count p"]) simp
  qed
  have others: "(\<exists>k' i. k' \<noteq> k \<and> in_range p k' i \<and> label (add_key k r p) k' i = Some l) \<longleftrightarrow>
      l \<in> used_labels p"
    using add_key_label_other [OF assms(1)] known assms(2) unfolding used_labels_def mem_Collect_eq
    by metis
  show "l \<in> used_labels (add_key k r p) \<longleftrightarrow>
      l \<in> used_labels p \<union> {px_label_count p ..< px_label_count p + r}"
    using mine others unfolding used_labels_def [of "add_key k r p"] mem_Collect_eq add_key_fields(5)
    by auto
qed

lemma build_inv_add_key:
  assumes inv: "build_inv E K p vw V" and uniq: "names_unique (insert k K)" and k: "k \<notin> K" and r: "0 \<le> r"
    and c: "env_decrypt E c = Inr v"
  shows "build_inv E (insert k K) (add_key k r p)
    (put_all vw (new_labels (px_label_count p) (nat r)) (replicate (nat r) c)) (V(k := v))"
proof -
  define p' where "p' = add_key k r p"
  define lc where "lc = px_label_count p"
  note i = inv [unfolded build_inv_def]
  have known: "k' \<in> K" "k' \<noteq> k" if "in_range p k' i" for k' i
    using that i k by (auto simp: in_range_def replicas_def split: option.splits)
  have old: "label p' k' i = label p k' i" if "in_range p k' i" for k' i
    unfolding p'_def by (rule add_key_label_other [OF uniq]) (use known that in blast)+
  have new: "label p' k i = Some (lc + i)" if "0 \<le> i" "i < r" for i
    unfolding p'_def lc_def by (rule add_key_label [OF that])
  have below: "l < lc" "0 \<le> l" if "in_range p k' i" "label p k' i = Some l" for k' i l
  proof -
    have "l \<in> used_labels p" using that by (auto simp: used_labels_def)
    then show "l < lc" "0 \<le> l" using i by (simp_all add: lc_def)
  qed
  have rng: "in_range p' k' i \<longleftrightarrow> (if k' = k then 0 \<le> i \<and> i < r else in_range p k' i)" for k' i
    by (simp add: p'_def add_key_fields)
  have total: "labels_total p'"
    using i new old unfolding labels_total_def proxy_wf_def rng by (auto simp: labels_total_def split: if_splits)
  have inj: "labels_inj p'"
    unfolding labels_inj_def
  proof (intro allI impI)
    fix a x b y
    assume h: "in_range p' a x" "in_range p' b y" "label p' a x = label p' b y"
    have tot: "\<exists>l. label p a x = Some l" if "in_range p a x" for a x
      using i that by (auto simp: proxy_wf_def labels_total_def)
    show "a = b \<and> x = y"
    proof (cases "a = k"; cases "b = k")
      assume "a = k" "b = k"
      with h new show ?thesis by (simp add: rng)
    next
      assume ab: "a = k" "b \<noteq> k"
      with h have "in_range p b y" "label p b y = Some (lc + x)" "0 \<le> x"
        using new [of x] old [of b y] by (simp_all add: rng)
      then show ?thesis using below(1) [of b y "lc + x"] by simp
    next
      assume ab: "a \<noteq> k" "b = k"
      with h have "in_range p a x" "label p a x = Some (lc + y)" "0 \<le> y"
        using new [of y] old [of a x] by (simp_all add: rng)
      then show ?thesis using below(1) [of a x "lc + y"] by simp
    next
      assume ab: "a \<noteq> k" "b \<noteq> k"
      with h old show ?thesis
        using i unfolding proxy_wf_def labels_inj_def by (simp add: rng)
    qed
  qed
  have empty: "px_update_cache p' = Map.empty" using i by (simp add: p'_def add_key_fields)
  have wf: "proxy_wf p'" using total inj empty by (simp add: proxy_wf_def cache_sized_def)
  define vw' where "vw' = put_all vw (new_labels lc (nat r)) (replicate (nat r) c)"
  have h: "holds E p' vw' (V(k := v))"
    unfolding holds_def
  proof (intro allI impI)
    fix k' x assume rg: "in_range p' k' x"
    show "\<exists>l c x'. label p' k' x = Some l \<and> vw' (to_string l) = Some c \<and> env_decrypt E c = Inr x' \<and>
        (case cache_pending (px_update_cache p') k' x of Some u \<Rightarrow> u = (V(k := v)) k' | None \<Rightarrow> x' = (V(k := v)) k')"
    proof (cases "k' = k")
      case True
      then have x: "0 \<le> x" "x < r" using rg by (simp_all add: rng)
      then have "to_string (lc + x) \<in> set (new_labels lc (nat r))" by (simp add: set_new_labels)
      then have "vw' (to_string (lc + x)) = Some c"
        using put_all_replicate [of _ "new_labels lc (nat r)" vw c] by (simp add: vw'_def)
      with True x new c show ?thesis by (simp add: empty cache_pending_def)
    next
      case False
      then have rp: "in_range p k' x" using rg by (simp add: rng)
      have "cache_pending (px_update_cache p) k' x = None" using i by (simp add: cache_pending_def)
      moreover have "holds E p vw V" using i by blast
      ultimately obtain l d x' where l: "label p k' x = Some l" "vw (to_string l) = Some d"
          "env_decrypt E d = Inr x'" "x' = V k'"
        using rp unfolding holds_def by force
      have "to_string l \<notin> set (new_labels lc (nat r))"
        using below(1) [OF rp l(1)] by (auto simp: set_new_labels)
      then have "vw' (to_string l) = Some d" using l(2) by (simp add: vw'_def put_all_other)
      with False l old [OF rp] show ?thesis by (simp add: empty cache_pending_def)
    qed
  qed
  have "used_labels p' = {0 ..< px_label_count p'}"
    using used_labels_add_key [OF uniq k, of p r] i r
    by (auto simp: p'_def add_key_fields lc_def)
  then show ?thesis
    using wf h empty i by (simp add: build_inv_def p'_def [symmetric] vw'_def lc_def)
      (simp add: p'_def add_key_fields)
qed

section \<open>The code adds keys this way\<close>

definition random_values_valid :: "(string \<Rightarrow> bool) \<Rightarrow> int \<Rightarrow> bool" where
  "random_values_valid ok n \<longleftrightarrow>
     0 \<le> n \<and> (\<forall>v. length v = nat n \<longrightarrow> (\<forall>c\<in>set v. is_digit c) \<longrightarrow> ok v)"

context replica_store begin

text \<open>Sending the labels in chunks stores the same as sending them all at once.\<close>

lemma insert_loop_spec:
  assumes "sound st"
  shows "\<exists>labels' st'. insert_loop E c k m i labels p st = Inr (labels', assign_labels k i m p, st') \<and>
    sound st' \<and>
    put_all (view st') labels' (replicate (length labels') c)
      = put_all (view st) (labels @ new_labels (px_label_count p) m) (replicate (length labels + m) c)"
  using assms
proof (induction m arbitrary: i labels p st)
  case 0
  then show ?case by simp
next
  case (Suc m)
  define lc where "lc = px_label_count p"
  define p1 where "p1 = p\<lparr>px_replica_to_label := (px_replica_to_label p)(replica_name k i \<mapsto> lc),
      px_label_count := lc + 1\<rparr>"
  define labels1 where "labels1 = labels @ [to_string lc]"
  obtain labels2 st2 where flush: "(if 50 \<le> length labels1 then
        rbind (si_put_batch (env_storage E) st labels1 (replicate (length labels1) c)) (\<lambda>st1. Inr ([], st1))
      else Inr (labels1, st)) = Inr (labels2, st2)" "sound st2"
      "put_all (view st2) labels2 (replicate (length labels2) c)
        = put_all (view st) labels1 (replicate (length labels1) c)"
  proof (cases "50 \<le> length labels1")
    case True
    obtain st1 where "si_put_batch (env_storage E) st labels1 (replicate (length labels1) c) = Inr st1"
        "sound st1" "view st1 = put_all (view st) labels1 (replicate (length labels1) c)"
      using put_batch_law [OF Suc.prems, of labels1 "replicate (length labels1) c"] by auto
    with True that [of "[]" st1] show ?thesis by simp
  next
    case False
    with Suc.prems that [of labels1 st] show ?thesis by simp
  qed
  obtain labels' st' where ih: "insert_loop E c k m (i + 1) labels2 p1 st2
        = Inr (labels', assign_labels k (i + 1) m p1, st')" "sound st'"
      "put_all (view st') labels' (replicate (length labels') c)
        = put_all (view st2) (labels2 @ new_labels (px_label_count p1) m) (replicate (length labels2 + m) c)"
    using Suc.IH [OF flush(2)] by blast
  have "insert_loop E c k (Suc m) i labels p st = Inr (labels', assign_labels k i (Suc m) p, st')"
  proof -
    have "insert_loop E c k (Suc m) i labels p st =
        rbind (if 50 \<le> length labels1 then
            rbind (si_put_batch (env_storage E) st labels1 (replicate (length labels1) c))
              (\<lambda>st1. Inr ([], st1))
          else Inr (labels1, st))
        (\<lambda>(labels2, st2). insert_loop E c k m (i + 1) labels2 p1 st2)"
      unfolding insert_loop.simps Let_def lc_def p1_def labels1_def ..
    also have "\<dots> = insert_loop E c k m (i + 1) labels2 p1 st2"
      unfolding flush(1) by simp
    finally show ?thesis unfolding ih(1) by (simp add: p1_def lc_def)
  qed
  moreover have "put_all (view st') labels' (replicate (length labels') c)
      = put_all (view st) (labels @ new_labels lc (Suc m)) (replicate (length labels + Suc m) c)"
  proof -
    have "put_all (view st') labels' (replicate (length labels') c)
        = put_all (put_all (view st2) labels2 (replicate (length labels2) c)) (new_labels (lc + 1) m)
            (replicate m c)"
      unfolding ih(3) replicate_add by (simp add: put_all_append p1_def)
    also have "\<dots> = put_all (view st) (labels1 @ new_labels (lc + 1) m)
        (replicate (length labels1) c @ replicate m c)"
      unfolding flush(3) by (simp add: put_all_append)
    also have "\<dots> = put_all (view st) (labels @ new_labels lc (Suc m)) (replicate (length labels + Suc m) c)"
      by (simp add: labels1_def flip: replicate_add)
    finally show ?thesis .
  qed
  ultimately show ?case using ih(2) by (simp add: lc_def)
qed

lemma insert_replicas_spec:
  assumes sound: "sound st" and r: "0 \<le> r" and rand: "random_values_valid valid (px_object_size p)"
  shows "\<exists>v c st' g'. insert_replicas E k r p st g = Inr (assign_labels k 0 (nat r) p, st', g') \<and>
    sound st' \<and> valid v \<and> env_decrypt E c = Inr v \<and>
    view st' = put_all (view st) (new_labels (px_label_count p) (nat r)) (replicate (nat r) c)"
proof -
  define v where "v = fst (rand_chars (nat (px_object_size p)) g)"
  define g1 where "g1 = snd (rand_chars (nat (px_object_size p)) g)"
  have v: "rand_str (px_object_size p) g = Inr (v, g1)"
    using rand by (simp add: rand_str_def random_values_valid_def v_def g1_def)
  have "valid v"
    using rand rand_chars_length rand_chars_digits unfolding random_values_valid_def v_def by blast
  then obtain c where c: "env_encrypt E v = Inr c" "env_decrypt E c = Inr v"
    using roundtrip_law by blast
  obtain labels st1 where l: "insert_loop E c k (nat r) 0 [] p st = Inr (labels, assign_labels k 0 (nat r) p, st1)"
      "sound st1" "put_all (view st1) labels (replicate (length labels) c)
        = put_all (view st) (new_labels (px_label_count p) (nat r)) (replicate (nat r) c)"
    using insert_loop_spec [OF sound, of c k "nat r" 0 "[]" p] by auto
  show ?thesis
  proof (cases "labels = []")
    case True
    then show ?thesis using v c l \<open>valid v\<close> by (simp add: insert_replicas_def) blast
  next
    case False
    obtain st2 where st2: "si_put_batch (env_storage E) st1 labels (replicate (length labels) c) = Inr st2"
        "sound st2" "view st2 = put_all (view st1) labels (replicate (length labels) c)"
      using put_batch_law [OF l(2), of labels "replicate (length labels) c"] by auto
    then show ?thesis using False v c l \<open>valid v\<close> by (simp add: insert_replicas_def) blast
  qed
qed

end

definition same_config :: "proxy_state \<Rightarrow> proxy_state \<Rightarrow> bool" where
  "same_config p p' \<longleftrightarrow>
     px_alpha p' = px_alpha p \<and> px_delta p' = px_delta p \<and> px_dummy_key p' = px_dummy_key p \<and>
     px_real_distribution p' = px_real_distribution p \<and> px_object_size p' = px_object_size p \<and>
     px_missing_new_replicas p' = px_missing_new_replicas p \<and> px_p_max p' = px_p_max p \<and>
     px_security_batch_size p' = px_security_batch_size p \<and>
     px_storage_batch_size p' = px_storage_batch_size p"

lemma same_config_refl [simp]: "same_config p p"
  by (simp add: same_config_def)

lemma same_config_trans: "same_config p q \<Longrightarrow> same_config q r \<Longrightarrow> same_config p r"
  by (simp add: same_config_def)

definition set_freq :: "string \<Rightarrow> real \<Rightarrow> proxy_state \<Rightarrow> proxy_state" where
  "set_freq k \<pi> p = p\<lparr>px_key_to_frequency := (px_key_to_frequency p)(k \<mapsto> trunc_int \<pi>)\<rparr>"

lemma build_inv_set_freq: "build_inv E K (set_freq k \<pi> p) vw V = build_inv E K p vw V"
proof -
  have a: "proxy_wf (set_freq k \<pi> p) = proxy_wf p"
    by (rule proxy_inv_cong) (simp_all add: set_freq_def)
  have b: "holds E (set_freq k \<pi> p) vw V = holds E p vw V"
    by (rule proxy_inv_cong) (simp_all add: set_freq_def)
  have c: "used_labels (set_freq k \<pi> p) = used_labels p"
    by (simp add: used_labels_def in_range_def replicas_def label_def set_freq_def)
  show ?thesis unfolding build_inv_def a b c by (simp add: set_freq_def)
qed

lemma add_key_config: "same_config p (add_key k r p)"
  using assign_labels_frame [of k 0 "nat r"
      "p\<lparr>px_key_to_number_of_replicas := (px_key_to_number_of_replicas p)(k \<mapsto> r)\<rparr>"]
  by (auto simp: add_key_def same_config_def)

lemma names_unique_subset: "names_unique K \<Longrightarrow> K' \<subseteq> K \<Longrightarrow> names_unique K'"
  by (auto simp: names_unique_def)

context replica_store begin

text \<open>One key: its replicas get fresh labels and a random valid value.\<close>

lemma add_one_key:
  assumes sound: "sound st" and inv: "build_inv E K p (view st) V"
    and rand: "random_values_valid valid (px_object_size p)" and r: "0 \<le> r"
    and uniq: "names_unique (insert k K)" and k: "k \<notin> K"
  shows "\<exists>v st' g'. insert_replicas E k r
      (p\<lparr>px_key_to_number_of_replicas := (px_key_to_number_of_replicas p)(k \<mapsto> r)\<rparr>) st g
        = Inr (add_key k r p, st', g') \<and>
    sound st' \<and> valid v \<and> build_inv E (insert k K) (add_key k r p) (view st') (V(k := v))"
proof -
  let ?p = "p\<lparr>px_key_to_number_of_replicas := (px_key_to_number_of_replicas p)(k \<mapsto> r)\<rparr>"
  have "random_values_valid valid (px_object_size ?p)" using rand by simp
  from insert_replicas_spec [OF sound r this, of k g] obtain v c st' g' where i:
      "insert_replicas E k r ?p st g = Inr (add_key k r p, st', g')"
      "sound st'" "valid v" "env_decrypt E c = Inr v"
      "view st' = put_all (view st) (new_labels (px_label_count p) (nat r)) (replicate (nat r) c)"
    by (auto simp: add_key_def)
  from build_inv_add_key [OF inv uniq k r i(4)] i show ?thesis by auto
qed

text \<open>The whole first loop of \<open>create_replicas\<close>.\<close>

lemma create_keys_spec:
  assumes "length ks = length \<pi>s" and "sound st" and "build_inv E K p (view st) V"
    and "random_values_valid valid (px_object_size p)" and "distinct ks" and "set ks \<inter> K = {}"
    and "names_unique (K \<union> set ks)" and "0 < px_alpha p" and "\<forall>\<pi>\<in>set \<pi>s. 0 < \<pi>"
    and "\<forall>k\<in>K. valid (V k)"
  shows "\<exists>p' st' g' V'. create_keys E ks \<pi>s fakes pairs created p st g =
      Inr (fakes @ map (fake_weight (px_alpha p) (px_delta p)) \<pi>s,
           pairs @ zip ks (map (replica_count (px_alpha p)) \<pi>s),
           created + sum_list (map (replica_count (px_alpha p)) \<pi>s), p', st', g') \<and>
    sound st' \<and> build_inv E (K \<union> set ks) p' (view st') V' \<and> same_config p p' \<and>
    px_label_count p' = px_label_count p + sum_list (map (replica_count (px_alpha p)) \<pi>s) \<and>
    map (replicas p') ks = map (replica_count (px_alpha p)) \<pi>s \<and>
    (\<forall>k. k \<notin> set ks \<longrightarrow> replicas p' k = replicas p k) \<and> (\<forall>k\<in>K \<union> set ks. valid (V' k))"
  using assms
proof (induction ks \<pi>s arbitrary: K p st g V fakes pairs created rule: list_induct2)
  case Nil
  then show ?case by auto
next
  case (Cons k ks \<pi> \<pi>s)
  define r where "r = replica_count (px_alpha p) \<pi>"
  define q where "q = set_freq k \<pi> p"
  define p1 where "p1 = add_key k r q"
  have r: "1 \<le> r" using replica_count_bounds(1) Cons.prems by (simp add: r_def)
  have q: "build_inv E K q (view st) V" "same_config p q"
    using Cons.prems(2) by (simp_all add: q_def build_inv_set_freq) (simp add: set_freq_def same_config_def)
  have cfg: "same_config p p1"
    using same_config_trans [OF q(2) add_key_config] by (simp add: p1_def)
  then have eqs: "px_alpha p1 = px_alpha p" "px_delta p1 = px_delta p" "px_object_size p1 = px_object_size p"
    by (simp_all add: same_config_def)
  have rand: "random_values_valid valid (px_object_size q)"
    using Cons.prems(3) by (simp add: q_def set_freq_def)
  have k: "k \<notin> K" "k \<notin> set ks" using Cons.prems(4,5) by auto
  have uniq: "names_unique (insert k K)"
    by (rule names_unique_subset [OF Cons.prems(6)]) auto
  have qp: "q\<lparr>px_key_to_number_of_replicas := (px_key_to_number_of_replicas q)(k \<mapsto> r)\<rparr>
      = p\<lparr>px_key_to_frequency := (px_key_to_frequency p)(k \<mapsto> trunc_int \<pi>),
          px_key_to_number_of_replicas := (px_key_to_number_of_replicas p)(k \<mapsto> r)\<rparr>"
    by (simp add: q_def set_freq_def)
  have "0 \<le> r" using r by simp
  from add_one_key [OF Cons.prems(1) q(1) rand this uniq k(1), of g] obtain v st1 g1 where one:
      "insert_replicas E k r (p\<lparr>px_key_to_frequency := (px_key_to_frequency p)(k \<mapsto> trunc_int \<pi>),
          px_key_to_number_of_replicas := (px_key_to_number_of_replicas p)(k \<mapsto> r)\<rparr>) st g
        = Inr (p1, st1, g1)"
      "sound st1" "valid v" "build_inv E (insert k K) p1 (view st1) (V(k := v))"
    unfolding qp p1_def by blast
  have pre: "distinct ks" "set ks \<inter> insert k K = {}" "names_unique (insert k K \<union> set ks)"
      "0 < px_alpha p1" "\<forall>\<pi>\<in>set \<pi>s. 0 < \<pi>" "\<forall>k'\<in>insert k K. valid ((V(k := v)) k')"
      "random_values_valid valid (px_object_size p1)"
    using Cons.prems k one(3) eqs by auto
  obtain p' st' g' V' where rest: "create_keys E ks \<pi>s (fakes @ [fake_weight (px_alpha p) (px_delta p) \<pi>])
        (pairs @ [(k, r)]) (created + r) p1 st1 g1 =
      Inr ((fakes @ [fake_weight (px_alpha p) (px_delta p) \<pi>]) @ map (fake_weight (px_alpha p) (px_delta p)) \<pi>s,
           (pairs @ [(k, r)]) @ zip ks (map (replica_count (px_alpha p)) \<pi>s),
           created + r + sum_list (map (replica_count (px_alpha p)) \<pi>s), p', st', g')"
      "sound st'" "build_inv E (insert k K \<union> set ks) p' (view st') V'" "same_config p1 p'"
      "px_label_count p' = px_label_count p1 + sum_list (map (replica_count (px_alpha p)) \<pi>s)"
      "map (replicas p') ks = map (replica_count (px_alpha p)) \<pi>s"
      "\<forall>k'. k' \<notin> set ks \<longrightarrow> replicas p' k' = replicas p1 k'" "\<forall>k'\<in>insert k K \<union> set ks. valid (V' k')"
    using Cons.IH [OF one(2,4) pre(7,1,2,3,4,5,6), unfolded eqs] by blast
  have p1: "replicas p1 k = r" "px_label_count p1 = px_label_count p + r"
      "\<forall>k'. k' \<noteq> k \<longrightarrow> replicas p1 k' = replicas p k'"
    using r by (simp_all add: p1_def add_key_fields) (simp_all add: q_def set_freq_def replicas_def)
  have "create_keys E (k # ks) (\<pi> # \<pi>s) fakes pairs created p st g =
      Inr (fakes @ map (fake_weight (px_alpha p) (px_delta p)) (\<pi> # \<pi>s),
           pairs @ zip (k # ks) (map (replica_count (px_alpha p)) (\<pi> # \<pi>s)),
           created + sum_list (map (replica_count (px_alpha p)) (\<pi> # \<pi>s)), p', st', g')"
    using one(1) rest(1) by (simp add: Let_def r_def add.assoc)
  moreover have "map (replicas p') (k # ks) = map (replica_count (px_alpha p)) (\<pi> # \<pi>s)"
    using rest(6,7) k(2) p1(1) by (simp add: r_def)
  moreover have "px_label_count p' = px_label_count p + sum_list (map (replica_count (px_alpha p)) (\<pi> # \<pi>s))"
    using rest(5) p1(2) by (simp add: r_def)
  moreover have "insert k K \<union> set ks = K \<union> set (k # ks)" by auto
  ultimately show ?case
    using rest(2,3,7,8) same_config_trans [OF cfg rest(4)] p1(3) by auto
qed

end

section \<open>The state after \<open>create_replicas\<close>\<close>

lemma update_cache_init_spec:
  "distinct (map fst ps) \<Longrightarrow> \<forall>x\<in>set ps. 0 \<le> snd x \<Longrightarrow>
   \<exists>m'. update_cache_init ps m = Inr m' \<and>
     (\<forall>k. m' k = (case map_of ps k of Some n \<Rightarrow> Some ([], replicate (nat n) False) | None \<Rightarrow> m k))"
proof (induction ps m rule: update_cache_init.induct)
  case (1 m)
  then show ?case by simp
next
  case (2 k n ps m)
  have "mk_vector n False = Inr (replicate (nat n) False)" using 2(3) by (simp add: mk_vector_def)
  moreover have "distinct (map fst ps)" "\<forall>x\<in>set ps. 0 \<le> snd x" using 2(2,3) by simp_all
  ultimately obtain m' where m': "update_cache_init ps (m(k \<mapsto> ([], replicate (nat n) False))) = Inr m'"
      "\<forall>k'. m' k' = (case map_of ps k' of Some n \<Rightarrow> Some ([], replicate (nat n) False)
         | None \<Rightarrow> (m(k \<mapsto> ([], replicate (nat n) False))) k')"
    using 2(1) by blast
  have "map_of ps k = None" using 2(2) by (simp add: map_of_eq_None_iff)
  with 2(3) m' show ?case by (simp add: mk_vector_def split: option.splits)
qed

lemma quiet_cache:
  assumes "\<forall>k v bits. uc k = Some (v, bits) \<longrightarrow> True \<notin> set bits \<and> int (length bits) = R k"
  shows "cache_pending uc = cache_pending Map.empty" and "cache_sized R uc"
proof -
  have "\<not> bits ! nat i" if "uc k = Some (v, bits)" "0 \<le> i" "i < int (length bits)" for k v bits i
  proof -
    have "bits ! nat i \<in> set bits" using that(2,3) by (intro nth_mem) linarith
    with assms that(1) show ?thesis by metis
  qed
  then show "cache_pending uc = cache_pending Map.empty"
    by (fastforce simp: cache_pending_def fun_eq_iff split: option.splits)
  show "cache_sized R uc" using assms by (auto simp: cache_sized_def)
qed

definition setup_ok :: "proxy_state \<Rightarrow> bool" where
  "setup_ok p \<longleftrightarrow>
     (let ks = dist_items (px_real_distribution p); \<pi>s = dist_probs (px_real_distribution p)
      in ks \<noteq> [] \<and> length ks = length \<pi>s \<and> length ks < 2 ^ 30 \<and> distinct ks \<and>
         px_dummy_key p \<notin> set ks \<and> names_unique (insert (px_dummy_key p) (set ks)) \<and>
         (\<forall>\<pi>\<in>set \<pi>s. 0 < \<pi>) \<and> sum_list \<pi>s = 1 \<and> px_alpha p = 1 / real (length ks) \<and>
         0 < px_delta p \<and> px_delta p < 1 \<and>
         px_key_to_number_of_replicas p = Map.empty \<and> px_update_cache p = Map.empty \<and>
         px_label_count p = 0)"

lemma build_inv_empty:
  assumes "px_key_to_number_of_replicas p = Map.empty" and "px_update_cache p = Map.empty"
    and "px_label_count p = 0"
  shows "build_inv E {} p vw V"
proof -
  have "\<not> in_range p k i" for k i using assms(1) by (simp add: in_range_def replicas_def)
  with assms show ?thesis
    by (simp add: build_inv_def proxy_wf_def labels_total_def labels_inj_def holds_def
        used_labels_def cache_sized_def)
qed

context replica_store begin

lemma create_replicas_spec:
  assumes ok: "setup_ok p" and sound: "sound st"
    and rand: "random_values_valid valid (px_object_size p)"
    and ks: "dist_items (px_real_distribution p) = ks" and probs: "dist_probs (px_real_distribution p) = \<pi>s"
    and n: "n = int (length ks)" and tot: "tot = sum_list (map (replica_count (px_alpha p)) \<pi>s)"
  shows "\<exists>p' st' g' V. create_replicas E p st g = Inr (p', st', g') \<and> sound st' \<and>
    proxy_wf p' \<and> holds E p' (view st') V \<and> (\<forall>k. 0 < replicas p' k \<longrightarrow> valid (V k)) \<and>
    map (replicas p') ks = map (replica_count (px_alpha p)) \<pi>s \<and>
    replicas p' (px_dummy_key p) = 2 * n - tot \<and> px_dummy_keys p' = 2 * n - tot \<and>
    (\<forall>k. k \<notin> insert (px_dummy_key p) (set ks) \<longrightarrow> replicas p' k = 0) \<and>
    px_label_count p' = 2 * n \<and> used_labels p' = {0 ..< 2 * n} \<and>
    px_fake_distribution p' = distribution_new (ks @ [px_dummy_key p])
      (map (fake_weight (px_alpha p) (px_delta p)) \<pi>s @
        [dummy_weight (px_alpha p) (px_delta p) (2 * n - tot)]) \<and>
    same_config p p'"
proof -
  define d where "d = px_dummy_key p"
  define counts where "counts = map (replica_count (px_alpha p)) \<pi>s"
  define r where "r = 2 * n - tot"
  have s: "ks \<noteq> []" "length ks = length \<pi>s" "length ks < 2 ^ 30" "distinct ks" "d \<notin> set ks"
      "names_unique (insert d (set ks))" "\<forall>\<pi>\<in>set \<pi>s. 0 < \<pi>" "sum_list \<pi>s = 1"
      "px_alpha p = 1 / real (length \<pi>s)" "px_key_to_number_of_replicas p = Map.empty"
      "px_update_cache p = Map.empty" "px_label_count p = 0"
    using ok by (auto simp: setup_ok_def Let_def ks probs d_def)
  have pos: "0 < px_alpha p" "\<pi>s \<noteq> []" using s(1,2,9) by (cases \<pi>s; simp)+
  have bounds: "n \<le> tot" "tot < 2 * n"
    using created_bounds [OF s(7,8) pos(2) s(9)] s(2) by (simp_all add: n tot)
  then have r: "0 < r" "r \<le> n" by (simp_all add: r_def)
  have inv0: "build_inv E {} p (view st) (\<lambda>_. [])"
    using s(10,11,12) by (rule build_inv_empty)
  have uks: "names_unique ({} \<union> set ks)" by (rule names_unique_subset [OF s(6)]) auto
  have "set ks \<inter> {} = {}" "\<forall>k\<in>{}. valid ([] :: string)" by simp_all
  from create_keys_spec [OF s(2) sound inv0 rand s(4) this(1) uks pos(1) s(7) this(2),
      where fakes = "[]" and pairs = "[]" and created = 0 and g = g]
  obtain p1 st1 g1 V1 where c1: "create_keys E ks \<pi>s [] [] 0 p st g =
        Inr (map (fake_weight (px_alpha p) (px_delta p)) \<pi>s, zip ks counts, tot, p1, st1, g1)"
      "sound st1" "build_inv E (set ks) p1 (view st1) V1" "same_config p p1"
      "px_label_count p1 = tot" "map (replicas p1) ks = counts"
      "\<forall>k. k \<notin> set ks \<longrightarrow> replicas p1 k = replicas p k" "\<forall>k\<in>set ks. valid (V1 k)"
    unfolding append_Nil Un_empty_left s(12) counts_def tot add_0 by blast
  have none: "replicas p1 k = 0" if "k \<notin> set ks" for k
    using c1(7) that s(10) by (simp add: replicas_def)
  have dummy: "dummy_count (length ks) tot = r"
    unfolding r_def n using r bounds s(3) by (intro dummy_count_exact) (simp_all add: r_def n)
  define p2 where "p2 = p1\<lparr>px_dummy_keys := r\<rparr>"
  have cfg2: "same_config p p2" using c1(4) by (simp add: p2_def same_config_def)
  have eqs: "px_dummy_key p2 = d" "px_object_size p2 = px_object_size p"
    using cfg2 by (simp_all add: same_config_def d_def)
  have inv2: "build_inv E (set ks) p2 (view st1) V1"
  proof -
    have a: "proxy_wf p2 = proxy_wf p1" "used_labels p2 = used_labels p1"
      by (rule proxy_inv_cong; simp add: p2_def)
        (simp add: p2_def used_labels_def in_range_def replicas_def label_def)
    have b: "holds E p2 (view st1) V1 = holds E p1 (view st1) V1"
      by (rule proxy_inv_cong) (simp_all add: p2_def)
    show ?thesis using c1(3) unfolding build_inv_def a b by (simp add: p2_def)
  qed
  have "random_values_valid valid (px_object_size p2)" "0 \<le> r" using rand r eqs by simp_all
  from add_one_key [OF c1(2) inv2 this s(6,5), of g1] obtain v st3 g3 where c3:
      "insert_replicas E d r (p2\<lparr>px_key_to_number_of_replicas := (px_key_to_number_of_replicas p2)(d \<mapsto> r)\<rparr>)
         st1 g1 = Inr (add_key d r p2, st3, g3)"
      "sound st3" "valid v" "build_inv E (insert d (set ks)) (add_key d r p2) (view st3) (V1(d := v))"
    by blast
  define p3 where "p3 = add_key d r p2"
  have cfg3: "same_config p p3" using same_config_trans [OF cfg2 add_key_config] by (simp add: p3_def)
  have rep2: "replicas p2 = replicas p1" by (simp add: fun_eq_iff replicas_def p2_def)
  have rep3: "replicas p3 k = (if k = d then r else replicas p1 k)" for k
    by (simp add: p3_def add_key_fields rep2)
  have dk: "px_dummy_keys p3 = r" and lc: "px_label_count p3 = 2 * n"
    using assign_labels_frame [of d 0 "nat r"
        "p2\<lparr>px_key_to_number_of_replicas := (px_key_to_number_of_replicas p2)(d \<mapsto> r)\<rparr>"] r
    by (auto simp: p3_def add_key_def p2_def c1(5) r_def)
  define ps where "ps = zip ks counts @ [(d, r)]"
  have ps: "distinct (map fst ps)" "\<forall>x\<in>set ps. 0 \<le> snd x"
  proof -
    have "\<forall>c\<in>set counts. 0 \<le> c"
      using replica_count_bounds(1) [OF pos(1)] s(7) by (force simp: counts_def)
    then show "\<forall>x\<in>set ps. 0 \<le> snd x" using r by (auto simp: ps_def dest: set_zip_rightD)
    show "distinct (map fst ps)" using s(2,4,5) by (simp add: ps_def counts_def)
  qed
  obtain uc where uc: "update_cache_of ps = Inr uc"
      "\<And>k. uc k = (case map_of ps k of Some n \<Rightarrow> Some ([], replicate (nat n) False) | None \<Rightarrow> None)"
    using update_cache_init_spec [OF ps, of Map.empty] by (auto simp: update_cache_of_def)
  have at: "m = replicas p3 k" if "map_of ps k = Some m" for k m
  proof (cases "k = d")
    case True
    have "map_of (zip ks counts) d = None"
      using s(5) by (auto simp: map_of_eq_None_iff dest: set_zip_leftD)
    with that True show ?thesis by (simp add: ps_def rep3 map_add_def)
  next
    case False
    with that have "map_of (zip ks counts) k = Some m" by (simp add: ps_def map_add_def split: option.splits)
    then have "(k, m) \<in> set (zip ks (map (replicas p1) ks))" using c1(6) map_of_SomeD by metis
    then have "m = replicas p1 k" by (auto simp: zip_map2 zip_same_conv_map)
    with False show ?thesis by (simp add: rep3)
  qed
  define p4 where "p4 = p3\<lparr>px_update_cache := uc, px_fake_distribution :=
      distribution_new (ks @ [d]) (map (fake_weight (px_alpha p) (px_delta p)) \<pi>s @
        [dummy_weight (px_alpha p) (px_delta p) r])\<rparr>"
  have R0: "0 \<le> replicas p3 k" if "map_of ps k = Some m" for k m
    using at [OF that] ps(2) map_of_SomeD [OF that] by force
  have quiet: "\<forall>k v bits. uc k = Some (v, bits) \<longrightarrow> True \<notin> set bits \<and> int (length bits) = replicas p3 k"
    using at R0 by (auto simp: uc(2) split: option.splits)
  note inv3 = c3(4) [folded p3_def, unfolded build_inv_def]
  have rep4: "replicas p4 = replicas p3" "in_range p4 = in_range p3" "label p4 = label p3"
    by (simp_all add: fun_eq_iff replicas_def in_range_def label_def p4_def)
  have wf4: "proxy_wf p4"
    using inv3 quiet_cache(2) [OF quiet]
    by (simp add: proxy_wf_def labels_total_def labels_inj_def rep4) (simp add: p4_def)
  have h4: "holds E p4 (view st3) (V1(d := v))"
  proof -
    have "holds E p3 (view st3) (V1(d := v))" "px_update_cache p3 = Map.empty" using inv3 by blast+
    moreover have "cache_pending (px_update_cache p4) = cache_pending Map.empty"
      using quiet_cache(1) [OF quiet] by (simp add: p4_def)
    ultimately show ?thesis unfolding holds_def rep4 by simp
  qed
  have used: "used_labels p4 = {0 ..< 2 * n}"
    using inv3 lc by (simp add: used_labels_def rep4)
  have run: "create_replicas E p st g = Inr (p4, st3, g3)"
  proof -
    have "px_dummy_key p3 = d" using cfg3 by (simp add: same_config_def d_def)
    then show ?thesis
      using c1(1) c3(1) uc(1) r dummy eqs(1)
      by (simp add: create_replicas_def get_items_def get_probabilities_def ks probs Let_def p2_def
          p3_def p4_def ps_def)
  qed
  have vv: "valid ((V1(d := v)) k)" if "0 < replicas p4 k" for k
    using that c1(8) c3(3) none by (auto simp: rep4 rep3 split: if_splits)
  have reps: "map (replicas p4) ks = counts" "replicas p4 d = r"
      "\<forall>k. k \<notin> insert d (set ks) \<longrightarrow> replicas p4 k = 0"
  proof -
    have "replicas p4 k = replicas p1 k" if "k \<in> set ks" for k
      using that s(5) by (auto simp: rep4 rep3)
    then have "map (replicas p4) ks = map (replicas p1) ks" by (rule map_cong [OF refl])
    then show "map (replicas p4) ks = counts" using c1(6) by simp
    show "replicas p4 d = r" "\<forall>k. k \<notin> insert d (set ks) \<longrightarrow> replicas p4 k = 0"
      using none by (simp_all add: rep4 rep3)
  qed
  have fin: "px_dummy_keys p4 = r" "px_label_count p4 = 2 * n" "same_config p p4"
      "px_fake_distribution p4 = distribution_new (ks @ [d])
        (map (fake_weight (px_alpha p) (px_delta p)) \<pi>s @ [dummy_weight (px_alpha p) (px_delta p) r])"
    using dk lc cfg3 by (simp_all add: p4_def same_config_def)
  show ?thesis
    unfolding d_def [symmetric] r_def [symmetric] counts_def [symmetric]
    using run c3(2) wf4 h4 vv reps fin used by blast
qed

end

end
