(* ===== verification/Proxy_Init.thy ===== *)
theory Proxy_Init
  imports Api_Refinement Replicas
begin

text \<open>
  Starting and stopping the proxy (\<^verbatim>\<open>pancake_proxy.cpp\<close>): the choice of the storage client,
  \<open>init\<close> and \<open>close\<close>. \<open>init\<close> leaves one empty queue per core and the threads that theories
  \<open>Consumer\<close>, \<open>Swapping\<close> and \<open>Responder\<close> model.
\<close>

section \<open>The storage object\<close>

text \<open>
  \<open>storage_interface_\<close> is a pointer to a client of either kind, or null for another
  \<open>server_type_\<close>; calls through a null pointer are undefined.
\<close>

datatype ('r, 's) storage_object = Redis_object "'r list" | Rocksdb_object "'s list" | Null_object

record ('r, 's) storage_clients =
  sc_redis :: "'r redis_client"
  sc_ssdb :: "'s ssdb_client"
  sc_hash :: "string \<Rightarrow> nat"
  sc_order :: "nat list \<Rightarrow> nat list"

definition make_storage ::
    "('r, 's) storage_clients \<Rightarrow> string \<Rightarrow> string \<Rightarrow> int \<Rightarrow> ('r, 's) storage_object res" where
  "make_storage C server_type host_name port =
     (if server_type = ''redis'' then rbind (redis_new (sc_redis C) host_name port) (\<lambda>c. Inr (Redis_object c))
      else if server_type = ''rocksdb'' then
        rbind (rocksdb_new (sc_ssdb C) host_name port) (\<lambda>c. Inr (Rocksdb_object c))
      else Inr Null_object)"

fun object_add_server ::
    "('r, 's) storage_clients \<Rightarrow> string \<Rightarrow> int \<Rightarrow> ('r, 's) storage_object \<Rightarrow> ('r, 's) storage_object res" where
  "object_add_server C host_name port (Redis_object c) =
     rbind (redis_add_server (sc_redis C) c host_name port) (\<lambda>c'. Inr (Redis_object c'))"
| "object_add_server C host_name port (Rocksdb_object c) =
     rbind (rocksdb_add_server (sc_ssdb C) c host_name port) (\<lambda>c'. Inr (Rocksdb_object c'))"
| "object_add_server C host_name port Null_object = Inl Undefined"

text \<open>The loop over \<open>i\<close> from 1 to \<open>server_count_\<close>; the first argument is the turns left.\<close>

fun add_servers ::
    "nat \<Rightarrow> ('r, 's) storage_clients \<Rightarrow> string \<Rightarrow> int \<Rightarrow> int \<Rightarrow> ('r, 's) storage_object \<Rightarrow>
     ('r, 's) storage_object res" where
  "add_servers 0 C host_name port i st = Inr st"
| "add_servers (Suc n) C host_name port i st =
     rbind (object_add_server C host_name (port + i) st) (add_servers n C host_name port (i + 1))"

definition connect_storage ::
    "('r, 's) storage_clients \<Rightarrow> string \<Rightarrow> string \<Rightarrow> int \<Rightarrow> int \<Rightarrow> ('r, 's) storage_object res" where
  "connect_storage C server_type host_name port server_count =
     rbind (make_storage C server_type host_name port)
       (add_servers (nat (server_count - 1)) C host_name port 1)"

fun object_get :: "('r, 's) storage_clients \<Rightarrow> ('r, 's) storage_object \<Rightarrow> string \<Rightarrow> string res" where
  "object_get C (Redis_object c) k = redis_get (sc_redis C) (sc_hash C) c k"
| "object_get C (Rocksdb_object c) k = rocksdb_get (sc_ssdb C) (sc_hash C) c k"
| "object_get C Null_object k = Inl Undefined"

fun object_put ::
    "('r, 's) storage_clients \<Rightarrow> ('r, 's) storage_object \<Rightarrow> string \<Rightarrow> string \<Rightarrow> ('r, 's) storage_object res" where
  "object_put C (Redis_object c) k v =
     rbind (redis_put (sc_redis C) (sc_hash C) c k v) (\<lambda>c'. Inr (Redis_object c'))"
| "object_put C (Rocksdb_object c) k v =
     rbind (rocksdb_put (sc_ssdb C) (sc_hash C) c k v) (\<lambda>c'. Inr (Rocksdb_object c'))"
| "object_put C Null_object k v = Inl Undefined"

fun object_get_batch ::
    "('r, 's) storage_clients \<Rightarrow> ('r, 's) storage_object \<Rightarrow> string list \<Rightarrow> string list res" where
  "object_get_batch C (Redis_object c) ks = redis_get_batch (sc_redis C) (sc_hash C) (sc_order C) c ks"
| "object_get_batch C (Rocksdb_object c) ks = rocksdb_get_batch (sc_ssdb C) (sc_hash C) c ks"
| "object_get_batch C Null_object ks = Inl Undefined"

fun object_put_batch ::
    "('r, 's) storage_clients \<Rightarrow> ('r, 's) storage_object \<Rightarrow> string list \<Rightarrow> string list \<Rightarrow>
     ('r, 's) storage_object res" where
  "object_put_batch C (Redis_object c) ks vs =
     rbind (redis_put_batch (sc_redis C) (sc_hash C) (sc_order C) c ks vs) (\<lambda>c'. Inr (Redis_object c'))"
| "object_put_batch C (Rocksdb_object c) ks vs =
     rbind (rocksdb_put_batch (sc_ssdb C) (sc_hash C) c ks vs) (\<lambda>c'. Inr (Rocksdb_object c'))"
| "object_put_batch C Null_object ks vs = Inl Undefined"

definition object_interface :: "('r, 's) storage_clients \<Rightarrow> ('r, 's) storage_object storage_interface" where
  "object_interface C =
     \<lparr>si_get = object_get C, si_put = object_put C,
      si_get_batch = object_get_batch C, si_put_batch = object_put_batch C\<rparr>"

text \<open>Behind the pointer, each kind of client keeps the storage contract it has.\<close>

fun redis_part :: "('r, 's) storage_object \<Rightarrow> 'r list" where
  "redis_part (Redis_object c) = c"
| "redis_part _ = []"

fun rocksdb_part :: "('r, 's) storage_object \<Rightarrow> 's list" where
  "rocksdb_part (Rocksdb_object c) = c"
| "rocksdb_part _ = []"

lemma object_redis_storage:
  assumes "kv_storage (redis (sc_redis C) (sc_hash C) (sc_order C)) view sound"
  shows "kv_storage (object_interface C) (\<lambda>st. view (redis_part st))
    (\<lambda>st. \<exists>c. st = Redis_object c \<and> sound c)"
proof -
  note laws = kv_storage.get_law [OF assms] kv_storage.put_law [OF assms]
    kv_storage.get_batch_law [OF assms] kv_storage.put_batch_law [OF assms]
  note laws = laws [unfolded redis_def, simplified]
  show ?thesis
  proof (unfold_locales, goal_cases)
    case (1 st k v)
    with laws(1) show ?case by (auto simp: object_interface_def)
  next
    case (2 st k v)
    then obtain c where c: "st = Redis_object c" "sound c" by blast
    with laws(2) [OF c(2), of k v] show ?case by (auto simp: object_interface_def)
  next
    case (3 st ks)
    with laws(3) show ?case by (auto simp: object_interface_def)
  next
    case (4 st ks vs)
    then obtain c where c: "st = Redis_object c" "sound c" by blast
    with laws(4) [OF c(2) 4(2)] show ?case by (auto simp: object_interface_def)
  qed
qed

lemma object_rocksdb_storage:
  assumes "kv_storage (rocksdb (sc_ssdb C) (sc_hash C)) view sound"
  shows "kv_storage (object_interface C) (\<lambda>st. view (rocksdb_part st))
    (\<lambda>st. \<exists>c. st = Rocksdb_object c \<and> sound c)"
proof -
  note laws = kv_storage.get_law [OF assms] kv_storage.put_law [OF assms]
    kv_storage.get_batch_law [OF assms] kv_storage.put_batch_law [OF assms]
  note laws = laws [unfolded rocksdb_def, simplified]
  show ?thesis
  proof (unfold_locales, goal_cases)
    case (1 st k v)
    with laws(1) show ?case by (auto simp: object_interface_def)
  next
    case (2 st k v)
    then obtain c where c: "st = Rocksdb_object c" "sound c" by blast
    with laws(2) [OF c(2), of k v] show ?case by (auto simp: object_interface_def)
  next
    case (3 st ks)
    with laws(3) show ?case by (auto simp: object_interface_def)
  next
    case (4 st ks vs)
    then obtain c where c: "st = Rocksdb_object c" "sound c" by blast
    with laws(4) [OF c(2) 4(2)] show ?case by (auto simp: object_interface_def)
  qed
qed

section \<open>init and close\<close>

datatype proxy_thread = Consumer_thread nat | Distribution_thread | Responder_thread

record proxy_config =
  cf_server_type :: string
  cf_server_host_name :: string
  cf_server_port :: int
  cf_server_count :: int
  cf_is_static :: bool

text \<open>
  The environment \<open>E\<close> carries the encryption engine and the interface of the storage object.
  The argument \<open>values\<close> of the source is not read. \<open>num_cores\<close> is what \<open>sysconf\<close> returns.
\<close>

definition proxy_init ::
    "('r, 's) storage_object env \<Rightarrow> ('r, 's) storage_clients \<Rightarrow> proxy_config \<Rightarrow> distribution \<Rightarrow> real \<Rightarrow> real \<Rightarrow> int \<Rightarrow>
     (('r, 's) storage_object, 'z) api_scheme \<Rightarrow>
     ((('r, 's) storage_object, 'z) api_scheme \<times> proxy_thread list) res" where
  "proxy_init E C cf real_distribution alpha delta num_cores w =
     (let p = (ap_proxy w)\<lparr>px_real_distribution := real_distribution, px_alpha := alpha, px_delta := delta\<rparr>
      in rbind (connect_storage C (cf_server_type cf) (cf_server_host_name cf) (cf_server_port cf)
                  (cf_server_count cf)) (\<lambda>st.
         rbind (create_replicas E p st (ap_rng w)) (\<lambda>(p', st', g').
           Inr (w\<lparr>ap_proxy := p', ap_storage := st', ap_rng := g',
                  ap_operation_queues := ap_operation_queues w @ replicate (nat num_cores) queue_new\<rparr>,
                map Consumer_thread [0..<nat num_cores] @
                (if \<not> cf_is_static cf then [Distribution_thread] else []) @ [Responder_thread]))))"

text \<open>\<open>join\<close> waits until a thread has ended; it is \<open>None\<close> when the thread never does.\<close>

definition api_close ::
    "(proxy_thread \<Rightarrow> (('st, 'z) api_scheme, unit) io) \<Rightarrow> proxy_thread list \<Rightarrow> (('st, 'z) api_scheme, unit) io" where
  "api_close join threads = ithen (imodify (\<lambda>w. w\<lparr>ap_finished := True\<rparr>)) (iall (map join threads))"

text \<open>What one consumer thread starts from.\<close>

definition consumer_start :: "nat \<Rightarrow> rng \<Rightarrow> ('st, 'z) api_scheme \<Rightarrow> 'st consumer" where
  "consumer_start i g w =
     \<lparr>cs_point = Outer, cs_proxy = ap_proxy w, cs_queue = ap_operation_queues w ! i,
      cs_batch = batch_empty, cs_serviced = 0, cs_previous = 0, cs_total = 0,
      cs_storage = ap_storage w, cs_rng = g, cs_promises = ap_promises w, cs_finished = ap_finished w\<rparr>"

definition api_new :: "proxy_state \<Rightarrow> 'st \<Rightarrow> rng \<Rightarrow> 'st api" where
  "api_new p st g =
     \<lparr>ap_proxy = p, ap_storage = st, ap_operation_queues = [], ap_promises = Map.empty,
      ap_next_promise = 0, ap_respond_queue = queue_new, ap_sequence_queue = queue_new,
      ap_finished = False, ap_rng = g\<rparr>"

lemma api_new_wf: "api_wf (api_new p st g)"
  by (auto simp: api_wf_def api_new_def queued_def)

text \<open>The responder never leaves its loop, so \<open>close\<close> does not return.\<close>

lemma close_waits_for_responder:
  assumes "\<And>w. join Responder_thread w = None" and "Responder_thread \<in> set threads"
    and "\<And>t w. t \<in> set threads \<Longrightarrow> (case join t w of Some (Inl e, w') \<Rightarrow> False | _ \<Rightarrow> True)"
  shows "api_close join threads w = None"
proof -
  have "iall (map join threads) w = None" for w
    using assms(2,3)
  proof (induction threads arbitrary: w)
    case (Cons t ts)
    show ?case
    proof (cases "t = Responder_thread \<or> join t w = None")
      case True
      with assms(1) show ?thesis by (auto simp: ithen_def ibind_None)
    next
      case False
      then obtain r w1 where "join t w = Some (r, w1)" by auto
      moreover from this Cons.prems(2) [of t w] obtain u where "r = Inr u" by (cases r) auto
      ultimately show ?thesis using Cons False by (auto simp: ithen_Inr)
    qed
  qed simp
  then show ?thesis by (simp add: api_close_def ithen_def ibind_def imodify_apply)
qed

end
