(* ===== verification/Proxy_Demo.thy ===== *)
theory Proxy_Demo
  imports Batch_Refinement
begin

text \<open>
  A small concrete proxy over the in-memory server and the reference cipher: key \<open>a\<close> with
  one replica, key \<open>b\<close> with two. It satisfies every invariant of the development.
\<close>

definition demo_stored :: "string \<Rightarrow> string" where
  "demo_stored v = projr (encrypt ref_evp ref_engine v)"

lemma demo_stored:
  assumes "engine_valid v"
  shows "encrypt ref_evp ref_engine v = Inr (demo_stored v)"
    and "decrypt ref_evp ref_engine (demo_stored v) = Inr v"
  using ref_eng.eng.roundtrip_law [OF assms] by (auto simp: demo_stored_def)

definition demo_proxy :: proxy_state where
  "demo_proxy =
     \<lparr>px_update_cache = Map.empty, px_missing_new_replicas = Map.empty,
      px_key_to_frequency = [''a'' \<mapsto> 0, ''b'' \<mapsto> 0],
      px_new_key_to_frequency = Map.empty, px_label_count = 3, px_dummy_keys = 1,
      px_p_max = 1 / 2, px_alpha = 1 / 2, px_delta = 1 / 2, px_dummy_key = ''d'',
      px_key_to_number_of_replicas = [''a'' \<mapsto> 1, ''b'' \<mapsto> 2],
      px_replica_to_label = [''a0'' \<mapsto> 0, ''b0'' \<mapsto> 1, ''b1'' \<mapsto> 2],
      px_fake_distribution = distribution_new [''a'', ''b''] [1 / 2, 1 / 2],
      px_real_distribution = distribution_new [''a'', ''b''] [1 / 2, 1 / 2],
      px_security_batch_size = 3, px_storage_batch_size = 2, px_object_size = 4\<rparr>"

definition demo_store :: "(string \<rightharpoonup> string) list" where
  "demo_store =
     [[''0'' \<mapsto> demo_stored ''x'', ''1'' \<mapsto> demo_stored ''y'', ''2'' \<mapsto> demo_stored ''y'']]"

definition demo_values :: "string \<Rightarrow> string" where
  "demo_values k = (if k = ''a'' then ''x'' else ''y'')"

lemma demo_replicas:
  "replicas demo_proxy k = (if k = ''a'' then 1 else if k = ''b'' then 2 else 0)"
  by (simp add: replicas_def demo_proxy_def)

lemma demo_in_range:
  "in_range demo_proxy k i \<longleftrightarrow> k = ''a'' \<and> i = 0 \<or> k = ''b'' \<and> (i = 0 \<or> i = 1)"
  by (auto simp: in_range_def demo_replicas)

lemma demo_digits: "to_string 0 = ''0''" "to_string 1 = ''1''" "to_string 2 = ''2''"
  by code_simp+

lemma demo_label:
  "label demo_proxy ''a'' 0 = Some 0" "label demo_proxy ''b'' 0 = Some 1"
  "label demo_proxy ''b'' 1 = Some 2"
  by (simp_all add: label_def demo_proxy_def replica_name_def demo_digits)

lemma demo_valid: "engine_valid ''x''" "engine_valid ''y''" "engine_valid ''z''"
  by (simp_all add: engine_valid_def NUL_def buffer_size_def)

lemma demo_wf: "proxy_wf demo_proxy"
  by (auto simp: proxy_wf_def labels_total_def labels_inj_def demo_in_range demo_label
      cache_sized_def) (simp_all add: demo_proxy_def)

lemma demo_holds: "holds ref_env demo_proxy (demo_store ! 0) demo_values"
proof -
  have no_updates: "px_update_cache demo_proxy = Map.empty" by (simp add: demo_proxy_def)
  have store: "(demo_store ! 0) ''0'' = Some (demo_stored ''x'')"
      "(demo_store ! 0) ''1'' = Some (demo_stored ''y'')"
      "(demo_store ! 0) ''2'' = Some (demo_stored ''y'')"
    by (simp_all add: demo_store_def)
  show ?thesis
    unfolding holds_def demo_in_range no_updates
    using store
    by (auto simp: demo_label demo_digits demo_stored demo_valid demo_values_def cache_pending_def
        intro!: exI [of _ "0 :: int"] exI [of _ "1 :: int"] exI [of _ "2 :: int"])
qed

lemma demo_values_valid: "engine_valid (demo_values k)"
  by (simp add: demo_values_def demo_valid)

lemma demo_one_server: "length demo_store = 1"
  by (simp add: demo_store_def)

lemma demo_static: "px_missing_new_replicas demo_proxy = Map.empty"
  by (simp add: demo_proxy_def)

end
