(* ===== verification/Init_Properties.thy ===== *)
theory Init_Properties
  imports Replicas Consumer Proxy_Demo
begin

text \<open>
  What \<open>create_replicas\<close> establishes: the number of replicas and their labels, the
  uniform access probability the fake accesses aim at, and the invariants the consumer
  starts from.
\<close>

section \<open>A concrete setup\<close>

definition demo_setup :: proxy_state where
  "demo_setup =
     \<lparr>px_update_cache = Map.empty, px_missing_new_replicas = Map.empty,
      px_key_to_frequency = Map.empty, px_new_key_to_frequency = Map.empty, px_label_count = 0,
      px_dummy_keys = 0, px_p_max = 1 / 2, px_alpha = 1 / 2, px_delta = 1 / 2, px_dummy_key = ''d'',
      px_key_to_number_of_replicas = Map.empty, px_replica_to_label = Map.empty,
      px_fake_distribution = distribution_default,
      px_real_distribution = distribution_new [''a'', ''b''] [3 / 4, 1 / 4],
      px_security_batch_size = 3, px_storage_batch_size = 40, px_object_size = 4\<rparr>"

lemma demo_setup_ok: "setup_ok demo_setup"
proof -
  have "names_unique {''d'', ''a'', ''b''}"
    by (rule names_unique_same_length [where n = 1]) simp
  then show ?thesis by (simp add: setup_ok_def demo_setup_def distribution_new_def)
qed

lemma demo_random_values: "random_values_valid engine_valid 4"
proof -
  have "engine_valid v" if "length v = 4" "\<forall>c\<in>set v. is_digit c" for v
  proof -
    have "NUL \<notin> set v" using that(2) by (auto simp: NUL_def is_digit_def)
    with that(1) show ?thesis by (auto simp: engine_valid_def buffer_size_def)
  qed
  then show ?thesis by (simp add: random_values_valid_def)
qed

definition fresh_store :: "(string \<rightharpoonup> string) list" where
  "fresh_store = [Map.empty]"

lemma demo_counts: "replica_count (1 / 2) (3 / 4) = 2" "replica_count (1 / 2) (1 / 4) = 1"
  unfolding replica_count_def by (rule ceiling_unique; simp)+

lemma demo_setup_fields:
  "dist_items (px_real_distribution demo_setup) = [''a'', ''b'']"
  "dist_probs (px_real_distribution demo_setup) = [3 / 4, 1 / 4]"
  "px_alpha demo_setup = 1 / 2" "px_dummy_key demo_setup = ''d''" "px_delta demo_setup = 1 / 2"
  "px_object_size demo_setup = 4" "px_missing_new_replicas demo_setup = Map.empty"
  by (simp_all add: demo_setup_def distribution_new_def)

section \<open>Replicas and labels\<close>

text \<open>
  C5. \<open>create_replicas\<close> sets the proxy up. From empty tables and a distribution of \<open>n\<close>
  distinct keys with positive probabilities that sum to 1, with \<open>alpha = 1/n\<close>, it returns with
  \<open>ceil(pi/alpha)\<close> replicas of each key and the rest of \<open>2n\<close> for the dummy key; each replica
  has its own label, the labels are exactly \<open>0 .. 2n-1\<close>, and every label is stored with a
  ciphertext of its key's value, so the invariants of the consumer hold.
\<close>

theorem create_replicas_establishes:
  assumes "replica_store E view sound valid" and "setup_ok p" and "sound st"
    and "random_values_valid valid (px_object_size p)"
    and "dist_items (px_real_distribution p) = ks" and "dist_probs (px_real_distribution p) = \<pi>s"
    and "n = int (length ks)" and "created = sum_list (map (replica_count (px_alpha p)) \<pi>s)"
  shows "\<exists>p' st' g' V. create_replicas E p st g = Inr (p', st', g') \<and> sound st' \<and>
    proxy_wf p' \<and> holds E p' (view st') V \<and> (\<forall>k. 0 < replicas p' k \<longrightarrow> valid (V k)) \<and>
    map (replicas p') ks = map (replica_count (px_alpha p)) \<pi>s \<and>
    replicas p' (px_dummy_key p) = 2 * n - created \<and>
    px_label_count p' = 2 * n \<and> used_labels p' = {0 ..< 2 * n}"
  using replica_store.create_replicas_spec [OF assms] by blast

theorem create_replicas_establishes_witness:
  "\<exists>p' st' g' V. create_replicas ref_env demo_setup fresh_store (sconst 3) = Inr (p', st', g') \<and>
    length st' = 1 \<and> proxy_wf p' \<and> holds ref_env p' (st' ! 0) V \<and>
    (\<forall>k. 0 < replicas p' k \<longrightarrow> engine_valid (V k)) \<and>
    map (replicas p') [''a'', ''b''] = [2, 1] \<and> replicas p' ''d'' = 1 \<and>
    px_label_count p' = 4 \<and> used_labels p' = {0 ..< 4}"
  using create_replicas_establishes [OF ref_store.replica_store_axioms demo_setup_ok _ _
      demo_setup_fields(1,2) refl refl, of fresh_store "sconst 3"]
  by (simp add: fresh_store_def demo_setup_fields demo_random_values demo_counts)

text \<open>
  C14. The replica budget. For \<open>n\<close> positive probabilities that sum to 1 and \<open>alpha = 1/n\<close>
  the keys get between \<open>n\<close> and \<open>2n - 1\<close> replicas in total, so the dummy key gets between 1
  and \<open>n\<close> and the subtraction in \<open>size_t\<close> does not wrap: the program always has exactly \<open>2n\<close>.
\<close>

theorem replica_budget:
  assumes "\<forall>\<pi>\<in>set \<pi>s. 0 < \<pi>" and "sum_list \<pi>s = 1" and "\<pi>s \<noteq> []"
    and "\<alpha> = 1 / real (length \<pi>s)" and "length \<pi>s < 2 ^ 30"
    and "created = sum_list (map (replica_count \<alpha>) \<pi>s)"
  shows "int (length \<pi>s) \<le> created \<and> created < 2 * int (length \<pi>s) \<and>
    1 \<le> dummy_count (length \<pi>s) created \<and> dummy_count (length \<pi>s) created \<le> int (length \<pi>s) \<and>
    created + dummy_count (length \<pi>s) created = 2 * int (length \<pi>s)"
proof -
  note b = created_bounds [OF assms(1-4), folded assms(6)]
  have "dummy_count (length \<pi>s) created = 2 * int (length \<pi>s) - created"
    using b assms(5) by (intro dummy_count_exact) simp_all
  with b show ?thesis by simp
qed

theorem replica_budget_witness:
  "dummy_count 2 (sum_list (map (replica_count (1 / 2)) [3 / 4, 1 / 4])) = 1"
  using replica_budget [of "[3 / 4, 1 / 4]" "1 / 2" 3] by (simp add: demo_counts) (simp add: numeral_2_eq_2)



text \<open>
  The fake weights are a distribution. None is negative, the dummy key's is positive, and
  with the dummy replicas that bring the total to \<open>2n\<close> they sum to \<open>delta / (1 - delta)\<close>,
  which is 1 for \<open>delta = 1/2\<close>.
\<close>

theorem fake_weights_sum:
  assumes "\<forall>\<pi>\<in>set \<pi>s. 0 < \<pi>" and "sum_list \<pi>s = 1" and "\<pi>s \<noteq> []" and "\<alpha> = 1 / real (length \<pi>s)"
    and "0 < \<delta>" and "\<delta> < 1" and "d = 2 * int (length \<pi>s) - sum_list (map (replica_count \<alpha>) \<pi>s)"
  shows "(\<forall>\<pi>\<in>set \<pi>s. 0 \<le> fake_weight \<alpha> \<delta> \<pi>) \<and> 0 < dummy_weight \<alpha> \<delta> d \<and>
    sum_list (map (fake_weight \<alpha> \<delta>) \<pi>s @ [dummy_weight \<alpha> \<delta> d]) = \<delta> / (1 - \<delta>)"
proof -
  have n: "0 < real (length \<pi>s)" using assms(3) by simp
  then have a: "0 < \<alpha>" by (simp add: assms(4))
  have d: "0 < d" using created_bounds(2) [OF assms(1-4)] by (simp add: assms(7))
  have pos: "0 < 1 / \<delta> - 1" using assms(5,6) by simp
  have "sum_list (map (fake_weight \<alpha> \<delta>) \<pi>s @ [dummy_weight \<alpha> \<delta> d])
      = (\<alpha> * (2 * real (length \<pi>s)) - 1) / (1 / \<delta> - 1)"
    using sum_fake_weight [OF a assms(1), of \<delta>] assms(2)
    by (simp add: dummy_weight_def assms(7) algebra_simps flip: add_divide_distrib diff_divide_distrib)
  also have "\<dots> = \<delta> / (1 - \<delta>)"
    using n pos assms(5,6) by (simp add: assms(4) field_simps)
  finally show ?thesis
    using fake_weight_nonneg [OF a _ assms(5,6)] assms(1) a d pos by (simp add: dummy_weight_def)
qed

theorem fake_weights_sum_witness:
  "sum_list (map (fake_weight (1 / 2) (1 / 2)) [3 / 4, 1 / 4] @ [dummy_weight (1 / 2) (1 / 2) 1]) = 1"
  using fake_weights_sum [of "[3 / 4, 1 / 4]" "1 / 2" "1 / 2" 1] by (simp add: demo_counts)

section \<open>Sending the labels in chunks\<close>

text \<open>
  C15. \<open>insert_replicas\<close> numbers the replicas of a key consecutively from \<open>label_count_\<close>, and
  although it sends its labels to the storage in chunks of 50 and a remainder, the storage
  ends up as after one batch of all of them: every new label holds the same ciphertext of one
  random value, and no other label changes.
\<close>

theorem insert_replicas_stores_all:
  assumes "replica_store E view sound valid" and "sound st" and "0 \<le> r"
    and "random_values_valid valid (px_object_size p)"
  shows "\<exists>v c st' g'. insert_replicas E k r p st g = Inr (assign_labels k 0 (nat r) p, st', g') \<and>
    sound st' \<and> valid v \<and> env_decrypt E c = Inr v \<and>
    (\<forall>l. view st' (to_string l) =
       (if px_label_count p \<le> l \<and> l < px_label_count p + r then Some c else view st (to_string l)))"
proof -
  obtain v c st' g' where i: "insert_replicas E k r p st g = Inr (assign_labels k 0 (nat r) p, st', g')"
      "sound st'" "valid v" "env_decrypt E c = Inr v"
      "view st' = put_all (view st) (new_labels (px_label_count p) (nat r)) (replicate (nat r) c)"
    using replica_store.insert_replicas_spec [OF assms] by blast
  have at: "view st' (to_string l) =
      (if px_label_count p \<le> l \<and> l < px_label_count p + r then Some c else view st (to_string l))" for l
  proof (cases "px_label_count p \<le> l \<and> l < px_label_count p + r")
    case True
    then have "to_string l \<in> set (new_labels (px_label_count p) (nat r))" by (simp add: set_new_labels)
    with True show ?thesis
      using put_all_replicate [of _ "new_labels (px_label_count p) (nat r)" "view st" c] by (simp add: i(5))
  next
    case False
    then have "to_string l \<notin> set (new_labels (px_label_count p) (nat r))"
      using assms(3) by (auto simp: set_new_labels)
    then show ?thesis unfolding if_not_P [OF False] i(5) by (rule put_all_other)
  qed
  with i show ?thesis by blast
qed

theorem insert_replicas_stores_all_witness:
  "\<exists>v c st' g'. insert_replicas ref_env ''a'' 120 demo_setup fresh_store (sconst 3)
       = Inr (assign_labels ''a'' 0 120 demo_setup, st', g') \<and>
     length st' = 1 \<and> decrypt ref_evp ref_engine c = Inr v \<and>
     (st' ! 0) (to_string 119) = Some c \<and> (st' ! 0) (to_string 120) = None"
proof -
  have pre: "length fresh_store = 1" "(0 :: int) \<le> 120"
      "random_values_valid engine_valid (px_object_size demo_setup)"
    by (simp_all add: fresh_store_def demo_setup_fields demo_random_values)
  obtain v c st' g' where "insert_replicas ref_env ''a'' 120 demo_setup fresh_store (sconst 3)
       = Inr (assign_labels ''a'' 0 (nat 120) demo_setup, st', g')" "length st' = 1"
     "env_decrypt ref_env c = Inr v"
     "\<forall>l. (st' ! 0) (to_string l) = (if px_label_count demo_setup \<le> l \<and> l < px_label_count demo_setup + 120
        then Some c else (fresh_store ! 0) (to_string l))"
    using insert_replicas_stores_all [OF ref_store.replica_store_axioms pre, of "''a''" "sconst 3"] by blast
  then show ?thesis
    by (intro exI [of _ v] exI [of _ c] exI [of _ st'] exI [of _ g'])
      (simp add: demo_setup_def fresh_store_def)
qed

section \<open>From setup to answers\<close>

lemma setup_dists_ok:
  assumes ok: "setup_ok p" and cfg: "same_config p p'"
    and ks: "dist_items (px_real_distribution p) = ks" and probs: "dist_probs (px_real_distribution p) = \<pi>s"
    and reps: "map (replicas p') ks = map (replica_count (px_alpha p)) \<pi>s"
    and dummy: "replicas p' (px_dummy_key p) = 2 * int (length ks) - sum_list (map (replica_count (px_alpha p)) \<pi>s)"
    and fake: "px_fake_distribution p' = distribution_new (ks @ [px_dummy_key p])
      (map (fake_weight (px_alpha p) (px_delta p)) \<pi>s @
        [dummy_weight (px_alpha p) (px_delta p) (2 * int (length ks) - sum_list (map (replica_count (px_alpha p)) \<pi>s))])"
  shows "dists_ok p'"
proof -
  define d where "d = 2 * int (length ks) - sum_list (map (replica_count (px_alpha p)) \<pi>s)"
  have s: "ks \<noteq> []" "length ks = length \<pi>s" "\<forall>\<pi>\<in>set \<pi>s. 0 < \<pi>" "sum_list \<pi>s = 1"
      "px_alpha p = 1 / real (length \<pi>s)" "0 < px_delta p" "px_delta p < 1"
    using ok by (auto simp: setup_ok_def Let_def ks probs)
  have pos: "0 < px_alpha p" "\<pi>s \<noteq> []" using s(1,2,5) by (cases \<pi>s; simp)+
  have d: "0 < d" using created_bounds(2) [OF s(3,4) pos(2) s(5)] s(2) by (simp add: d_def)
  have rk: "0 < replicas p' (ks ! i)" if "i < length ks" for i
  proof -
    have "replicas p' (ks ! i) = replica_count (px_alpha p) (\<pi>s ! i)"
      using arg_cong [OF reps, of "\<lambda>xs. xs ! i"] that s(2) by simp
    moreover have "1 \<le> replica_count (px_alpha p) (\<pi>s ! i)"
      using replica_count_bounds(1) [OF pos(1)] s(2,3) that by simp
    ultimately show ?thesis by simp
  qed
  have "px_real_distribution p' = px_real_distribution p" using cfg by (simp add: same_config_def)
  then have real: "dist_ok p' (px_real_distribution p')"
    using s(1,2,3) rk pos(2) unfolding dist_ok_def by (simp add: ks probs) (metis length_greater_0_conv nth_mem)
  have "0 < dummy_weight (px_alpha p) (px_delta p) d"
    using pos(1) s(6,7) d by (simp add: dummy_weight_def)
  moreover have "0 < replicas p' ((ks @ [px_dummy_key p]) ! i)" if "i < Suc (length ks)" for i
    using that rk [of i] dummy d by (auto simp: nth_append d_def less_Suc_eq)
  ultimately have "dist_ok p' (px_fake_distribution p')"
    unfolding dist_ok_def fake d_def [symmetric]
    using s(2) by (auto simp: distribution_new_def nth_append intro!: exI [of _ "length \<pi>s"])
  with real show ?thesis by (simp add: dists_ok_def)
qed

text \<open>The consumers started on a proxy that \<open>create_replicas\<close> set up.\<close>

lemma initialised_runs:
  assumes "replica_store E view sound valid" and "setup_ok p" and "sound st"
    and "random_values_valid valid (px_object_size p)" and "px_missing_new_replicas p = Map.empty"
  shows "\<exists>p' st' g' V. create_replicas E p st g = Inr (p', st', g') \<and>
    (\<forall>s0 subs hist s. consumer_initial s0 \<longrightarrow> cs_proxy s0 = p' \<longrightarrow> cs_storage s0 = st' \<longrightarrow>
       consumer_run E (op_ok valid p') labels_distinct s0 subs hist s \<longrightarrow>
       (\<exists>n. map (cs_promises s) (map snd (take n subs))
             = map (\<lambda>a. Some (Some a)) (fst (spec_run V (map fst (take n subs)))) \<and>
           (\<forall>r\<in>set (drop n subs). cs_promises s (snd r) = Some None)))"
proof -
  obtain p' st' g' V where c: "create_replicas E p st g = Inr (p', st', g')" "sound st'"
    "proxy_wf p'" "holds E p' (view st') V" "\<forall>k. 0 < replicas p' k \<longrightarrow> valid (V k)"
    "same_config p p'" and d: "dists_ok p'"
    using replica_store.create_replicas_spec [OF assms(1,2,3,4) refl refl refl refl, of g]
      setup_dists_ok [OF assms(2) _ refl refl] by blast
  have m: "px_missing_new_replicas p' = Map.empty" using c(6) assms(5) by (simp add: same_config_def)
  have "\<exists>n. map (cs_promises s) (map snd (take n subs))
        = map (\<lambda>a. Some (Some a)) (fst (spec_run V (map fst (take n subs)))) \<and>
      (\<forall>r\<in>set (drop n subs). cs_promises s (snd r) = Some None)"
    if r: "consumer_initial s0" "cs_proxy s0 = p'" "cs_storage s0 = st'"
      "consumer_run E (op_ok valid p') labels_distinct s0 subs hist s" for s0 subs hist s
  proof -
    have "replica_store.value_inv E view sound valid p' V batch_empty s0"
      by (rule replica_store.value_inv_initial [OF assms(1) r(1,2)]) (use c m r(3) in simp_all)
    from replica_store.value_inv_run [OF assms(1) r(4,1) this c(5) d]
    show ?thesis using replica_store.run_values [OF assms(1) queue_inv_run [OF r(4,1)]] by blast
  qed
  with c(1) show ?thesis by blast
qed



end
