(* ===== verification/Server_Start.thy ===== *)
theory Server_Start
  imports Trace Proxy_Init Init_Properties
begin

text \<open>
  \<open>main\<close> of \<^verbatim>\<open>server/src/proxy_server.cpp\<close>: the command line, the construction of the proxy,
  the distribution of the trace, and \<open>init\<close>. Serving connections afterwards is the business
  of the Thrift server library, whose calls are theory \<open>Handler\<close>. Theory
  \<open>Server_Properties\<close> shows that a server started on a proper trace serves it like a plain map,
  and that the batches of the trace are the requests of its lines.
\<close>

section \<open>The command line\<close>

text \<open>
  The fields of the proxy that options set, with the local variables of \<open>main\<close>. An option
  comes from \<open>getopt\<close> as its character and argument; for an unknown one \<open>getopt\<close> gives \<open>?\<close>.
\<close>

record server_options =
  so_server_host_name :: string
  so_server_port :: int
  so_server_type :: string
  so_server_count :: int
  so_object_size :: int
  so_security_batch_size :: int
  so_storage_batch_size :: int
  so_p_threads :: int
  so_output_location :: string
  so_core :: int
  so_proxy_type :: string
  so_client_batch_size :: int
  so_trace_location :: string

definition options_default :: server_options where
  "options_default =
     \<lparr>so_server_host_name = ''127.0.0.1'', so_server_port = 50054, so_server_type = ''redis'',
      so_server_count = 1, so_object_size = 1024, so_security_batch_size = 3,
      so_storage_batch_size = 40, so_p_threads = 1, so_output_location = ''log'', so_core = 0,
      so_proxy_type = ''pancake'', so_client_batch_size = 50, so_trace_location = []\<rparr>"

text \<open>
  \<open>std::atoi\<close>: white space, a sign and the digits that follow; 0 when there are none. A value
  that does not fit is undefined.
\<close>

definition is_space :: "char \<Rightarrow> bool" where
  "is_space c \<longleftrightarrow> (of_char c :: nat) = 32 \<or> 9 \<le> (of_char c :: nat) \<and> (of_char c :: nat) \<le> 13"

definition to_int :: "int \<Rightarrow> int res" where
  "to_int n = (if - (2 ^ 31) \<le> n \<and> n < 2 ^ 31 then Inr n else Inl Undefined)"

definition unsigned_part :: "string \<Rightarrow> int" where
  "unsigned_part s = int (digits_value (takeWhile is_digit s))"

definition atoi :: "string \<Rightarrow> int res" where
  "atoi s =
     (case dropWhile is_space s of
        [] \<Rightarrow> Inr 0
      | c # cs \<Rightarrow>
          if c = CHR ''-'' then to_int (- unsigned_part cs)
          else if c = CHR ''+'' then to_int (unsigned_part cs)
          else to_int (unsigned_part (c # cs)))"

definition set_option :: "char \<Rightarrow> string \<Rightarrow> server_options \<Rightarrow> server_options res" where
  "set_option opt optarg so =
     (if opt = CHR ''h'' then Inr (so\<lparr>so_server_host_name := optarg\<rparr>)
      else if opt = CHR ''p'' then rbind (atoi optarg) (\<lambda>n. Inr (so\<lparr>so_server_port := n\<rparr>))
      else if opt = CHR ''s'' then Inr (so\<lparr>so_server_type := optarg\<rparr>)
      else if opt = CHR ''n'' then rbind (atoi optarg) (\<lambda>n. Inr (so\<lparr>so_server_count := n\<rparr>))
      else if opt = CHR ''v'' then rbind (atoi optarg) (\<lambda>n. Inr (so\<lparr>so_object_size := n\<rparr>))
      else if opt = CHR ''b'' then rbind (atoi optarg) (\<lambda>n. Inr (so\<lparr>so_security_batch_size := n\<rparr>))
      else if opt = CHR ''c'' then rbind (atoi optarg) (\<lambda>n. Inr (so\<lparr>so_storage_batch_size := n\<rparr>))
      else if opt = CHR ''t'' then rbind (atoi optarg) (\<lambda>n. Inr (so\<lparr>so_p_threads := n\<rparr>))
      else if opt = CHR ''o'' then Inr (so\<lparr>so_output_location := optarg\<rparr>)
      else if opt = CHR ''d'' then
        rbind (atoi optarg) (\<lambda>n. rbind (to_int (n - 1)) (\<lambda>m. Inr (so\<lparr>so_core := m\<rparr>)))
      else if opt = CHR ''z'' then Inr (so\<lparr>so_proxy_type := optarg\<rparr>)
      else if opt = CHR ''q'' then rbind (atoi optarg) (\<lambda>n. Inr (so\<lparr>so_client_batch_size := n\<rparr>))
      else if opt = CHR ''l'' then Inr (so\<lparr>so_trace_location := optarg\<rparr>)
      else Inl (Exited (- 1)))"

fun read_options :: "(char \<times> string) list \<Rightarrow> server_options \<Rightarrow> server_options res" where
  "read_options [] so = Inr so"
| "read_options ((opt, optarg) # os) so = rbind (set_option opt optarg so) (read_options os)"

section \<open>Starting\<close>

text \<open>
  The proxy as \<open>std::make_shared<pancake_proxy>()\<close> constructs it. \<open>p_max_\<close>, \<open>alpha_\<close> and \<open>delta_\<close>
  have no initialiser; the class has no constructor of its own, so value-initialisation sets
  them to zero before the other members are initialised.
\<close>

definition proxy_new :: "rng \<Rightarrow> (proxy_state \<times> rng) res" where
  "proxy_new g =
     rbind (rand_str 16 g) (\<lambda>(dummy_key, g').
       Inr (\<lparr>px_update_cache = Map.empty, px_missing_new_replicas = Map.empty,
             px_key_to_frequency = Map.empty, px_new_key_to_frequency = Map.empty, px_label_count = 0,
             px_dummy_keys = 0, px_p_max = 0, px_alpha = 0, px_delta = 0,
             px_dummy_key = dummy_key,
             px_key_to_number_of_replicas = Map.empty, px_replica_to_label = Map.empty,
             px_fake_distribution = distribution_default, px_real_distribution = distribution_default,
             px_security_batch_size = 3, px_storage_batch_size = 40, px_object_size = 1024\<rparr>, g'))"

definition options_proxy :: "server_options \<Rightarrow> proxy_state \<Rightarrow> proxy_state" where
  "options_proxy so p =
     p\<lparr>px_security_batch_size := so_security_batch_size so, px_storage_batch_size := so_storage_batch_size so,
       px_object_size := so_object_size so\<rparr>"

definition options_config :: "server_options \<Rightarrow> proxy_config" where
  "options_config so =
     \<lparr>cf_server_type = so_server_type so, cf_server_host_name = so_server_host_name so,
      cf_server_port = so_server_port so, cf_server_count = so_server_count so, cf_is_static = True\<rparr>"

text \<open>
  \<open>1.0 / items.size()\<close> is an infinity for an empty trace and 0 here; \<open>create_replicas\<close> then
  has no key to use it for.
\<close>

definition main_alpha :: "nat \<Rightarrow> real" where
  "main_alpha n = 1 / real n"

definition main_delta :: "nat \<Rightarrow> real" where
  "main_delta n = 1 / (2 * real n) * 1 / main_alpha n"

text \<open>\<open>files\<close> is the file system.\<close>

definition server_main ::
    "('r, 's) storage_object env \<Rightarrow> ('r, 's) storage_clients \<Rightarrow> ((string \<rightharpoonup> int) \<Rightarrow> (string \<times> int) list) \<Rightarrow>
     (string \<Rightarrow> string option) \<Rightarrow> (char \<times> string) list \<Rightarrow> int \<Rightarrow> rng \<Rightarrow>
     (('r, 's) storage_object api \<times> proxy_thread list \<times> trace_vector) res" where
  "server_main E C order files argv num_cores g =
     rbind (proxy_new g) (\<lambda>(p, g1).
     rbind (read_options argv options_default) (\<lambda>so.
     rbind (require (so_trace_location so \<noteq> []) Assertion_failed) (\<lambda>_.
     rbind (load_frequencies_from_trace order (files (so_trace_location so)) [] (so_client_batch_size so))
       (\<lambda>(dist, trace).
         let n = length (get_items dist)
         in rbind (proxy_init E C (options_config so) dist (main_alpha n) (main_delta n) num_cores
                     (api_new (options_proxy so p) Null_object g1))
              (\<lambda>(w, threads). Inr (w, threads, trace))))))"

section \<open>Facts\<close>

lemma main_delta_half: "0 < n \<Longrightarrow> main_delta n = 1 / 2"
  by (simp add: main_delta_def main_alpha_def)

lemma load_frequencies_returns:
  assumes "file_lines f = ls" and "trace_lines ls" and "ls \<noteq> []" and "0 < n" and "n < 2 ^ 31"
    and "lists_map order"
  obtains dist trace where "load_frequencies_from_trace order f [] n = Inr (dist, trace)"
    and "set (dist_items dist) = set (map line_key ls)" and "distinct (dist_items dist)"
    and "length (dist_probs dist) = length (dist_items dist)"
    and "\<forall>i<length (dist_items dist).
           dist_probs dist ! i = real (count_list (map line_key ls) (dist_items dist ! i)) / real (length ls)"
    and "\<forall>f\<in>set (dist_probs dist). 0 < f" and "sum_list (dist_probs dist) = 1"
    and "batch_gets trace = gets_of ls" and "batch_puts trace = puts_of ls"
    and "list_all (batch_shaped (nat n)) trace"
proof -
  obtain t where t: "load_lines n ls (loader_new []) = Inr t" "loaded n ls t"
    using load_lines_returns [OF assms(4,5,2)] by blast
  define pairs where "pairs = order (ld_key_to_frequency t)"
  define fs where "fs = map (\<lambda>(k, m). real_of_int m / real_of_int (ld_frequency_sum t)) pairs"
  note d = loaded_frequencies [OF t(2) assms(3,6), folded pairs_def, folded fs_def]
  note r = load_rest_loaded [OF t(2) assms(4)]
  have l: "length fs = length pairs" by (simp add: fs_def)
  show ?thesis
  proof (rule that [of "distribution_new (map fst pairs) fs" "ld_trace (load_rest t)"])
    show "load_frequencies_from_trace order f [] n
        = Inr (distribution_new (map fst pairs) fs, ld_trace (load_rest t))"
      using t(1) by (simp add: load_frequencies_from_trace_def assms(1) pairs_def fs_def Let_def)
  qed (use d r l in \<open>auto simp: distribution_new_def\<close>)
qed

text \<open>What \<open>main\<close> hands to \<open>init\<close> is a proper setup.\<close>

lemma main_setup_ok:
  fixes D :: distribution
  assumes "rand_str 16 g = Inr (dummy, g1)" and "proxy_new g = Inr (p, g1)"
    and "set (dist_items D) = K" and "distinct (dist_items D)" and "K \<noteq> {}"
    and "length (dist_probs D) = length (dist_items D)" and "length (dist_items D) < 2 ^ 30"
    and "\<forall>f\<in>set (dist_probs D). 0 < f" and "sum_list (dist_probs D) = 1"
    and "dummy \<notin> K" and "names_unique (insert dummy K)"
  shows "setup_ok ((options_proxy so p)\<lparr>px_real_distribution := D,
    px_alpha := main_alpha (length (dist_items D)), px_delta := main_delta (length (dist_items D))\<rparr>)"
proof -
  have "dist_items D \<noteq> []" using assms(3,5) by auto
  moreover from this have "main_delta (length (dist_items D)) = 1 / 2" by (simp add: main_delta_half)
  ultimately show ?thesis
    using assms by (auto simp: setup_ok_def Let_def proxy_new_def options_proxy_def main_alpha_def)
qed

end
