(* ===== verification/Server_Properties.thy ===== *)
theory Server_Properties
  imports Server_Start "HOL-Library.Char_ord" "HOL-Library.List_Lexorder"
begin

text \<open>
  What the server does with its trace, and what its clients get after \<open>main\<close> has started it.
\<close>

section \<open>The trace\<close>

text \<open>
  C38. Loading a trace. For a file whose keys are not the words \<open>GET\<close> and \<open>PUT\<close>, the loader
  returns: the items of the distribution are the keys of the lines, each once, with their
  relative frequencies, which are positive and sum to 1; and the batches, none longer than
  the batch size or empty, ask for the reads of the file in order and the writes of the file
  in order, each once.
\<close>

theorem trace_loads:
  assumes "file_lines f = ls" and "trace_lines ls" and "ls \<noteq> []" and "0 < n" and "n < 2 ^ 31"
    and "lists_map order"
  shows "\<exists>D trace. load_frequencies_from_trace order f [] n = Inr (D, trace) \<and>
    set (dist_items D) = set (map line_key ls) \<and> distinct (dist_items D) \<and>
    (\<forall>i<length (dist_items D). dist_probs D ! i
        = real (count_list (map line_key ls) (dist_items D ! i)) / real (length ls)) \<and>
    (\<forall>x\<in>set (dist_probs D). 0 < x) \<and> sum_list (dist_probs D) = 1 \<and>
    batch_gets trace = gets_of ls \<and> batch_puts trace = puts_of ls \<and> list_all (batch_shaped (nat n)) trace"
  by (rule load_frequencies_returns [OF assms]) blast

definition demo_trace :: string where
  "demo_trace = ''GET ab'' @ [newline] @ ''PUT cd 17'' @ [newline] @ ''GET ab'' @ [newline] @ ''GET cd''"

lemma demo_trace_lines: "file_lines (Some demo_trace) = [''GET ab'', ''PUT cd 17'', ''GET ab'', ''GET cd'']"
  by code_simp

lemma demo_trace_parse:
  "parse_line ''GET ab'' = (''GET'', ''ab'', [])" "parse_line ''PUT cd 17'' = (''PUT'', ''cd'', ''17'')"
  "parse_line ''GET cd'' = (''GET'', ''cd'', [])"
  by code_simp+

definition demo_order :: "(string \<rightharpoonup> int) \<Rightarrow> (string \<times> int) list" where
  "demo_order m = map (\<lambda>k. (k, the (m k))) (sorted_list_of_set (dom m))"

lemma demo_order: "lists_map demo_order"
proof -
  have "map_of (demo_order m) = m \<and> distinct (map fst (demo_order m))" if "finite (dom m)" for m
    using that by (simp add: demo_order_def map_of_map_keys comp_def)
  then show ?thesis by (simp add: lists_map_def)
qed

lemma demo_trace_ok: "trace_lines [''GET ab'', ''PUT cd 17'', ''GET ab'', ''GET cd'']"
  by (simp add: trace_lines_def demo_trace_parse)

theorem trace_loads_witness:
  "\<exists>D trace. load_frequencies_from_trace demo_order (Some demo_trace) [] 2 = Inr (D, trace) \<and>
    set (dist_items D) = {''ab'', ''cd''} \<and> sum_list (dist_probs D) = 1 \<and>
    batch_gets trace = [''ab'', ''ab'', ''cd''] \<and> batch_puts trace = [(''cd'', ''17'')] \<and>
    list_all (batch_shaped 2) trace"
proof -
  have "gets_of [''GET ab'', ''PUT cd 17'', ''GET ab'', ''GET cd''] = [''ab'', ''ab'', ''cd'']"
      "puts_of [''GET ab'', ''PUT cd 17'', ''GET ab'', ''GET cd''] = [(''cd'', ''17'')]"
    by (simp_all add: gets_of_def puts_of_def demo_trace_parse)
  then show ?thesis
    using trace_loads [OF demo_trace_lines demo_trace_ok _ _ _ demo_order, of 2]
    by (auto simp: demo_trace_parse)
qed

section \<open>Serving\<close>

text \<open>
  \<open>main\<close> on a proper trace: what it leaves for the consumers, and what they make of it.
\<close>

lemma server_started:
  assumes "replica_store E view sound valid" and "lists_map order"
    and "read_options argv options_default = Inr so" and "so_trace_location so \<noteq> []"
    and "file_lines (files (so_trace_location so)) = ls" and "trace_lines ls" and "ls \<noteq> []"
    and "length ls < 2 ^ 30" and "0 < so_client_batch_size so" and "so_client_batch_size so < 2 ^ 31"
    and "connect_storage C (so_server_type so) (so_server_host_name so) (so_server_port so)
           (so_server_count so) = Inr st" and "sound st"
    and "rand_str 16 g = Inr (dummy, g1)" and "dummy \<notin> set (map line_key ls)"
    and "names_unique (insert dummy (set (map line_key ls)))"
    and "random_values_valid valid (so_object_size so)"
  shows "\<exists>w trace V. server_main E C order files argv num_cores g
      = Inr (w, map Consumer_thread [0..<nat num_cores] @ [Responder_thread], trace) \<and>
    (\<forall>i r. i < nat num_cores \<longrightarrow> consumer_initial (consumer_start i r w)) \<and>
    (\<forall>s0 subs hist s. consumer_initial s0 \<longrightarrow> cs_proxy s0 = ap_proxy w \<longrightarrow> cs_storage s0 = ap_storage w \<longrightarrow>
       consumer_run E (op_ok valid (ap_proxy w)) labels_distinct s0 subs hist s \<longrightarrow>
       (\<exists>n. map (cs_promises s) (map snd (take n subs))
             = map (\<lambda>a. Some (Some a)) (fst (spec_run V (map fst (take n subs)))) \<and>
           (\<forall>r\<in>set (drop n subs). cs_promises s (snd r) = Some None)))"
proof -
  obtain p where p: "proxy_new g = Inr (p, g1)" by (simp add: proxy_new_def assms(13))
  obtain D trace where D: "load_frequencies_from_trace order (files (so_trace_location so)) []
        (so_client_batch_size so) = Inr (D, trace)"
      "set (dist_items D) = set (map line_key ls)" "distinct (dist_items D)"
      "length (dist_probs D) = length (dist_items D)"
      "\<forall>f\<in>set (dist_probs D). 0 < f" "sum_list (dist_probs D) = 1"
    by (rule load_frequencies_returns [OF assms(5,6,7,9,10,2)]) blast
  let ?n = "length (dist_items D)"
  have "?n = card (set (map line_key ls))" using D(2,3) distinct_card by metis
  also have "\<dots> \<le> length ls" using card_length [of "map line_key ls"] by simp
  finally have n: "?n < 2 ^ 30" using assms(8) by simp
  let ?q = "options_proxy so p"
  let ?p = "?q\<lparr>px_real_distribution := D, px_alpha := main_alpha ?n, px_delta := main_delta ?n\<rparr>"
  have ok: "setup_ok ?p"
    by (rule main_setup_ok [OF assms(13) p D(2,3) _ D(4) n D(5,6) assms(14,15)]) (use assms(7) in simp)
  have "px_object_size ?p = so_object_size so" "px_missing_new_replicas ?p = Map.empty"
    using p by (auto simp: options_proxy_def proxy_new_def assms(13))
  from initialised_runs [OF assms(1) ok assms(12) _ this(2), unfolded this(1), OF assms(16), of g1]
  obtain p' st' g' V where c: "create_replicas E ?p st g1 = Inr (p', st', g')"
      "\<forall>s0 subs hist s. consumer_initial s0 \<longrightarrow> cs_proxy s0 = p' \<longrightarrow> cs_storage s0 = st' \<longrightarrow>
       consumer_run E (op_ok valid p') labels_distinct s0 subs hist s \<longrightarrow>
       (\<exists>n. map (cs_promises s) (map snd (take n subs))
             = map (\<lambda>a. Some (Some a)) (fst (spec_run V (map fst (take n subs)))) \<and>
           (\<forall>r\<in>set (drop n subs). cs_promises s (snd r) = Some None))"
    by blast
  define w where "w = (api_new ?q Null_object g1)\<lparr>ap_proxy := p', ap_storage := st', ap_rng := g',
      ap_operation_queues := replicate (nat num_cores) queue_new\<rparr>"
  have "server_main E C order files argv num_cores g
      = Inr (w, map Consumer_thread [0..<nat num_cores] @ [Responder_thread], trace)"
    using c(1) by (simp add: server_main_def p assms(3,4,11) D(1) proxy_init_def options_config_def
        api_new_def get_items_def Let_def w_def)
  moreover have "consumer_initial (consumer_start i r w)" if "i < nat num_cores" for i r
    using that by (simp add: consumer_initial_def consumer_start_def api_new_def w_def)
  moreover have "ap_proxy w = p'" "ap_storage w = st'" by (simp_all add: w_def)
  ultimately show ?thesis using c(2) by blast
qed


text \<open>A server over the in-memory Redis client, started on the trace above.\<close>

definition demo_clients :: "(string \<rightharpoonup> string, string \<rightharpoonup> string) storage_clients" where
  "demo_clients =
     \<lparr>sc_redis = mem_redis, sc_ssdb = mem_ssdb, sc_hash = (\<lambda>_. 0), sc_order = (\<lambda>ids. ids)\<rparr>"

definition demo_object_env :: "(string \<rightharpoonup> string, string \<rightharpoonup> string) storage_object env" where
  "demo_object_env =
     \<lparr>env_encrypt = encrypt ref_evp ref_engine, env_decrypt = decrypt ref_evp ref_engine,
      env_storage = object_interface demo_clients\<rparr>"

lemma demo_object_store:
  "replica_store demo_object_env (\<lambda>st. redis_part st ! 0) (\<lambda>st. \<exists>c. st = Redis_object c \<and> length c = 1) engine_valid"
proof -
  have "kv_storage (redis (sc_redis demo_clients) (sc_hash demo_clients) (sc_order demo_clients))
      (\<lambda>cs. cs ! 0) (\<lambda>cs. length cs = 1)"
    using mem_redis.redis1.kv_storage_axioms by (simp add: demo_clients_def)
  from object_redis_storage [OF this] show ?thesis
    using ref_eng.eng.cipher_axioms by (simp add: replica_store_def demo_object_env_def)
qed

definition demo_argv :: "(char \<times> string) list" where
  "demo_argv = [(CHR ''l'', ''t''), (CHR ''q'', ''2''), (CHR ''v'', ''4'')]"

definition demo_options :: server_options where
  "demo_options = options_default\<lparr>so_trace_location := ''t'', so_client_batch_size := 2, so_object_size := 4\<rparr>"

lemma demo_read_options: "read_options demo_argv options_default = Inr demo_options"
proof -
  have "atoi ''2'' = Inr 2" "atoi ''4'' = Inr 4" by code_simp+
  then show ?thesis by (simp add: demo_argv_def demo_options_def set_option_def)
qed

lemma rand_chars_constant: "rand_chars n (sconst 3) = (replicate n CHR ''3'', sconst 3)"
  by (induction n) (simp_all add: rand_uint32_def alphanum_def)

lemma demo_dummy: "rand_str 16 (sconst 3) = Inr (''3333333333333333'', sconst 3)"
proof -
  have "replicate 16 CHR ''3'' = ''3333333333333333''" by code_simp
  then show ?thesis by (simp add: rand_str_def rand_chars_constant)
qed

lemma demo_names: "names_unique {''3333333333333333'', ''ab'', ''cd''}"
  by (auto simp: names_unique_def) (simp_all add: replica_name_def)

lemma demo_connects:
  "connect_storage demo_clients (so_server_type demo_options) (so_server_host_name demo_options)
      (so_server_port demo_options) (so_server_count demo_options) = Inr (Redis_object [Map.empty])"
  by (simp add: connect_storage_def make_storage_def demo_options_def options_default_def redis_new_def
      demo_clients_def mem_redis_def)

lemma demo_server_started:
  "\<exists>w threads trace. server_main demo_object_env demo_clients demo_order [''t'' \<mapsto> demo_trace] demo_argv 2 (sconst 3)
     = Inr (w, threads, trace)"
proof -
  have "\<exists>w trace V. server_main demo_object_env demo_clients demo_order [''t'' \<mapsto> demo_trace] demo_argv 2 (sconst 3)
      = Inr (w, map Consumer_thread [0..<nat 2] @ [Responder_thread], trace) \<and>
    (\<forall>i r. i < nat 2 \<longrightarrow> consumer_initial (consumer_start i r w)) \<and>
    (\<forall>s0 subs hist s. consumer_initial s0 \<longrightarrow> cs_proxy s0 = ap_proxy w \<longrightarrow> cs_storage s0 = ap_storage w \<longrightarrow>
       consumer_run demo_object_env (op_ok engine_valid (ap_proxy w)) labels_distinct s0 subs hist s \<longrightarrow>
       (\<exists>n. map (cs_promises s) (map snd (take n subs))
             = map (\<lambda>a. Some (Some a)) (fst (spec_run V (map fst (take n subs)))) \<and>
           (\<forall>r\<in>set (drop n subs). cs_promises s (snd r) = Some None)))"
    by (rule server_started [OF demo_object_store demo_order demo_read_options _ _ demo_trace_ok _ _ _ _
          demo_connects _ demo_dummy])
      (use demo_names demo_random_values in
        \<open>simp_all add: demo_options_def demo_trace_lines demo_trace_parse insert_commute\<close>)
  then show ?thesis by blast
qed


end
