(* ===== verification/Consumer_Properties.thy ===== *)
theory Consumer_Properties
  imports Consumer Proxy_Demo
begin

text \<open>
  What every run of the consumer thread guarantees, with any interleaving of arriving
  requests and shutdown.
\<close>

section \<open>Concrete runs\<close>

definition demo_consumer :: "(string \<rightharpoonup> string) list consumer" where
  "demo_consumer =
     \<lparr>cs_point = Outer, cs_proxy = demo_proxy, cs_queue = queue_new, cs_batch = batch_empty,
      cs_serviced = 0, cs_previous = 0, cs_total = 0, cs_storage = demo_store,
      cs_rng = sconst 5, cs_promises = Map.empty, cs_finished = False\<rparr>"

lemma demo_consumer_initial: "consumer_initial demo_consumer"
  by (simp add: consumer_initial_def demo_consumer_def)

definition demo_request :: operation where
  "demo_request = \<lparr>op_key = ''a'', op_value = ''z''\<rparr>"

lemma demo_request_ok: "op_ok engine_valid demo_proxy demo_request"
  by (simp add: op_ok_def demo_request_def demo_replicas demo_valid)

definition demo_requests :: "(operation \<times> nat) list" where
  "demo_requests = [(demo_request, 7)]"

definition demo_waiting :: "(string \<rightharpoonup> string) list consumer" where
  "demo_waiting = (submit demo_request 7 demo_consumer)\<lparr>cs_point := Inner\<rparr>"

lemma demo_run:
  "consumer_run ref_env (op_ok engine_valid demo_proxy) labels_distinct demo_consumer
     demo_requests batch_empty demo_waiting"
proof -
  have sub: "consumer_run ref_env (op_ok engine_valid demo_proxy) labels_distinct demo_consumer
      ([] @ [(demo_request, 7)]) batch_empty (submit demo_request 7 demo_consumer)"
    by (rule run_submit) (simp_all add: run_start demo_request_ok demo_consumer_def)
  let ?s = "submit demo_request 7 demo_consumer"
  have ex: "\<not> executes ?s" by (simp add: executes_def submit_def demo_consumer_def)
  have step: "consumer_step ref_env ?s = Inr (?s\<lparr>cs_point := Inner\<rparr>)"
    by (simp add: consumer_step_def submit_def demo_consumer_def)
  show ?thesis
    using run_step [OF sub _ step] ex
    by (simp add: labels_distinct_def demo_waiting_def demo_requests_def)
qed

lemma demo_waiting_simps:
  "batch_open demo_waiting" "cs_point demo_waiting = Inner"
  "m_queue (cs_queue demo_waiting) = demo_requests"
  by (simp_all add: batch_open_def demo_waiting_def demo_requests_def submit_def demo_consumer_def
      batch_empty_def queue_new_def) (simp add: demo_proxy_def)

lemma demo_dists_ok: "dists_ok demo_proxy"
proof -
  have "dist_ok demo_proxy (distribution_new [''a'', ''b''] [1 / 2, 1 / 2])"
    by (auto simp: dist_ok_def distribution_new_def demo_replicas less_Suc_eq)
  then show ?thesis by (simp add: dists_ok_def) (simp add: demo_proxy_def)
qed

section \<open>Order\<close>

text \<open>
  C6. No request is lost, answered twice or overtaken. In every run the requests queued are,
  in the order they were queued, those of the executed batches, then those of the batch
  being filled, then those still in the queue; exactly the promises of the first group have
  a value, and every other one is pending.
\<close>

theorem requests_in_order:
  assumes "consumer_run E A P s0 subs hist s" and "consumer_initial s0"
  shows "subs = real_pairs hist @ real_pairs (cs_batch s) @ m_queue (cs_queue s) \<and>
    distinct (map snd subs) \<and> dom (cs_promises s) = set (map snd subs) \<and>
    (\<forall>r\<in>set subs. (\<exists>v. cs_promises s (snd r) = Some (Some v)) \<longleftrightarrow> r \<in> set (real_pairs hist))"
proof -
  note d = queue_invD [OF queue_inv_run [OF assms]]
  have "(\<exists>v. cs_promises s (snd r) = Some (Some v)) \<longleftrightarrow> r \<in> set (real_pairs hist)"
    if r: "r \<in> set subs" for r
  proof
    assume "\<exists>v. cs_promises s (snd r) = Some (Some v)"
    moreover have "snd r \<in> set (map snd subs)" using r by simp
    ultimately have "snd r \<in> set (b_promises hist)"
      using d(10) by (metis DiffI option.distinct(1) option.inject)
    then have "snd r \<in> set (map snd (real_pairs hist))"
      by (simp only: map_snd_real_pairs [OF d(1)])
    moreover have "real_pairs hist = take (length (real_pairs hist)) subs" by (simp add: d(5))
    then have "set (real_pairs hist) \<subseteq> set subs" by (metis set_take_subset)
    ultimately show "r \<in> set (real_pairs hist)"
      using d(7) r by (auto simp: distinct_map inj_on_def)
  next
    assume "r \<in> set (real_pairs hist)"
    then have "snd r \<in> set (b_promises hist)"
      by (metis image_eqI map_snd_real_pairs [OF d(1)] set_map)
    with d(9) show "\<exists>v. cs_promises s (snd r) = Some (Some v)" by blast
  qed
  with d(5,7,8) show ?thesis by blast
qed

theorem requests_in_order_witness:
  "distinct (map snd demo_requests) \<and> m_queue (cs_queue demo_waiting) = demo_requests \<and>
   dom (cs_promises demo_waiting) = {7}"
  using requests_in_order [OF demo_run demo_consumer_initial] demo_waiting_simps(3)
  by (simp add: demo_requests_def)

section \<open>Answers\<close>



text \<open>
  The consumer never gets stuck on a reachable state: under the same conditions its next
  step returns, with no exception, failed assertion or undefined behaviour.
\<close>

theorem consumer_progress:
  assumes "replica_store E view sound valid"
    and "consumer_run E (op_ok valid p0) labels_distinct s0 subs hist s"
    and "consumer_initial s0" and "cs_proxy s0 = p0" and "sound (cs_storage s0)"
    and "proxy_wf p0" and "px_missing_new_replicas p0 = Map.empty" and "dists_ok p0"
    and "holds E p0 (view (cs_storage s0)) V0" and "\<forall>k. 0 < replicas p0 k \<longrightarrow> valid (V0 k)"
    and "labels_distinct s"
  shows "\<exists>s'. consumer_step E s = Inr s'"
proof -
  have init: "replica_store.value_inv E view sound valid p0 V0 batch_empty s0"
    by (rule replica_store.value_inv_initial [OF assms(1,3-7,9)])
  have "replica_store.value_inv E view sound valid p0 V0 hist s"
    by (rule replica_store.value_inv_run [OF assms(1,2,3) init assms(10,8)])
  from replica_store.value_inv_step [OF assms(1) this queue_inv_run [OF assms(2,3)] assms(10,8,11)]
  show ?thesis by blast
qed

theorem consumer_progress_witness:
  "\<exists>s'. consumer_step ref_env demo_waiting = Inr s'"
proof (rule consumer_progress [OF ref_store.replica_store_axioms demo_run demo_consumer_initial,
      where ?V0.0 = demo_values])
  show "labels_distinct demo_waiting"
    by (simp add: labels_distinct_def executes_def demo_waiting_simps)
qed (simp_all add: demo_consumer_def demo_one_server demo_wf demo_static demo_dists_ok
      demo_values_valid demo_holds)

section \<open>Rounds\<close>

text \<open>
  At the inner loop the consumer makes as many security batches as its queue has
  requests: entering the \<open>for\<close> loop from a reachable state, the bound
  \<open>total_operations - previous_total_operations\<close> is the queue's size counter, whatever the
  32-bit counters have wrapped to.
\<close>

theorem rounds_match_queue:
  assumes "consumer_run E A P s0 subs hist s" and "consumer_initial s0"
    and "cs_point s = Inner" and "batch_open s"
  shows "\<exists>s'. consumer_step E s = Inr s' \<and> cs_point s' = Rounds 0 \<and>
    cs_total s' - cs_previous s' = of_nat (length (m_queue (cs_queue s)))"
  using counters_inv_run [OF assms(1,2)] queue_invD(3) [OF queue_inv_run [OF assms(1,2)]] assms(3,4)
  by (simp add: consumer_step_def counters_inv_def queue_ok_def)

theorem rounds_match_queue_witness:
  "\<exists>s'. consumer_step ref_env demo_waiting = Inr s' \<and>
     cs_point s' = Rounds 0 \<and> cs_total s' - cs_previous s' = 1"
  using rounds_match_queue [OF demo_run demo_consumer_initial demo_waiting_simps(2,1)]
  by (simp add: demo_waiting_simps(3) demo_requests_def)

end
