(* ===== verification/Consumer_Liveness.thy ===== *)
theory Consumer_Liveness
  imports Consumer_Properties
begin

text \<open>
  When the consumer thread executes a batch. Left alone it makes one security batch per queued
  request and turns to the storage only when the batch is full: with enough requests it gets
  there within a known number of steps, with fewer it waits, and so do they.
\<close>

section \<open>Steps of the consumer alone\<close>

fun consumer_steps :: "nat \<Rightarrow> 'st env \<Rightarrow> 'st consumer \<Rightarrow> 'st consumer res" where
  "consumer_steps 0 E s = Inr s"
| "consumer_steps (Suc n) E s = rbind (consumer_step E s) (consumer_steps n E)"

lemma consumer_steps_add:
  "consumer_steps (m + n) E s = rbind (consumer_steps m E s) (consumer_steps n E)"
proof (induction m arbitrary: s)
  case (Suc m)
  then show ?case by (cases "consumer_step E s") simp_all
qed simp

lemma consumer_steps_then:
  "consumer_steps m E s = Inr s1 \<Longrightarrow> consumer_steps n E s1 = Inr s2 \<Longrightarrow> consumer_steps (m + n) E s = Inr s2"
  by (simp add: consumer_steps_add)

text \<open>The coin of \<open>is_true_distribution\<close> always shows a real access.\<close>

definition always_real :: "proxy_state \<Rightarrow> bool" where
  "always_real p \<longleftrightarrow> (\<forall>g. fst (is_true_distribution p g))"

lemma always_real_zero: "px_p_max p = 0 \<Longrightarrow> always_real p"
  by (simp add: always_real_def is_true_distribution_def prob_quot_def)

section \<open>One security batch\<close>

lemma security_step_effect:
  assumes "queue_ok q" and "length (m_queue q) < 2 ^ 31" and "dists_ok p" and "batch_wf b"
  shows "\<exists>q' b' g'. security_step p q b g = Inr (q', b', g') \<and>
    length (b_ops b') = Suc (length (b_ops b)) \<and> batch_wf b' \<and> queue_ok q' \<and>
    length (m_queue q') \<le> length (m_queue q) \<and>
    real_pairs b' @ m_queue q' = real_pairs b @ m_queue q \<and>
    (always_real p \<longrightarrow> m_queue q' = tl (m_queue q))"
proof -
  have "\<forall>g. \<exists>k. sample (px_real_distribution p) g = Inr (k, stl g)"
      "\<forall>g. \<exists>k. sample (px_fake_distribution p) g = Inr (k, stl g)"
    using dist_ok_sample assms(3) unfolding dists_ok_def by blast+
  then obtain q' b' g' where s: "security_step p q b g = Inr (q', b', g')"
    using security_step_total [OF assms(1)] by (metis prod_cases3)
  have size: "queue_size q = 0 \<longleftrightarrow> m_queue q = []"
    using queue_size_length [OF assms(1,2)] by simp
  have tl: "m_queue q' = tl (m_queue q)" if "always_real p"
  proof -
    have "fst (is_true_distribution p g)" using that by (simp add: always_real_def)
    with s size show ?thesis
      by (auto simp: security_step_def rbind_Inr_iff queue_pop_def split: prod.splits if_splits list.splits)
  qed
  have "length (m_queue q') \<le> length (m_queue q)"
    using s by (cases rule: security_step_cases) (auto simp: queue_pop_def split: list.splits)
  with s tl security_step_pairs [OF s assms(4,1)] show ?thesis by blast
qed

text \<open>
  What some slots have done to queue, batch and generator: \<open>k\<close> operations more, none of the
  requests lost.
\<close>

definition filled :: "nat \<Rightarrow> 'st consumer \<Rightarrow> op_queue \<Rightarrow> batch \<Rightarrow> bool" where
  "filled k s q b \<longleftrightarrow>
     length (b_ops b) = length (b_ops (cs_batch s)) + k \<and> batch_wf b \<and> queue_ok q \<and>
     length (m_queue q) \<le> length (m_queue (cs_queue s)) \<and>
     real_pairs b @ m_queue q = real_pairs (cs_batch s) @ m_queue (cs_queue s) \<and>
     (always_real (cs_proxy s) \<longrightarrow> m_queue q = drop k (m_queue (cs_queue s)))"

definition fillable :: "'st consumer \<Rightarrow> bool" where
  "fillable s \<longleftrightarrow> queue_ok (cs_queue s) \<and> length (m_queue (cs_queue s)) < 2 ^ 31 \<and>
     dists_ok (cs_proxy s) \<and> batch_wf (cs_batch s)"

lemma filled_none: "fillable s \<Longrightarrow> filled 0 s (cs_queue s) (cs_batch s)"
  by (simp add: filled_def fillable_def)

lemma filled_fillable:
  "fillable s \<Longrightarrow> filled k s q b \<Longrightarrow> cs_proxy s' = cs_proxy s \<Longrightarrow> cs_queue s' = q \<Longrightarrow> cs_batch s' = b \<Longrightarrow> fillable s'"
  by (auto simp: fillable_def filled_def)

lemma filled_add:
  "filled k s q b \<Longrightarrow> filled m s' q' b' \<Longrightarrow> cs_proxy s' = cs_proxy s \<Longrightarrow> cs_queue s' = q \<Longrightarrow> cs_batch s' = b \<Longrightarrow>
   filled (k + m) s q' b'"
  by (auto simp: filled_def add.commute)

lemma slots_steps:
  assumes "cs_point s = Slots i (int j)" and "int (j + k) \<le> px_security_batch_size (cs_proxy s)" and "fillable s"
  shows "\<exists>q b g. consumer_steps k E s
      = Inr (s\<lparr>cs_queue := q, cs_batch := b, cs_rng := g, cs_point := Slots i (int (j + k))\<rparr>) \<and> filled k s q b"
  using assms
proof (induction k arbitrary: s j)
  case 0
  then show ?case using filled_none by (intro exI [of _ "cs_queue s"] exI [of _ "cs_batch s"] exI [of _ "cs_rng s"]) simp
next
  case (Suc k)
  note f = Suc.prems(3) [unfolded fillable_def]
  obtain q b g where st: "security_step (cs_proxy s) (cs_queue s) (cs_batch s) (cs_rng s) = Inr (q, b, g)"
      "filled 1 s q b"
    using security_step_effect [of "cs_queue s" "cs_proxy s" "cs_batch s" "cs_rng s"] f
    by (auto simp: filled_def drop_Suc)
  let ?s = "s\<lparr>cs_queue := q, cs_batch := b, cs_rng := g, cs_point := Slots i (int (Suc j))\<rparr>"
  have 1: "consumer_step E s = Inr ?s"
    using Suc.prems(1,2) st(1) by (simp add: consumer_step_def add.commute)
  have "fillable ?s" by (rule filled_fillable [OF Suc.prems(3) st(2)]) simp_all
  from Suc.IH [OF _ _ this, of "Suc j"] Suc.prems(2) obtain q' b' g' where
      "consumer_steps k E ?s
        = Inr (?s\<lparr>cs_queue := q', cs_batch := b', cs_rng := g', cs_point := Slots i (int (Suc j + k))\<rparr>)"
      "filled k ?s q' b'"
    by auto
  with 1 filled_add [OF st(2) this(2)] show ?case by auto
qed

section \<open>One turn of the inner loop\<close>

lemma round_steps:
  assumes "cs_point s = Rounds i" and "sint i < sint (cs_total s - cs_previous s)"
    and "px_security_batch_size (cs_proxy s) = int c" and "fillable s"
  shows "\<exists>q b g. consumer_steps (c + 2) E s
      = Inr (s\<lparr>cs_queue := q, cs_batch := b, cs_rng := g, cs_point := Rounds (i + 1)\<rparr>) \<and> filled c s q b"
proof -
  let ?s = "s\<lparr>cs_point := Slots i 0\<rparr>"
  have 1: "consumer_steps 1 E s = Inr ?s"
    using assms(1,2) by (simp add: consumer_step_def)
  obtain q b g where 2: "consumer_steps c E ?s
      = Inr (?s\<lparr>cs_queue := q, cs_batch := b, cs_rng := g, cs_point := Slots i (int c)\<rparr>)" "filled c ?s q b"
    using slots_steps [of ?s i 0 c E] assms(3,4) by (auto simp: fillable_def)
  let ?t = "?s\<lparr>cs_queue := q, cs_batch := b, cs_rng := g, cs_point := Slots i (int c)\<rparr>"
  have "consumer_steps 1 E ?t = Inr (s\<lparr>cs_queue := q, cs_batch := b, cs_rng := g, cs_point := Rounds (i + 1)\<rparr>)"
    using assms(3) by (simp add: consumer_step_def)
  from consumer_steps_then [OF consumer_steps_then [OF 1 2(1)] this] 2(2) show ?thesis
    by (auto simp: filled_def)
qed

lemma rounds_steps:
  assumes "cs_point s = Rounds i" and "sint (cs_total s - cs_previous s) = sint i + int m"
    and "px_security_batch_size (cs_proxy s) = int c" and "fillable s"
  shows "\<exists>q b g. consumer_steps (m * (c + 2)) E s
      = Inr (s\<lparr>cs_queue := q, cs_batch := b, cs_rng := g, cs_point := Rounds (i + of_nat m)\<rparr>) \<and> filled (m * c) s q b"
  using assms
proof (induction m arbitrary: s i)
  case 0
  then show ?case using filled_none by (intro exI [of _ "cs_queue s"] exI [of _ "cs_batch s"] exI [of _ "cs_rng s"]) simp
next
  case (Suc m)
  have lt: "sint i < sint (cs_total s - cs_previous s)" using Suc.prems(2) by simp
  obtain q b g where 1: "consumer_steps (c + 2) E s
      = Inr (s\<lparr>cs_queue := q, cs_batch := b, cs_rng := g, cs_point := Rounds (i + 1)\<rparr>)" "filled c s q b"
    using round_steps [OF Suc.prems(1) lt Suc.prems(3,4)] by blast
  let ?s = "s\<lparr>cs_queue := q, cs_batch := b, cs_rng := g, cs_point := Rounds (i + 1)\<rparr>"
  have f: "fillable ?s" by (rule filled_fillable [OF Suc.prems(4) 1(2)]) simp_all
  have "sint (cs_total ?s - cs_previous ?s) = sint (i + 1) + int m"
    using Suc.prems(2) sint_suc [OF lt] by simp
  from Suc.IH [OF _ this _ f] Suc.prems(3) obtain q' b' g' where
      2: "consumer_steps (m * (c + 2)) E ?s
        = Inr (?s\<lparr>cs_queue := q', cs_batch := b', cs_rng := g', cs_point := Rounds (i + 1 + of_nat m)\<rparr>)"
      "filled (m * c) ?s q' b'"
    by auto
  have "filled (c + m * c) s q' b'" by (rule filled_add [OF 1(2) 2(2)]) simp_all
  moreover have "Suc m * (c + 2) = (c + 2) + m * (c + 2)" by simp
  then have "consumer_steps (Suc m * (c + 2)) E s
      = Inr (s\<lparr>cs_queue := q', cs_batch := b', cs_rng := g', cs_point := Rounds (i + of_nat (Suc m))\<rparr>)"
    using consumer_steps_then [OF 1(1) 2(1)] by (simp only:) (simp add: add.assoc)
  ultimately show ?case by auto
qed

text \<open>From the test of the inner loop with an open batch back to it.\<close>

lemma turn_steps:
  fixes s :: "'st consumer"
  assumes "cs_point s = Inner" and "batch_open s" and "cs_serviced s = cs_previous s" and "fillable s"
    and "px_security_batch_size (cs_proxy s) = int c"
  defines "l \<equiv> length (m_queue (cs_queue s))"
  shows "\<exists>s'. consumer_steps (2 + l * (c + 2)) E s = Inr s' \<and> cs_point s' = Inner \<and>
    cs_proxy s' = cs_proxy s \<and> cs_promises s' = cs_promises s \<and> cs_finished s' = cs_finished s \<and>
    filled (l * c) s (cs_queue s') (cs_batch s')"
proof -
  have len: "queue_size (cs_queue s) = int l"
    using assms(4) queue_size_length [of "cs_queue s"] by (simp add: fillable_def l_def)
  let ?a = "s\<lparr>cs_total := size_ctr (cs_queue s) + cs_serviced s, cs_point := Rounds 0\<rparr>"
  have 1: "consumer_steps 1 E s = Inr ?a"
    using assms(1,2) by (simp add: consumer_step_def)
  have diff: "cs_total ?a - cs_previous ?a = size_ctr (cs_queue s)" using assms(3) by simp
  then have "sint (cs_total ?a - cs_previous ?a) = sint (0 :: 32 word) + int l"
    using len by (simp only: queue_size_def) simp
  moreover have f: "fillable ?a" using assms(4) by (simp add: fillable_def)
  ultimately obtain q b g where 2: "consumer_steps (l * (c + 2)) E ?a
      = Inr (?a\<lparr>cs_queue := q, cs_batch := b, cs_rng := g, cs_point := Rounds (0 + of_nat l)\<rparr>)" "filled (l * c) ?a q b"
    using rounds_steps [of ?a 0 l c E] assms(5) by auto
  let ?b = "?a\<lparr>cs_queue := q, cs_batch := b, cs_rng := g, cs_point := Rounds (0 + of_nat l)\<rparr>"
  have "size_ctr (cs_queue s) = of_nat l" using assms(4) by (simp add: fillable_def queue_ok_def l_def)
  then have "\<exists>s'. consumer_steps 1 E ?b = Inr s' \<and> cs_point s' = Inner \<and> cs_proxy s' = cs_proxy s \<and>
      cs_promises s' = cs_promises s \<and> cs_finished s' = cs_finished s \<and> cs_queue s' = q \<and> cs_batch s' = b"
    using assms(3) by (simp add: consumer_step_def)
  then obtain s' where s': "consumer_steps 1 E ?b = Inr s'" "cs_point s' = Inner" "cs_proxy s' = cs_proxy s"
      "cs_promises s' = cs_promises s" "cs_finished s' = cs_finished s" "cs_queue s' = q" "cs_batch s' = b"
    by blast
  have "consumer_steps (1 + l * (c + 2) + 1) E s = Inr s'"
    by (rule consumer_steps_then [OF consumer_steps_then [OF 1 2(1)] s'(1)])
  moreover have "1 + l * (c + 2) + 1 = 2 + l * (c + 2)" by simp
  moreover have "filled (l * c) s q b" using 2(2) by (simp add: filled_def)
  ultimately show ?thesis using s' by (metis (no_types, lifting))
qed

section \<open>Waiting for more requests\<close>

text \<open>
  \<open>waits_short c w s\<close>: what is in the batch and what the requests in the queue will add, \<open>c\<close>
  operations each, stays below the size of a full batch, which is \<open>w\<close>.
\<close>

definition waits_short :: "nat \<Rightarrow> int \<Rightarrow> 'st consumer \<Rightarrow> bool" where
  "waits_short c w s \<longleftrightarrow>
     (let len = int (length (b_ops (cs_batch s))); queued = length (m_queue (cs_queue s))
      in case cs_point s of
           Inner \<Rightarrow> len + int (queued * c) < w
         | Rounds i \<Rightarrow> \<exists>r. sint (cs_total s - cs_previous s) = sint i + int r \<and>
             len + int (r * c) < w \<and> queued \<le> r * c
         | Slots i j \<Rightarrow> \<exists>r k. sint (cs_total s - cs_previous s) = sint i + 1 + int r \<and> j + int k = int c \<and>
             len + int (k + r * c) < w \<and> queued \<le> k + r * c
         | _ \<Rightarrow> False)"

definition short :: "nat \<Rightarrow> int \<Rightarrow> proxy_state \<Rightarrow> promise_store \<Rightarrow> 'st consumer \<Rightarrow> bool" where
  "short c w p ps s \<longleftrightarrow>
     waits_short c w s \<and> counters_inv s \<and> fillable s \<and> cs_proxy s = p \<and> cs_promises s = ps \<and> \<not> cs_finished s"

lemma short_step:
  assumes "short c w p ps s" and "always_real p" and "0 < c"
    and "px_security_batch_size p = int c" and "px_storage_batch_size p mod 2 ^ 64 = w"
  shows "\<exists>s'. consumer_step E s = Inr s' \<and> short c w p ps s'"
proof (cases "cs_point s")
  case Inner
  let ?l = "length (m_queue (cs_queue s))"
  have sh: "int (length (b_ops (cs_batch s))) + int (?l * c) < w" "counters_inv s" "fillable s"
      "cs_proxy s = p" "cs_promises s = ps" "\<not> cs_finished s"
    using assms(1) Inner by (simp_all add: short_def waits_short_def Let_def)
  have "0 \<le> int (?l * c)" by simp
  with sh(1) have "int (length (b_ops (cs_batch s))) < w" by linarith
  then have op: "batch_open s" using sh(4,6) assms(5) by (simp add: batch_open_def)
  let ?s = "s\<lparr>cs_total := size_ctr (cs_queue s) + cs_serviced s, cs_point := Rounds 0\<rparr>"
  have step: "consumer_step E s = Inr ?s" using Inner op by (simp add: consumer_step_def)
  have "queue_size (cs_queue s) = int ?l"
    using sh(3) queue_size_length [of "cs_queue s"] by (simp add: fillable_def)
  moreover have "cs_serviced s = cs_previous s" using sh(2) Inner by (simp add: counters_inv_def)
  ultimately have "sint (cs_total ?s - cs_previous ?s) = sint (0 :: 32 word) + int ?l"
    by (simp add: queue_size_def)
  moreover have "?l \<le> ?l * c" using assms(3) by simp
  ultimately have "waits_short c w ?s" using sh(1) by (auto simp: waits_short_def Let_def)
  with step counters_inv_step [OF sh(2) step] sh(3-6) show ?thesis
    by (auto simp: short_def fillable_def)
next
  case (Rounds i)
  obtain r where sh: "sint (cs_total s - cs_previous s) = sint i + int r"
      "int (length (b_ops (cs_batch s))) + int (r * c) < w" "length (m_queue (cs_queue s)) \<le> r * c"
      "counters_inv s" "fillable s" "cs_proxy s = p" "cs_promises s = ps" "\<not> cs_finished s"
    using assms(1) Rounds by (auto simp: short_def waits_short_def Let_def)
  show ?thesis
  proof (cases r)
    case 0
    then have "\<exists>s'. consumer_step E s = Inr s' \<and> cs_point s' = Inner \<and> cs_queue s' = cs_queue s \<and>
        cs_batch s' = cs_batch s \<and> cs_proxy s' = cs_proxy s \<and> cs_promises s' = cs_promises s \<and>
        cs_finished s' = cs_finished s"
      using Rounds sh(1) by (simp add: consumer_step_def)
    then obtain s' where s': "consumer_step E s = Inr s'" "cs_point s' = Inner" "cs_queue s' = cs_queue s"
        "cs_batch s' = cs_batch s" "cs_proxy s' = cs_proxy s" "cs_promises s' = cs_promises s"
        "cs_finished s' = cs_finished s"
      by blast
    with counters_inv_step [OF sh(4) s'(1)] sh 0 show ?thesis
      by (auto simp: short_def waits_short_def Let_def fillable_def)
  next
    case (Suc m)
    let ?s = "s\<lparr>cs_point := Slots i 0\<rparr>"
    have step: "consumer_step E s = Inr ?s" using Rounds sh(1) Suc by (simp add: consumer_step_def)
    have "waits_short c w ?s"
      using sh(1-3) Suc by (auto simp: waits_short_def Let_def intro!: exI [of _ m] exI [of _ c])
    with step counters_inv_step [OF sh(4) step] sh(5-8) show ?thesis by (auto simp: short_def fillable_def)
  qed
next
  case (Slots i j)
  obtain r k where sh: "sint (cs_total s - cs_previous s) = sint i + 1 + int r" "j + int k = int c"
      "int (length (b_ops (cs_batch s))) + int (k + r * c) < w" "length (m_queue (cs_queue s)) \<le> k + r * c"
      "counters_inv s" "fillable s" "cs_proxy s = p" "cs_promises s = ps" "\<not> cs_finished s"
    using assms(1) Slots by (auto simp: short_def waits_short_def Let_def)
  show ?thesis
  proof (cases k)
    case 0
    let ?s = "s\<lparr>cs_point := Rounds (i + 1)\<rparr>"
    have step: "consumer_step E s = Inr ?s"
      using Slots sh(2,7) 0 assms(4) by (simp add: consumer_step_def)
    have "sint (i + 1) = sint i + 1" by (rule sint_suc [of _ "cs_total s - cs_previous s"]) (use sh(1) in simp)
    then have "waits_short c w ?s" using sh(1,3,4) 0 by (auto simp: waits_short_def Let_def)
    with step counters_inv_step [OF sh(5) step] sh(6-9) show ?thesis by (auto simp: short_def fillable_def)
  next
    case (Suc m)
    note f = sh(6) [unfolded fillable_def]
    obtain q b g where st: "security_step p (cs_queue s) (cs_batch s) (cs_rng s) = Inr (q, b, g)"
        "length (b_ops b) = Suc (length (b_ops (cs_batch s)))" "batch_wf b" "queue_ok q"
        "length (m_queue q) \<le> length (m_queue (cs_queue s))" "m_queue q = tl (m_queue (cs_queue s))"
      using security_step_effect [of "cs_queue s" p "cs_batch s" "cs_rng s"] f sh(7) assms(2) by auto
    let ?s = "s\<lparr>cs_queue := q, cs_batch := b, cs_rng := g, cs_point := Slots i (j + 1)\<rparr>"
    have step: "consumer_step E s = Inr ?s"
      using Slots sh(2,7) Suc assms(4) st(1) by (simp add: consumer_step_def)
    have "length (m_queue q) \<le> m + r * c" using st(6) sh(4) Suc by simp
    then have "waits_short c w ?s"
      using sh(1-3) st(2) Suc by (auto simp: waits_short_def Let_def intro!: exI [of _ r] exI [of _ m])
    moreover have "fillable ?s" using f st(3-5) by (simp add: fillable_def)
    ultimately show ?thesis
      using step counters_inv_step [OF sh(5) step] sh(7-9) by (auto simp: short_def)
  qed
qed (use assms(1) in \<open>simp_all add: short_def waits_short_def\<close>)

lemma short_not_executes:
  "short c w p ps s \<Longrightarrow> px_storage_batch_size p mod 2 ^ 64 = w \<Longrightarrow> \<not> executes s"
proof
  assume s: "short c w p ps s" "px_storage_batch_size p mod 2 ^ 64 = w" "executes s"
  then have "int (length (b_ops (cs_batch s))) + int (length (m_queue (cs_queue s)) * c) < w"
    by (simp add: short_def waits_short_def executes_def Let_def)
  moreover have "0 \<le> int (length (m_queue (cs_queue s)) * c)" by simp
  ultimately have "int (length (b_ops (cs_batch s))) < w" by linarith
  with s show False by (simp add: short_def executes_def batch_open_def)
qed

lemma short_steps:
  assumes "always_real p" and "0 < c" and "px_security_batch_size p = int c"
    and "px_storage_batch_size p mod 2 ^ 64 = w" and "short c w p ps s"
  shows "\<exists>s'. consumer_steps n E s = Inr s' \<and> short c w p ps s'"
  using assms(5)
proof (induction n arbitrary: s)
  case (Suc n)
  from short_step [OF Suc.prems assms(1-4)] obtain s1 where "consumer_step E s = Inr s1" "short c w p ps s1"
    by blast
  with Suc.IH show ?case by simp
qed simp

section \<open>When requests are answered\<close>

lemma run_fillable:
  assumes "consumer_run E A P s0 subs hist s" and "consumer_initial s0"
    and "dists_ok (cs_proxy s)" and "length (m_queue (cs_queue s)) < 2 ^ 31"
  shows "fillable s"
  using queue_invD(2,3) [OF queue_inv_run [OF assms(1,2)]] assms(3,4) by (simp add: fillable_def)

lemma run_counters:
  assumes "consumer_run E A P s0 subs hist s" and "consumer_initial s0" and "cs_point s = Inner"
  shows "cs_serviced s = cs_previous s"
  using counters_inv_run [OF assms(1,2)] assms(3) by (simp add: counters_inv_def)



text \<open>
  C12. Few requests wait. When the coin always shows a real access, as it does in a server
  started by \<open>main\<close>, and the operations of the batch with those of the queued requests do not fill
  it, the consumer never executes it: however many steps it takes, those requests stay
  pending until others arrive. With the default sizes, 3 and 40, this holds of up to 13
  requests.
\<close>

theorem few_requests_wait:
  assumes "consumer_run E A P s0 subs hist s" and "consumer_initial s0"
    and "cs_point s = Inner" and "\<not> cs_finished s" and "dists_ok (cs_proxy s)" and "always_real (cs_proxy s)"
    and "l = length (m_queue (cs_queue s))" and "l < 2 ^ 31"
    and "px_security_batch_size (cs_proxy s) = int c" and "0 < c"
    and "int (length (b_ops (cs_batch s)) + l * c) < px_storage_batch_size (cs_proxy s) mod 2 ^ 64"
  shows "\<exists>s'. consumer_steps n E s = Inr s' \<and> \<not> executes s' \<and>
    (\<forall>r\<in>set (real_pairs (cs_batch s) @ m_queue (cs_queue s)). cs_promises s' (snd r) = Some None)"
proof -
  note d = queue_invD [OF queue_inv_run [OF assms(1,2)]]
  let ?w = "px_storage_batch_size (cs_proxy s) mod 2 ^ 64"
  have "fillable s" by (rule run_fillable [OF assms(1,2,5)]) (use assms(7,8) in simp)
  then have "short c ?w (cs_proxy s) (cs_promises s) s"
    using counters_inv_run [OF assms(1,2)] assms(3,4,7,11) by (simp add: short_def waits_short_def Let_def)
  from short_steps [OF assms(6,10,9) refl this, of n E] obtain s' where
      s': "consumer_steps n E s = Inr s'" "short c ?w (cs_proxy s) (cs_promises s) s'"
    by blast
  have "cs_promises s (snd r) = Some None" if "r \<in> set (real_pairs (cs_batch s) @ m_queue (cs_queue s))" for r
  proof -
    have "snd r \<in> set (map snd (real_pairs (cs_batch s) @ m_queue (cs_queue s)))" using that by auto
    moreover have "map snd subs = b_promises hist @ map snd (real_pairs (cs_batch s) @ m_queue (cs_queue s))"
      using d(6) map_snd_real_pairs [OF d(2)] by simp
    ultimately have "snd r \<in> set (map snd subs) - set (b_promises hist)"
      using d(7) by (metis DiffI UnI2 disjoint_iff distinct_append set_append)
    with d(10) show ?thesis by blast
  qed
  moreover have "cs_promises s' = cs_promises s" using s'(2) by (simp add: short_def)
  ultimately show ?thesis using s' short_not_executes [OF s'(2) refl] by auto
qed

text \<open>The consumer of the demonstration with the sizes a server has by default.\<close>

definition default_proxy :: proxy_state where
  "default_proxy = demo_proxy\<lparr>px_p_max := 0, px_storage_batch_size := 40\<rparr>"

definition lone_request :: "(string \<rightharpoonup> string) list consumer" where
  "lone_request = (submit demo_request 7 (demo_consumer\<lparr>cs_proxy := default_proxy\<rparr>))\<lparr>cs_point := Inner\<rparr>"

lemma default_dists_ok: "dists_ok default_proxy"
proof -
  have "replicas default_proxy = replicas demo_proxy"
    by (simp add: fun_eq_iff replicas_def default_proxy_def)
  then show ?thesis
    using demo_dists_ok by (simp add: dists_ok_def dist_ok_def) (simp add: default_proxy_def)
qed

lemma lone_run:
  "consumer_run ref_env (\<lambda>_. True) (\<lambda>_. True) (demo_consumer\<lparr>cs_proxy := default_proxy\<rparr>)
     ([] @ demo_requests) batch_empty lone_request"
proof -
  let ?init = "demo_consumer\<lparr>cs_proxy := default_proxy\<rparr>"
  let ?s = "submit demo_request 7 ?init"
  have sub: "consumer_run ref_env (\<lambda>_. True) (\<lambda>_. True) ?init ([] @ [(demo_request, 7)]) batch_empty ?s"
    by (rule run_submit [OF run_start]) (simp_all add: demo_consumer_def)
  have step: "consumer_step ref_env ?s = Inr lone_request"
    by (simp add: consumer_step_def submit_def demo_consumer_def lone_request_def)
  have "\<not> executes ?s" by (simp add: executes_def submit_def demo_consumer_def)
  with run_step [OF sub _ step] show ?thesis by (simp add: demo_requests_def)
qed

theorem few_requests_wait_witness:
  "\<exists>s'. consumer_steps 1000 ref_env lone_request = Inr s' \<and> cs_promises s' 7 = Some None"
proof -
  have f: "cs_proxy lone_request = default_proxy" "cs_point lone_request = Inner" "\<not> cs_finished lone_request"
      "m_queue (cs_queue lone_request) = demo_requests" "cs_batch lone_request = batch_empty"
    by (simp_all add: lone_request_def submit_def demo_consumer_def demo_requests_def queue_new_def)
  have "consumer_initial (demo_consumer\<lparr>cs_proxy := default_proxy\<rparr>)"
    using demo_consumer_initial by (simp add: consumer_initial_def)
  moreover have "always_real default_proxy" by (rule always_real_zero) (simp add: default_proxy_def)
  moreover have "px_security_batch_size default_proxy = int 3" "px_storage_batch_size default_proxy = 40"
    by (simp_all add: default_proxy_def demo_proxy_def)
  ultimately show ?thesis
    using few_requests_wait [OF lone_run, of 1 3 1000] f
    by (auto simp: default_dists_ok demo_requests_def batch_empty_def real_pairs_def)
qed

end
