(* ===== verification/Static_Mode.thy ===== *)
theory Static_Mode
  imports Server_Properties Consumer_Liveness
begin

text \<open>
  The server that \<open>main\<close> starts is in static mode: \<open>update_distribution\<close>, the only function that
  assigns \<open>p_max_\<close>, is never called. \<open>p_max_\<close> keeps the zero of the proxy's construction, and the
  coin of \<open>is_true_distribution\<close> always shows a real access.
\<close>

section \<open>Who leaves the maximum alone\<close>

lemma insert_loop_p_max:
  "insert_loop E vc k m i labels p st = Inr (labels', p', st') \<Longrightarrow> px_p_max p' = px_p_max p"
proof (induction m arbitrary: i labels p st)
  case (Suc m)
  then show ?case by (fastforce simp: Let_def rbind_Inr_iff split: if_splits)
qed simp

lemma insert_replicas_p_max:
  "insert_replicas E k n p st g = Inr (p', st', g') \<Longrightarrow> px_p_max p' = px_p_max p"
  by (auto simp: insert_replicas_def rbind_Inr_iff split: if_splits dest!: insert_loop_p_max)

lemma create_keys_p_max:
  "create_keys E ks \<pi>s fakes pairs created p st g = Inr (f', r', c', p', st', g') \<Longrightarrow> px_p_max p' = px_p_max p"
proof (induction ks arbitrary: \<pi>s fakes pairs created p st g)
  case (Cons k ks)
  obtain \<pi> \<pi>s' where \<pi>: "\<pi>s = \<pi> # \<pi>s'" using Cons.prems by (cases \<pi>s) auto
  from Cons.prems [unfolded \<pi>] show ?case
    by (auto simp: Let_def rbind_Inr_iff dest!: insert_replicas_p_max Cons.IH)
qed simp

lemma create_replicas_p_max:
  "create_replicas E p st g = Inr (p', st', g') \<Longrightarrow> px_p_max p' = px_p_max p"
  by (auto simp: create_replicas_def Let_def rbind_Inr_iff split: if_splits
      dest!: create_keys_p_max insert_replicas_p_max)

lemma choose_replicas_p_max:
  "choose_replicas ops ts p g = Inr (rids, ss, p', g') \<Longrightarrow> px_p_max p' = px_p_max p"
proof (induction ops arbitrary: ts p g rids ss)
  case (Cons oper ops)
  obtain t ts' where ts: "ts = t # ts'" using Cons.prems by (cases ts) auto
  from Cons.prems [unfolded ts] show ?case
    by (auto simp: Let_def rbind_Inr_iff split_beta dest!: Cons.IH)
qed simp

lemma apply_update_p_max:
  "apply_update oper rid v p = Inr (v', p') \<Longrightarrow> px_p_max p' = px_p_max p"
  by (auto simp: apply_update_def Let_def rbind_Inr_iff split: if_splits prod.splits)

lemma process_responses_p_max:
  "process_responses E ops rids cs ts pids p ps = Inr (vals, p', ps') \<Longrightarrow> px_p_max p' = px_p_max p"
proof (induction E ops rids cs ts pids p ps arbitrary: vals p' ps' rule: process_responses.induct)
  case (2 E oper ops rid rids cph resps t ts promises p ps)
  from 2(2) obtain plain0 plain p1 pids1 ps1 c vals1 where s:
      "env_decrypt E cph = Inr plain0" "apply_update oper rid plain0 p = Inr (plain, p1)"
      "fulfil t promises plain ps = Inr (pids1, ps1)" "env_encrypt E plain = Inr c"
      "process_responses E ops rids resps ts pids1 p1 ps1 = Inr (vals1, p', ps')"
    by (auto simp: rbind_Inr_iff)
  from 2(1) [OF s(1,2) refl s(3) refl s(4,5)] apply_update_p_max [OF s(2)] show ?case by simp
qed simp_all

lemma consumer_step_p_max:
  assumes "consumer_step E s = Inr s'"
  shows "px_p_max (cs_proxy s') = px_p_max (cs_proxy s)"
  using assms
  by (auto simp: consumer_step_def consumer_execute_def execute_batch_def Let_def rbind_Inr_iff
      split: consumer_point.splits if_splits dest!: choose_replicas_p_max process_responses_p_max)

lemma consumer_run_p_max:
  "consumer_run E A P s0 subs hist s \<Longrightarrow> px_p_max (cs_proxy s) = px_p_max (cs_proxy s0)"
  by (induction rule: consumer_run.induct) (auto simp: submit_def dest: consumer_step_p_max)

lemma server_main_p_max:
  assumes "server_main E C order files argv num_cores g = Inr (w, threads, trace)"
  shows "px_p_max (ap_proxy w) = 0"
proof -
  obtain p g1 so st D a d p' st' g' where
      p: "proxy_new g = Inr (p, g1)"
      and c: "create_replicas E ((options_proxy so p)\<lparr>px_real_distribution := D, px_alpha := a, px_delta := d\<rparr>) st g1
        = Inr (p', st', g')"
      and w: "ap_proxy w = p'"
    using assms
    by (auto simp: server_main_def proxy_init_def api_new_def Let_def rbind_Inr_iff split: prod.splits)
  have "px_p_max p = 0" using p by (auto simp: proxy_new_def rbind_Inr_iff)
  with create_replicas_p_max [OF c] w show ?thesis by (simp add: options_proxy_def)
qed

section \<open>No fake accesses\<close>

text \<open>
  C13. A server started by \<open>main\<close> makes no fake accesses. In every state its consumers reach the
  coin shows a real access, so a slot of a security batch takes a queued request or draws from
  the real distribution: what it does is the same whatever the fake distribution is, and the
  accesses are not smoothed.
\<close>

theorem server_never_fakes:
  assumes "server_main E C order files argv num_cores g = Inr (w, threads, trace)"
    and "consumer_run E A P (consumer_start i r0 w) subs hist s"
  shows "always_real (cs_proxy s) \<and>
    (\<forall>D q b r. security_step ((cs_proxy s)\<lparr>px_fake_distribution := D\<rparr>) q b r = security_step (cs_proxy s) q b r)"
proof -
  have "px_p_max (cs_proxy s) = 0"
    using consumer_run_p_max [OF assms(2)] server_main_p_max [OF assms(1)] by (simp add: consumer_start_def)
  then show ?thesis
    by (simp add: always_real_zero security_step_def is_true_distribution_def prob_quot_def)
qed

theorem server_never_fakes_witness:
  "\<exists>w threads trace. server_main demo_object_env demo_clients demo_order [''t'' \<mapsto> demo_trace] demo_argv 2 (sconst 3)
      = Inr (w, threads, trace) \<and> always_real (cs_proxy (consumer_start 1 (sconst 3) w))"
proof -
  obtain w threads trace where
      "server_main demo_object_env demo_clients demo_order [''t'' \<mapsto> demo_trace] demo_argv 2 (sconst 3)
        = Inr (w, threads, trace)"
    using demo_server_started by blast
  with server_never_fakes [OF this run_start] show ?thesis by blast
qed

end
