(* ===== verification/Client_Properties.thy ===== *)
theory Client_Properties
  imports Client_Library Token_Protocol
begin

text \<open>
  What the asynchronous client guarantees: the bound on its requests in flight, the counting of
  responses, and that its thread can be stopped.
\<close>


definition demo_client :: "unit wired async_client" where
  "demo_client =
     \<lparr>ac_requests = queue_new, ac_total = 0, ac_done = False, ac_sequence_num = 0, ac_client_id = 5,
      ac_seq_id = sequence_id_new, ac_in_flight_limit = 16, ac_net = (wire_new, ())\<rparr>"

lemma demo_client_call: "\<exists>w'. async_call token_proto (Call_get ''k'') demo_client = Some (Inr (), w')"
proof -
  let ?s = "set_client_seq_no 0 sequence_id_new"
  let ?w = "demo_client\<lparr>ac_seq_id := ?s, ac_sequence_num := 1\<rparr>"
  have 1: "next_sequence demo_client = Some (Inr ?s, ?w)"
    by (simp add: next_sequence_def demo_client_def Let_def)
  have "gives token_conn 2 (client_async_get (token_proto :: unit wired tproto) ?s ''k'')
      (message ''async_get'' T_ONEWAY 0 (V_Struct [(1, seq_value ?s), (2, V_String ''k'')])) ()"
    unfolding client_async_get_def by (rule tok_out.send_gives(3)) simp
  then obtain n where "client_async_get token_proto ?s ''k'' (wire_new, ()) = Some (Inr (), n)"
    using givesD [where conn = token_conn and w = "(wire_new, ())" and a = wire_new and h = "()"]
    by (fastforce simp: token_conn_def recursion_limit_def wire_new_def)
  then have 2: "on_wire (client_async_get token_proto ?s ''k'') ?w = Some (Inr (), ?w\<lparr>ac_net := n\<rparr>)"
    by (simp add: on_wire_def izoom_def demo_client_def)
  have "queue_size (ac_requests demo_client) < sint (ac_in_flight_limit demo_client)"
    by (simp add: demo_client_def queue_size_def queue_new_def)
  with 1 2 show ?thesis
    by (simp add: async_client_get_def when_room_def ibind_Inr ithen_def push_code_apply iret_apply)
qed


text \<open>
  C40. Responses are counted. What the proxy's response client writes for an answer, the
  thread of the asynchronous client reads when it comes to it, whatever request it popped
  before, and adds the number of results to its total.
\<close>

theorem response_counted:
  assumes "thrift_output P pconn psz" and "thrift_input Q conn sz" and "value_ok (V_List rs)"
  shows "\<exists>ts. gives pconn 2 (response_async_response P s code rs) ts () \<and>
    (\<forall>w a h rest. conn (ac_net w) a h \<longrightarrow> w_in_depth a = 0 \<longrightarrow> w_in a = ts @ rest \<longrightarrow>
       (\<exists>n'. read_responses_step Q (Receiving c) w
           = Some (Inr Checking, w\<lparr>ac_net := n', ac_total := ac_total w + of_nat (length rs)\<rparr>) \<and>
         conn n' (a\<lparr>w_in := rest\<rparr>) h))"
proof -
  have "gives pconn 2 (response_async_response P s code rs)
      (message ''async_response'' T_ONEWAY 0 (response_value s code rs)) ()"
    using thrift_output.send_async_response_gives [OF assms(1,3)] by (simp add: response_async_response_def)
  with thrift_input.read_responses_counts [OF assms(2,3), of _ _ _ s code _ c] show ?thesis by blast
qed

theorem response_counted_witness:
  "\<exists>ts n'. read_responses_step token_proto (Receiving 2) (demo_client\<lparr>ac_net := (wire_new\<lparr>w_in := ts\<rparr>, ())\<rparr>)
     = Some (Inr Checking, demo_client\<lparr>ac_net := n', ac_total := 2\<rparr>)"
proof -
  let ?rs = "[''x'', ''y'']"
  have ok: "value_ok (V_List ?rs)" by simp
  obtain ts where "\<forall>w a h rest. token_conn (ac_net w) a h \<longrightarrow> w_in_depth a = 0 \<longrightarrow> w_in a = ts @ rest \<longrightarrow>
       (\<exists>n'. read_responses_step (token_proto :: unit wired tproto) (Receiving 2) w
           = Some (Inr Checking, w\<lparr>ac_net := n', ac_total := ac_total w + of_nat (length ?rs)\<rparr>) \<and>
         token_conn n' (a\<lparr>w_in := rest\<rparr>) h)"
    using response_counted [where conn = "token_conn :: unit wired \<Rightarrow> wire \<Rightarrow> unit \<Rightarrow> bool"
        and pconn = "token_conn :: unit wired \<Rightarrow> wire \<Rightarrow> unit \<Rightarrow> bool" and c = 2 and s = sequence_id_new and code = 2,
        OF tok_out.thrift_output_axioms tok_in.thrift_input_axioms ok] by blast
  from this [rule_format, of "demo_client\<lparr>ac_net := (wire_new\<lparr>w_in := ts\<rparr>, ())\<rparr>" "wire_new\<lparr>w_in := ts\<rparr>" "()" "[]"]
  show ?thesis by (auto simp: token_conn_def wire_new_def demo_client_def)
qed

end
