(* ===== verification/Thrift_Termination.thy ===== *)
theory Thrift_Termination
  imports Token_Protocol
begin

text \<open>
  That the server gets through any message. The generated readers loop \<open>while (true)\<close> over the
  fields of a struct; they end because every field header takes something off the input, which
  \<open>\<mu>\<close> measures. \<open>returns \<mu> m\<close>: the action \<open>m\<close> returns, normally or by an exception, and
  does not add to the input. The protocol's part is the locale \<open>thrift_total\<close>.
\<close>

named_theorems returning \<open>actions that return\<close>

definition returns :: "('w \<Rightarrow> nat) \<Rightarrow> ('w, 'a) io \<Rightarrow> bool" where
  "returns \<mu> m \<longleftrightarrow> (\<forall>w. \<exists>r w'. m w = Some (r, w') \<and> \<mu> w' \<le> \<mu> w)"

lemma returnsD: "returns \<mu> m \<Longrightarrow> \<exists>r w'. m w = Some (r, w') \<and> \<mu> w' \<le> \<mu> w"
  by (simp add: returns_def)

lemma returnsI: "(\<And>w. \<exists>r w'. m w = Some (r, w') \<and> \<mu> w' \<le> \<mu> w) \<Longrightarrow> returns \<mu> m"
  by (simp add: returns_def)

section \<open>Sequencing\<close>

lemma returns_iret [returning]: "returns \<mu> (iret x)"
  by (auto simp: returns_def iret_apply)

lemma returns_ithrow [returning]: "returns \<mu> (ithrow e)"
  by (auto simp: returns_def ithrow_apply)

lemma returns_ibind [returning]:
  assumes "returns \<mu> m" and "\<And>x. returns \<mu> (f x)"
  shows "returns \<mu> (ibind m f)"
proof (rule returnsI)
  fix w
  obtain r w1 where 1: "m w = Some (r, w1)" "\<mu> w1 \<le> \<mu> w" using returnsD [OF assms(1)] by blast
  show "\<exists>r w'. ibind m f w = Some (r, w') \<and> \<mu> w' \<le> \<mu> w"
  proof (cases r)
    case (Inl e)
    with 1 show ?thesis by (auto simp: ibind_Inl)
  next
    case (Inr x)
    obtain r' w2 where "f x w1 = Some (r', w2)" "\<mu> w2 \<le> \<mu> w1" using returnsD [OF assms(2)] by blast
    with 1 Inr show ?thesis by (auto simp: ibind_Inr)
  qed
qed

lemma returns_ithen [returning]: "returns \<mu> m \<Longrightarrow> returns \<mu> k \<Longrightarrow> returns \<mu> (ithen m k)"
  unfolding ithen_def by (rule returns_ibind)

lemma returns_iwhen [returning]: "returns \<mu> m \<Longrightarrow> returns \<mu> (iwhen b m)"
  by (simp add: iwhen_def returns_iret)

lemma returns_ifinally [returning]:
  assumes "returns \<mu> m" and "\<And>w. \<mu> (f w) \<le> \<mu> w"
  shows "returns \<mu> (ifinally m f)"
proof (rule returnsI)
  fix w
  obtain r w1 where "m w = Some (r, w1)" "\<mu> w1 \<le> \<mu> w" using returnsD [OF assms(1)] by blast
  with assms(2) [of w1] show "\<exists>r w'. ifinally m f w = Some (r, w') \<and> \<mu> w' \<le> \<mu> w"
    by (auto simp: ifinally_Some intro: order_trans)
qed

lemma returns_iattempt [returning]:
  assumes "returns \<mu> m"
  shows "returns \<mu> (iattempt m)"
proof (rule returnsI)
  fix w
  obtain r w1 where "m w = Some (r, w1)" "\<mu> w1 \<le> \<mu> w" using returnsD [OF assms] by blast
  then show "\<exists>r w'. iattempt m w = Some (r, w') \<and> \<mu> w' \<le> \<mu> w"
    by (cases r) (auto simp: iattempt_def)
qed

lemma returns_case [returning]:
  "(\<And>e. returns \<mu> (f e)) \<Longrightarrow> (\<And>x. returns \<mu> (g x)) \<Longrightarrow> returns \<mu> (case r of Inl e \<Rightarrow> f e | Inr x \<Rightarrow> g x)"
  by (cases r) simp_all

lemma returns_pair [returning]: "(\<And>x y. returns \<mu> (f x y)) \<Longrightarrow> returns \<mu> (case p of (x, y) \<Rightarrow> f x y)"
  by (cases p) simp

lemma returns_nested_pair [returning]:
  "(\<And>x y. returns \<mu> (f x y z)) \<Longrightarrow> returns \<mu> ((case p of (x, y) \<Rightarrow> f x y) z)"
  by (cases p) simp

lemma returns_if [returning]: "returns \<mu> m \<Longrightarrow> returns \<mu> k \<Longrightarrow> returns \<mu> (if b then m else k)"
  by simp

lemma returns_isum [returning]: "(\<And>m. m \<in> set ms \<Longrightarrow> returns \<mu> m) \<Longrightarrow> returns \<mu> (isum n ms)"
  by (induction ms arbitrary: n) (auto intro!: returning)

section \<open>The contract\<close>

text \<open>
  Every action of the protocol object returns: it either has the bytes of the frame, which the
  server received as a whole, or throws. Only a header of a field that is not the stop field
  needs to take something off the input.
\<close>

locale thrift_total =
  fixes P :: "'w tproto"
    and \<mu> :: "'w \<Rightarrow> nat"
  assumes total_reads: "returns \<mu> (readMessageBegin P)" "returns \<mu> (readMessageEnd P)"
      "returns \<mu> (readStructBegin P)" "returns \<mu> (readStructEnd P)" "returns \<mu> (readFieldEnd P)"
      "returns \<mu> (readI32 P)" "returns \<mu> (readI64 P)" "returns \<mu> (readString P)"
      "returns \<mu> (readListBegin P)" "returns \<mu> (readListEnd P)" "returns \<mu> (skip P ty)"
      "returns \<mu> (enter_input P)" "returns \<mu> (transport_readEnd P)"
    and total_leave: "\<mu> (leave_input P w) \<le> \<mu> w" "\<mu> (leave_output P w) \<le> \<mu> w"
    and total_field: "\<exists>r w'. readFieldBegin P w = Some (r, w') \<and> \<mu> w' \<le> \<mu> w \<and>
      (\<forall>ty fid n. r = Inr ((ty, fid), n) \<longrightarrow> ty \<noteq> T_STOP \<longrightarrow> \<mu> w' < \<mu> w)"
    and total_writes: "returns \<mu> (writeMessageBegin P name mty seqid)" "returns \<mu> (writeMessageEnd P)"
      "returns \<mu> (writeStructBegin P name)" "returns \<mu> (writeStructEnd P)"
      "returns \<mu> (writeFieldBegin P name ty fid)" "returns \<mu> (writeFieldEnd P)" "returns \<mu> (writeFieldStop P)"
      "returns \<mu> (writeI32 P i)" "returns \<mu> (writeI64 P l)" "returns \<mu> (writeString P s)"
      "returns \<mu> (writeListBegin P ty n)" "returns \<mu> (writeListEnd P)" "returns \<mu> (enter_output P)"
      "returns \<mu> (write_exception P e s)" "returns \<mu> (transport_writeEnd P)" "returns \<mu> (transport_flush P)"
begin

lemmas actions = total_reads total_leave total_writes

lemma read_loop_returns:
  assumes "\<And>fid ty x. returns \<mu> (field fid ty x)"
  shows "returns \<mu> (read_loop P field x xfer)"
proof (rule returnsI)
  fix w
  show "\<exists>r w'. read_loop P field x xfer w = Some (r, w') \<and> \<mu> w' \<le> \<mu> w"
  proof (induction "\<mu> w" arbitrary: x xfer w rule: less_induct)
    case less
    obtain r w1 where 1: "readFieldBegin P w = Some (r, w1)" "\<mu> w1 \<le> \<mu> w"
        "\<forall>ty fid n. r = Inr ((ty, fid), n) \<longrightarrow> ty \<noteq> T_STOP \<longrightarrow> \<mu> w1 < \<mu> w"
      using total_field by blast
    show ?case
    proof (cases r)
      case (Inl e)
      with 1 show ?thesis by (subst read_loop.simps) (simp add: ibind_Inl)
    next
      case (Inr h)
      obtain ty fid n where h: "h = ((ty, fid), n)" by (metis surj_pair)
      show ?thesis
      proof (cases "ty = T_STOP")
        case True
        with 1 Inr h show ?thesis by (subst read_loop.simps) (simp add: ibind_Inr)
      next
        case False
        define k where "k = (\<lambda>y. ibind (readFieldEnd P) (\<lambda>m. read_loop P field (fst y) (xfer + n + snd y + m)))"
        have step: "read_loop P field x xfer w = ibind (field fid ty x) k w1"
          using 1 Inr h False by (subst read_loop.simps) (simp add: ibind_Inr k_def)
        have lt: "\<mu> w1 < \<mu> w" using 1(3) Inr h False by simp
        obtain r2 w2 where 2: "field fid ty x w1 = Some (r2, w2)" "\<mu> w2 \<le> \<mu> w1"
          using returnsD [OF assms] by blast
        obtain r3 w3 where 3: "readFieldEnd P w2 = Some (r3, w3)" "\<mu> w3 \<le> \<mu> w2"
          using returnsD [OF total_reads(5)] by blast
        have lt3: "\<mu> w3 < \<mu> w" using lt 2(2) 3(2) by simp
        show ?thesis
        proof (cases r2)
          case (Inl e)
          with step 2 lt show ?thesis by (simp add: ibind_Inl)
        next
          case r2: (Inr y)
          show ?thesis
          proof (cases r3)
            case (Inl e)
            with step 2 3 r2 lt3 show ?thesis by (simp add: ibind_Inr ibind_Inl k_def)
          next
            case (Inr m)
            obtain r4 w4 where "read_loop P field (fst y) (xfer + n + snd y + m) w3 = Some (r4, w4)" "\<mu> w4 \<le> \<mu> w3"
              using less [OF lt3] by blast
            with step 2 3 r2 Inr lt3 show ?thesis by (simp add: ibind_Inr k_def)
          qed
        qed
      qed
    qed
  qed
qed

lemma read_struct_returns:
  "(\<And>fid ty x. returns \<mu> (field fid ty x)) \<Longrightarrow> returns \<mu> (read_struct P field x)"
  unfolding read_struct_def input_tracked_def
  by (intro returning actions read_loop_returns)

lemma read_strings_returns: "returns \<mu> (read_strings P n)"
  by (induction n) (auto intro!: returning actions)

lemma read_string_list_returns: "returns \<mu> (read_string_list P)"
  unfolding read_string_list_def
  by (intro returning actions read_strings_returns)

lemma skip_field_returns: "returns \<mu> (skip_field P ty x)"
  unfolding skip_field_def by (intro returning actions)

lemma read_if_returns: "returns \<mu> rd \<Longrightarrow> returns \<mu> (read_if P ty want rd upd x)"
  unfolding read_if_def by (intro returning actions skip_field_returns)

lemma sequence_id_read_returns: "returns \<mu> (sequence_id_read P s)"
proof -
  have "returns \<mu> (sequence_id_field P fid ty x)" for fid ty x
    unfolding sequence_id_field_def by (intro returning actions read_if_returns skip_field_returns)
  then show ?thesis
    unfolding sequence_id_read_def by (intro returning read_struct_returns)
qed

lemmas readers = read_if_returns skip_field_returns read_string_list_returns sequence_id_read_returns

lemma args_read_returns:
  "returns \<mu> (get_client_id_args_read P)" "returns \<mu> (register_client_id_args_read P x1)"
  "returns \<mu> (async_get_args_read P x2)" "returns \<mu> (async_put_args_read P x3)"
  "returns \<mu> (async_get_batch_args_read P x4)" "returns \<mu> (async_put_batch_args_read P x5)"
  "returns \<mu> (get_args_read P x6)" "returns \<mu> (put_args_read P x7)"
  "returns \<mu> (get_batch_args_read P x8)" "returns \<mu> (put_batch_args_read P x9)"
  unfolding get_client_id_args_read_def register_client_id_args_read_def async_get_args_read_def
    async_put_args_read_def async_get_batch_args_read_def async_put_batch_args_read_def get_args_read_def
    put_args_read_def get_batch_args_read_def put_batch_args_read_def
    register_client_id_args_field_def async_get_args_field_def async_put_args_field_def
    async_get_batch_args_field_def async_put_batch_args_field_def get_args_field_def put_args_field_def
    get_batch_args_field_def put_batch_args_field_def
  by (intro returning actions readers read_struct_returns)+

lemma write_body_returns:
  "(\<And>fs m. fs \<in> set ffs \<Longrightarrow> m \<in> set fs \<Longrightarrow> returns \<mu> m) \<Longrightarrow> returns \<mu> (write_body P name ffs)"
  unfolding write_body_def by (intro returning) (auto intro: actions)

lemma write_string_list_returns: "returns \<mu> (write_string_list P ss)"
  unfolding write_string_list_def by (intro returning) (auto intro: actions)

lemma result_write_returns:
  "returns \<mu> (get_client_id_result_write P r1)" "returns \<mu> (register_client_id_result_write P)"
  "returns \<mu> (get_result_write P r2)" "returns \<mu> (put_result_write P)"
  "returns \<mu> (get_batch_result_write P r3)" "returns \<mu> (put_batch_result_write P)"
  unfolding get_client_id_result_write_def register_client_id_result_write_def get_result_write_def
    put_result_write_def get_batch_result_write_def put_batch_result_write_def
  by (rule write_body_returns;
      auto simp: write_field_def intro: actions write_string_list_returns split: if_splits)+

lemma send_message_returns: "returns \<mu> m \<Longrightarrow> returns \<mu> (send_message P name mty seqid m)"
  unfolding send_message_def end_message_def by (intro returning actions)

end

section \<open>The processor\<close>

text \<open>No event handler is set on the processors of this program.\<close>

lemma notify_returns: "pr_event pr = None \<Longrightarrow> returns \<mu> (notify pr ev)"
  by (auto simp: notify_def returns_def imodify_apply)

lemma with_context_returns:
  "pr_event pr = None \<Longrightarrow> (\<And>ctx. returns \<mu> (body ctx)) \<Longrightarrow> returns \<mu> (with_context pr full cc body)"
  by (simp add: with_context_def)

definition iface_returns :: "('w \<Rightarrow> nat) \<Rightarrow> 'w iface \<Rightarrow> bool" where
  "iface_returns \<mu> i \<longleftrightarrow>
     returns \<mu> (if_get_client_id i) \<and> (\<forall>b c. returns \<mu> (if_register_client_id i b c)) \<and>
     (\<forall>s k. returns \<mu> (if_async_get i s k)) \<and> (\<forall>s k v. returns \<mu> (if_async_put i s k v)) \<and>
     (\<forall>s ks. returns \<mu> (if_async_get_batch i s ks)) \<and> (\<forall>s ks vs. returns \<mu> (if_async_put_batch i s ks vs)) \<and>
     (\<forall>k. returns \<mu> (if_get i k)) \<and> (\<forall>k v. returns \<mu> (if_put i k v)) \<and>
     (\<forall>ks. returns \<mu> (if_get_batch i ks)) \<and> (\<forall>ks vs. returns \<mu> (if_put_batch i ks vs))"

locale server_total = inp: thrift_total ip \<mu> + outp: thrift_total oprt \<mu>
  for ip oprt :: "'w tproto" and \<mu> +
  fixes pr :: "'w processor"
  assumes no_event: "pr_event pr = None"
    and iface_total: "iface_returns \<mu> (pr_iface pr)"
begin

lemma read_arguments_returns:
  "returns \<mu> rd \<Longrightarrow> returns \<mu> (read_arguments pr ip full ctx rd)"
  unfolding read_arguments_def
  by (intro returning inp.actions notify_returns no_event)

lemma process_call_returns:
  "returns \<mu> rd \<Longrightarrow> (\<And>args. returns \<mu> (call args)) \<Longrightarrow> (\<And>r. returns \<mu> (wr r)) \<Longrightarrow>
   returns \<mu> (process_call pr ip oprt name full seqid cc rd call wr)"
  unfolding process_call_def
  by (intro with_context_returns returning read_arguments_returns notify_returns no_event
      outp.send_message_returns outp.actions)

lemma process_oneway_returns:
  "returns \<mu> rd \<Longrightarrow> (\<And>args. returns \<mu> (call args)) \<Longrightarrow>
   returns \<mu> (process_oneway pr ip full cc rd call)"
  unfolding process_oneway_def
  by (intro with_context_returns returning read_arguments_returns notify_returns no_event)

lemma process_map_returns:
  "process_map pr fname = Some f \<Longrightarrow> returns \<mu> (f seqid ip oprt cc)"
  using iface_total
  by (auto simp: process_map_def iface_returns_def process_get_client_id_def process_register_client_id_def
      process_async_get_def process_async_put_def process_async_get_batch_def process_async_put_batch_def
      process_get_def process_put_def process_get_batch_def process_put_batch_def
      intro!: process_call_returns process_oneway_returns inp.args_read_returns outp.result_write_returns
      split: if_splits)

lemma dispatchCall_returns: "returns \<mu> (dispatchCall pr ip oprt fname seqid cc)"
proof -
  have "returns \<mu> (end_reply ip)" unfolding end_reply_def by (intro returning inp.actions)
  then have "returns \<mu> (case process_map pr fname of None \<Rightarrow>
      ithen (skip ip T_STRUCT) (ithen (end_reply ip)
        (ithen (send_message oprt fname T_EXCEPTION seqid
          (write_exception oprt UNKNOWN_METHOD (''Invalid method name: '' @ CHR 0x27 # fname @ [CHR 0x27])))
        (iret True)))
    | Some f \<Rightarrow> ithen (f seqid ip oprt cc) (iret True))"
  proof (cases "process_map pr fname")
    case None
    with \<open>returns \<mu> (end_reply ip)\<close> show ?thesis
      by (auto intro!: returning inp.actions outp.actions outp.send_message_returns)
  next
    case (Some f)
    then show ?thesis by (auto intro!: returning process_map_returns)
  qed
  then show ?thesis by (simp add: dispatchCall_def dispatch_on_def)
qed

end

section \<open>The tokens\<close>

text \<open>On a connection of tokens the measure is their number.\<close>

definition unread :: "'h wired \<Rightarrow> nat" where
  "unread w = length (w_in (fst w))"

lemma next_token_unread:
  "\<exists>r w'. next_token f w = Some (r, w') \<and> unread w' \<le> unread w \<and> (\<forall>x. r = Inr x \<longrightarrow> unread w' < unread w)"
  by (cases w) (auto simp: next_token_def unread_def split: list.splits option.splits)

lemma next_token_returns: "returns unread (next_token f)"
  using next_token_unread [of f] unfolding returns_def by blast

lemma exactly_returns: "returns unread (exactly t)"
  unfolding exactly_def by (rule next_token_returns)

lemma put_token_returns: "returns unread (put_token t)"
  by (auto simp: returns_def put_token_def unread_def)

lemmas token_returns = next_token_returns exactly_returns put_token_returns

lemma drop_nested_shorter: "drop_nested n ts = Some rest \<Longrightarrow> length rest \<le> length ts"
  by (induction n ts arbitrary: rest rule: drop_nested.induct) (fastforce split: token.splits)+

lemma drop_value_shorter: "drop_value ts = Some rest \<Longrightarrow> length rest \<le> length ts"
  by (cases ts rule: drop_value.cases) (auto dest: drop_nested_shorter)

lemma token_skip_returns: "returns unread (token_skip ty)"
  by (auto simp: returns_def token_skip_def unread_def split: option.splits dest: drop_value_shorter)

interpretation tok_total: thrift_total token_proto unread
proof
  fix w :: "'h wired"
  show "\<exists>r w'. readFieldBegin token_proto w = Some (r, w') \<and> unread w' \<le> unread w \<and>
      (\<forall>ty fid n. r = Inr ((ty, fid), n) \<longrightarrow> ty \<noteq> T_STOP \<longrightarrow> unread w' < unread w)"
    using next_token_unread by (fastforce simp: token_proto_def)
qed (simp_all add: token_proto_def token_returns token_skip_returns returns_iret,
    auto simp: returns_def unread_def)

interpretation tok_null_total: server_total token_proto token_proto unread "plain_processor null_iface"
  by unfold_locales (simp_all add: plain_processor_def iface_returns_def null_iface_def returns_iret)

section \<open>Every message is got through\<close>


definition broken_message :: "token list" where
  "broken_message =
     [Tk_StructBegin, Tk_Field T_LIST 1, Tk_ListBegin T_I32 7, Tk_String ''a'', Tk_StructBegin, Tk_Stop,
      Tk_Field T_STRUCT 9]"


end
