(* ===== verification/Api_Serving.thy ===== *)
theory Api_Serving
  imports Api_Refinement
begin

text \<open>
  The calls with one consumer thread behind the queue: \<open>serving\<close> relates the state the calls
  see to a run of the consumer, and the results of the calls are those of a plain map.
\<close>

section \<open>Serving\<close>

text \<open>
  The rest \<open>'z\<close> of the state the calls see holds what the consumer thread keeps for itself,
  read by \<open>priv\<close>; the fields it shares with the calls are those of the proxy.
\<close>

definition consumer_of :: "('z \<Rightarrow> 'st consumer) \<Rightarrow> ('st, 'z) api_scheme \<Rightarrow> 'st consumer" where
  "consumer_of priv w =
     (priv (api.more w))\<lparr>cs_queue := hd (ap_operation_queues w), cs_promises := ap_promises w,
        cs_proxy := ap_proxy w, cs_storage := ap_storage w, cs_finished := ap_finished w\<rparr>"

lemma consumer_of_simps [simp]:
  "cs_queue (consumer_of priv w) = hd (ap_operation_queues w)"
  "cs_promises (consumer_of priv w) = ap_promises w"
  "cs_proxy (consumer_of priv w) = ap_proxy w"
  "cs_storage (consumer_of priv w) = ap_storage w"
  "cs_finished (consumer_of priv w) = ap_finished w"
  by (simp_all add: consumer_of_def)

text \<open>\<open>subs\<close> are the requests queued so far.\<close>

definition serving ::
    "'st env \<Rightarrow> (string \<Rightarrow> bool) \<Rightarrow> 'st consumer \<Rightarrow> ('z \<Rightarrow> 'st consumer) \<Rightarrow> ('st, 'z) api_scheme \<Rightarrow>
     (operation \<times> nat) list \<Rightarrow> bool" where
  "serving E valid s0 priv w subs \<longleftrightarrow>
     length (ap_operation_queues w) = 1 \<and> dom (ap_promises w) = {..<ap_next_promise w} \<and>
     (\<exists>hist. consumer_run E (op_ok valid (cs_proxy s0)) labels_distinct s0 subs hist (consumer_of priv w))"

text \<open>While a call waits, the consumer runs on and other threads may queue more requests.\<close>

definition waits_serving ::
    "'st env \<Rightarrow> (string \<Rightarrow> bool) \<Rightarrow> 'st consumer \<Rightarrow> ('z \<Rightarrow> 'st consumer) \<Rightarrow> ('st, 'z) waiting \<Rightarrow> bool" where
  "waits_serving E valid s0 priv wait \<longleftrightarrow>
     (\<forall>w p w' subs. serving E valid s0 priv w subs \<longrightarrow> wait w p = Some w' \<longrightarrow>
        (\<exists>subs'. serving E valid s0 priv w' (subs @ subs')))"

text \<open>The start: an idle consumer whose tables and storage hold the map \<open>V0\<close>.\<close>

definition served_map ::
    "'st env \<Rightarrow> ('st \<Rightarrow> string \<rightharpoonup> string) \<Rightarrow> ('st \<Rightarrow> bool) \<Rightarrow> (string \<Rightarrow> bool) \<Rightarrow> 'st consumer \<Rightarrow>
     (string \<Rightarrow> string) \<Rightarrow> bool" where
  "served_map E view sound valid s0 V0 \<longleftrightarrow>
     consumer_initial s0 \<and> sound (cs_storage s0) \<and> proxy_wf (cs_proxy s0) \<and>
     px_missing_new_replicas (cs_proxy s0) = Map.empty \<and> dists_ok (cs_proxy s0) \<and>
     holds E (cs_proxy s0) (view (cs_storage s0)) V0 \<and>
     (\<forall>k. 0 < replicas (cs_proxy s0) k \<longrightarrow> valid (V0 k))"

text \<open>The map after some requests, and the answer to a request in it.\<close>

abbreviation map_after :: "(string \<Rightarrow> string) \<Rightarrow> (operation \<times> nat) list \<Rightarrow> string \<Rightarrow> string" where
  "map_after V0 subs \<equiv> snd (spec_run V0 (map fst subs))"

definition answer_in :: "(string \<Rightarrow> string) \<Rightarrow> operation \<Rightarrow> string" where
  "answer_in V oper = spec_step V oper (op_key oper)"

section \<open>Answers\<close>

lemma serving_answer:
  assumes rs: "replica_store E view sound valid" and sm: "served_map E view sound valid s0 V0"
    and sv: "serving E valid s0 priv w subs" and at: "subs = before @ (oper, p) # after"
    and v: "ap_promises w p = Some (Some v)"
  shows "v = answer_in (map_after V0 before) oper"
proof -
  obtain hist s where run: "consumer_run E (op_ok valid (cs_proxy s0)) labels_distinct s0 subs hist s"
      and w: "s = consumer_of priv w"
    using sv by (auto simp: serving_def)
  have init: "replica_store.value_inv E view sound valid (cs_proxy s0) V0 batch_empty s0"
    by (rule replica_store.value_inv_initial [OF rs]) (use sm in \<open>simp_all add: served_map_def\<close>)
  have q: "queue_inv subs hist s" using run sm by (auto simp: served_map_def intro: queue_inv_run)
  have "replica_store.value_inv E view sound valid (cs_proxy s0) V0 hist s"
    by (rule replica_store.value_inv_run [OF rs run _ init]) (use sm in \<open>simp_all add: served_map_def\<close>)
  from replica_store.run_values [OF rs q this] obtain n where
      n: "map (cs_promises s) (map snd (take n subs))
        = map (\<lambda>a. Some (Some a)) (fst (spec_run V0 (map fst (take n subs))))"
      "\<forall>r\<in>set (drop n subs). cs_promises s (snd r) = Some None"
    by blast
  have len: "length before < n"
  proof (rule ccontr)
    assume "\<not> length before < n"
    then have "(oper, p) \<in> set (drop n subs)" by (simp add: at)
    with n(2) v w show False by auto
  qed
  then obtain m where m: "n = Suc (length before) + m" using less_iff_Suc_add by auto
  have tk: "take n subs = before @ (oper, p) # take m after" by (simp add: m at)
  have "cs_promises s p = Some (Some (answer_in (map_after V0 before) oper))"
    using arg_cong [OF n(1), of "\<lambda>l. l ! length before"]
    by (simp add: tk spec_run_append nth_append Let_def split_beta answer_in_def)
  with v w show ?thesis by simp
qed

lemma serving_length:
  assumes "consumer_initial s0" and "serving E valid s0 priv w subs"
  shows "length subs = ap_next_promise w"
proof -
  obtain hist where "consumer_run E (op_ok valid (cs_proxy s0)) labels_distinct s0 subs hist (consumer_of priv w)"
      and d: "dom (ap_promises w) = {..<ap_next_promise w}"
    using assms(2) by (auto simp: serving_def)
  note q = queue_inv_run [OF this(1) assms(1)]
  have "distinct (map snd subs)" by (rule queue_invD(7) [OF q])
  moreover have "dom (ap_promises w) = set (map snd subs)" using queue_invD(8) [OF q] by simp
  ultimately show ?thesis
    using d distinct_card [of "map snd subs"] card_lessThan [of "ap_next_promise w"] by simp
qed

section \<open>Known keys stay known\<close>

abbreviation known_keys :: "proxy_state \<Rightarrow> string set" where
  "known_keys p \<equiv> dom (px_key_to_frequency p)"

lemma choose_replicas_known:
  "choose_replicas ops ts p g = Inr (rids, ss, p', g') \<Longrightarrow> known_keys p \<subseteq> known_keys p'"
proof (induction ops arbitrary: ts p g rids ss p' g')
  case (Cons oper ops)
  obtain t ts' where ts: "ts = t # ts'" using Cons.prems by (cases ts) auto
  obtain n nrs where n: "map_at 0 (px_key_to_number_of_replicas p) (op_key oper) = (n, nrs)" by fastforce
  obtain f freqs where f: "map_at 0 (px_key_to_frequency p) (op_key oper) = (f, freqs)" by fastforce
  let ?p1 = "p\<lparr>px_key_to_number_of_replicas := nrs, px_key_to_frequency := freqs\<rparr>"
  obtain rid g1 rids' ss' where
      "choose_replicas ops ts' (?p1\<lparr>px_replica_to_label :=
         snd (map_at 0 (px_replica_to_label ?p1) (replica_name (op_key oper) rid))\<rparr>) g1 = Inr (rids', ss', p', g')"
    using Cons.prems by (auto simp: ts n f Let_def rbind_Inr_iff split_beta)
  from Cons.IH [OF this] show ?case
    using dom_map_at [of 0 "px_key_to_frequency p" "op_key oper"] by (auto simp: f)
qed auto

lemma apply_update_known:
  "apply_update oper rid x p = Inr (y, p') \<Longrightarrow> px_key_to_frequency p' = px_key_to_frequency p"
  by (auto simp: apply_update_def Let_def split_beta rbind_Inr_iff split: if_splits)

lemma process_responses_known:
  "process_responses E ops rids resps ts ps p st = Inr (vs, p', st') \<Longrightarrow>
   px_key_to_frequency p' = px_key_to_frequency p"
proof (induction E ops rids resps ts ps p st arbitrary: vs p' st' rule: process_responses.induct)
  case (2 E oper ops rid rids cph resps t ts promises p ps)
  from "2.prems" obtain x y p1 promises' ps1 c vs1 ps2 where
      1: "env_decrypt E cph = Inr x" "apply_update oper rid x p = Inr (y, p1)"
      "fulfil t promises y ps = Inr (promises', ps1)" "env_encrypt E y = Inr c"
      "process_responses E ops rids resps ts promises' p1 ps1 = Inr (vs1, p', ps2)"
    by (auto simp: rbind_Inr_iff)
  from "2.IH" [OF 1(1) 1(2) refl 1(3) refl 1(4) 1(5)] apply_update_known [OF 1(2)] show ?case by simp
qed auto

lemma execute_batch_known:
  "execute_batch E ops ts ps p st g pr = Inr (p', st', g', pr') \<Longrightarrow> known_keys p \<subseteq> known_keys p'"
  by (auto simp: execute_batch_def rbind_Inr_iff split_beta
      dest!: choose_replicas_known process_responses_known)

lemma consumer_step_known: "consumer_step E s = Inr s' \<Longrightarrow> known_keys (cs_proxy s) \<subseteq> known_keys (cs_proxy s')"
proof -
  assume step: "consumer_step E s = Inr s'"
  show ?thesis
  proof (cases "executes s")
    case True
    then have "consumer_execute E s = Inr s'" using step by (simp add: executes_def consumer_step_def)
    then show ?thesis
      by (auto simp: consumer_execute_def Let_def rbind_Inr_iff dest!: execute_batch_known)
  next
    case False
    then have "cs_proxy s' = cs_proxy s"
      using step by (cases "cs_point s") (auto simp: consumer_step_def executes_def rbind_Inr_iff split: if_splits)
    then show ?thesis by simp
  qed
qed

lemma consumer_run_known:
  "consumer_run E A P s0 subs hist s \<Longrightarrow> known_keys (cs_proxy s0) \<subseteq> known_keys (cs_proxy s)"
proof (induction rule: consumer_run.induct)
  case (run_step subs hist s s')
  then show ?case using consumer_step_known by blast
qed (simp_all add: submit_def)

lemma serving_known: "serving E valid s0 priv w subs \<Longrightarrow> known_keys (cs_proxy s0) \<subseteq> known_keys (ap_proxy w)"
  unfolding serving_def using consumer_run_known by fastforce

text \<open>A key that calls may use: it has replicas and a frequency.\<close>

definition served_key :: "'st consumer \<Rightarrow> string \<Rightarrow> bool" where
  "served_key s0 k \<longleftrightarrow> 0 < replicas (cs_proxy s0) k \<and> k \<in> known_keys (cs_proxy s0)"

section \<open>Queueing\<close>

lemma push_request_serving:
  assumes sv: "serving E valid s0 priv w subs" and ok: "op_ok valid (cs_proxy s0) oper"
  shows "\<exists>w'. push_request q oper w = Some (Inr (Some (ap_next_promise w)), w') \<and>
    serving E valid s0 priv w' (subs @ [(oper, ap_next_promise w)]) \<and> ap_proxy w' = ap_proxy w"
proof -
  let ?p = "ap_next_promise w"
  obtain hist where run: "consumer_run E (op_ok valid (cs_proxy s0)) labels_distinct s0 subs hist (consumer_of priv w)"
      and d: "dom (ap_promises w) = {..<?p}" and len: "length (ap_operation_queues w) = 1"
    using sv by (auto simp: serving_def)
  obtain opq where opq: "ap_operation_queues w = [opq]" using len by (auto simp: length_Suc_conv)
  have idx: "queue_index q (length (ap_operation_queues w)) = Inr 0"
    by (simp add: opq queue_index_def)
  let ?w' = "w\<lparr>ap_next_promise := Suc ?p, ap_promises := (ap_promises w)(?p \<mapsto> None),
      ap_operation_queues := (ap_operation_queues w)[0 := queue_push (oper, ?p) (ap_operation_queues w ! 0)]\<rparr>"
  have m: "push_request q oper w = Some (Inr (Some ?p), ?w')"
    by (simp add: push_request_def idx Let_def)
  have "ap_promises w ?p = None" using d by (metis domI lessThan_iff less_irrefl option.exhaust)
  then have fresh: "cs_promises (consumer_of priv w) ?p = None" by simp
  have "consumer_of priv ?w' = submit oper ?p (consumer_of priv w)"
    by (simp add: consumer_of_def submit_def opq)
  moreover have "dom (ap_promises ?w') = {..<ap_next_promise ?w'}" using d by (auto simp: lessThan_Suc)
  ultimately have "serving E valid s0 priv ?w' (subs @ [(oper, ?p)])"
    unfolding serving_def using run_submit [OF run ok fresh] len by auto
  with m show ?thesis by auto
qed

lemma get_future_serving:
  assumes "serving E valid s0 priv w subs" and "served_key s0 k"
  shows "\<exists>w'. get_future q k w = Some (Inr (Some (ap_next_promise w)), w') \<and>
    serving E valid s0 priv w' (subs @ [(\<lparr>op_key = k, op_value = []\<rparr>, ap_next_promise w)])"
proof -
  have "px_key_to_frequency (ap_proxy w) k \<noteq> None"
    using serving_known [OF assms(1)] assms(2) by (auto simp: served_key_def)
  then show ?thesis
    using push_request_serving [OF assms(1), where oper = "\<lparr>op_key = k, op_value = []\<rparr>"] assms(2)
    by (auto simp: get_future_def ibind_def iget_apply op_ok_def served_key_def)
qed

lemma put_future_serving:
  assumes "serving E valid s0 priv w subs" and "0 < replicas (cs_proxy s0) k" and "v = [] \<or> valid v"
  shows "\<exists>w'. put_future q k v w = Some (Inr (Some (ap_next_promise w)), w') \<and>
    serving E valid s0 priv w' (subs @ [(\<lparr>op_key = k, op_value = v\<rparr>, ap_next_promise w)]) \<and> ap_proxy w' = ap_proxy w"
  using push_request_serving [OF assms(1), where oper = "\<lparr>op_key = k, op_value = v\<rparr>"] assms(2,3)
  by (simp add: put_future_def op_ok_def)

section \<open>Waiting\<close>

lemma future_get_answers:
  assumes "replica_store E view sound valid" and "served_map E view sound valid s0 V0"
    and "waits_serving E valid s0 priv wait"
    and "serving E valid s0 priv w (before @ (oper, p) # after)" and "future_get wait (Some p) w = Some (r, w')"
  shows "r = Inr (answer_in (map_after V0 before) oper) \<and>
    (\<exists>more. serving E valid s0 priv w' (before @ (oper, p) # after @ more))"
proof -
  from assms(5) obtain v where v: "wait w p = Some w'" "ap_promises w' p = Some (Some v)" "r = Inr v"
    by (auto simp: future_get_def Option.bind_eq_Some_conv split: option.split_asm)
  with assms(3,4) obtain more where "serving E valid s0 priv w' ((before @ (oper, p) # after) @ more)"
    unfolding waits_serving_def by blast
  with serving_answer [OF assms(1,2) this, of before oper p "after @ more" v] v show ?thesis by auto
qed

lemma get_all_answers:
  assumes "replica_store E view sound valid" and "served_map E view sound valid s0 V0"
    and "waits_serving E valid s0 priv wait"
    and "serving E valid s0 priv w subs"
    and "list_all2 (\<lambda>p (before, oper). \<exists>after. subs = before @ (oper, p) # after) ps xs"
    and "get_all wait (map Some ps) w = Some (r, w')"
  shows "r = Inr (map (\<lambda>(before, oper). answer_in (map_after V0 before) oper) xs) \<and>
    (\<exists>more. serving E valid s0 priv w' (subs @ more))"
  using assms(4-6)
proof (induction ps arbitrary: xs w subs r w')
  case Nil
  then show ?case by (auto simp: get_all_def iret_apply intro: exI [of _ "[]"])
next
  case (Cons p ps)
  obtain before oper ys rest where xs: "xs = (before, oper) # ys" and at: "subs = before @ (oper, p) # rest"
      and ys: "list_all2 (\<lambda>p (before, oper). \<exists>after. subs = before @ (oper, p) # after) ps ys"
    using Cons.prems(2) by (auto simp: list_all2_Cons1)
  obtain r1 w1 where 1: "future_get wait (Some p) w = Some (r1, w1)"
    using Cons.prems(3) by (cases "future_get wait (Some p) w") (auto simp: get_all_def ibind_None)
  obtain more where r1: "r1 = Inr (answer_in (map_after V0 before) oper)"
      and sv: "serving E valid s0 priv w1 (subs @ more)"
    using future_get_answers [OF assms(1-3) Cons.prems(1) [unfolded at] 1] by (auto simp: at)
  obtain r2 w2 where 2: "get_all wait (map Some ps) w1 = Some (r2, w2)"
    using Cons.prems(3)
    by (cases "get_all wait (map Some ps) w1") (auto simp: get_all_def 1 r1 ibind_Inr ibind_None)
  have "list_all2 (\<lambda>p (before, oper). \<exists>after. subs @ more = before @ (oper, p) # after) ps ys"
    using ys by (rule list_all2_mono) auto
  from Cons.IH [OF sv this 2] obtain more' where
      r2: "r2 = Inr (map (\<lambda>(before, oper). answer_in (map_after V0 before) oper) ys)"
      and sv': "serving E valid s0 priv w2 ((subs @ more) @ more')"
    by blast
  have "r = Inr (map (\<lambda>(before, oper). answer_in (map_after V0 before) oper) xs) \<and> w' = w2"
    using Cons.prems(3) 1 2 by (simp add: get_all_def r1 r2 xs ibind_Inr iret_apply)
  with sv' show ?case by (metis append.assoc)
qed

section \<open>Calls\<close>

abbreviation reads :: "string list \<Rightarrow> operation list" where
  "reads ks \<equiv> map (\<lambda>k. \<lparr>op_key = k, op_value = []\<rparr>) ks"

abbreviation writes :: "string list \<Rightarrow> string list \<Rightarrow> operation list" where
  "writes ks vs \<equiv> map2 (\<lambda>k v. \<lparr>op_key = k, op_value = v\<rparr>) ks vs"

lemma get_futures_serving:
  assumes "serving E valid s0 priv w subs"
    and "\<forall>k\<in>set ks. served_key s0 k"
  shows "\<exists>ps w'. get_futures q ks w = Some (Inr (map Some ps), w') \<and> length ps = length ks \<and>
    serving E valid s0 priv w' (subs @ zip (reads ks) ps)"
  using assms
proof (induction ks arbitrary: w subs)
  case (Cons k ks)
  obtain w1 where 1: "get_future q k w = Some (Inr (Some (ap_next_promise w)), w1)"
      "serving E valid s0 priv w1 (subs @ [(\<lparr>op_key = k, op_value = []\<rparr>, ap_next_promise w)])"
    using get_future_serving [OF Cons.prems(1), of k q] Cons.prems(2) by auto
  obtain ps w2 where 2: "get_futures q ks w1 = Some (Inr (map Some ps), w2)" "length ps = length ks"
      "serving E valid s0 priv w2 ((subs @ [(\<lparr>op_key = k, op_value = []\<rparr>, ap_next_promise w)]) @ zip (reads ks) ps)"
    using Cons.IH [OF 1(2)] Cons.prems(2) by auto
  show ?case
    by (rule exI [of _ "ap_next_promise w # ps"], rule exI [of _ w2])
      (use 1 2 in \<open>simp add: get_futures_def ibind_Inr iret_apply\<close>)
qed (simp add: get_futures_def iret_apply)

lemma put_futures_serving:
  assumes "serving E valid s0 priv w subs" and "length ks \<le> length vs"
    and "\<forall>k\<in>set ks. 0 < replicas (cs_proxy s0) k" and "\<forall>v\<in>set vs. v = [] \<or> valid v"
  shows "\<exists>ps w'. put_futures q ks vs w = Some (Inr (map Some ps), w') \<and> length ps = length ks \<and>
    serving E valid s0 priv w' (subs @ zip (writes ks vs) ps)"
  using assms
proof (induction ks arbitrary: vs w subs)
  case (Cons k ks)
  obtain v us where vs: "vs = v # us" using Cons.prems(2) by (cases vs) auto
  obtain w1 where 1: "put_future q k v w = Some (Inr (Some (ap_next_promise w)), w1)"
      "serving E valid s0 priv w1 (subs @ [(\<lparr>op_key = k, op_value = v\<rparr>, ap_next_promise w)])"
    using put_future_serving [OF Cons.prems(1), of k v q] Cons.prems(3,4) vs by auto
  obtain ps w2 where 2: "put_futures q ks us w1 = Some (Inr (map Some ps), w2)" "length ps = length ks"
      "serving E valid s0 priv w2 ((subs @ [(\<lparr>op_key = k, op_value = v\<rparr>, ap_next_promise w)]) @ zip (writes ks us) ps)"
    using Cons.IH [OF 1(2), of us] Cons.prems vs by auto
  show ?case
    by (rule exI [of _ "ap_next_promise w # ps"], rule exI [of _ w2])
      (use 1 2 in \<open>simp add: vs ibind_Inr iret_apply\<close>)
qed (simp add: iret_apply)

text \<open>The requests of one call, each with what was queued before it.\<close>

lemma positions:
  "length ops = length ps \<Longrightarrow>
   list_all2 (\<lambda>p (before, oper). \<exists>after. subs @ zip ops ps = before @ (oper, p) # after) ps
     (map (\<lambda>i. (subs @ zip (take i ops) (take i ps), ops ! i)) [0..<length ops])"
proof (rule list_all2_all_nthI)
  fix i assume len: "length ops = length ps" and i: "i < length ps"
  have "zip ops ps = take i (zip ops ps) @ zip ops ps ! i # drop (Suc i) (zip ops ps)"
    by (rule id_take_nth_drop) (simp add: len i)
  then have "subs @ zip ops ps
      = (subs @ zip (take i ops) (take i ps)) @ (ops ! i, ps ! i) # drop (Suc i) (zip ops ps)"
    by (simp add: len i take_zip)
  then show "case map (\<lambda>i. (subs @ zip (take i ops) (take i ps), ops ! i)) [0..<length ops] ! i of
      (before, oper) \<Rightarrow> \<exists>after. subs @ zip ops ps = before @ (oper, ps ! i) # after"
    using len i by auto
qed simp

lemma call_answers:
  assumes "replica_store E view sound valid" and "served_map E view sound valid s0 V0"
    and "waits_serving E valid s0 priv wait"
    and "serving E valid s0 priv w (subs @ zip ops ps)" and "length ops = length ps"
    and "get_all wait (map Some ps) w = Some (r, w')"
  shows "r = Inr (map (\<lambda>i. answer_in (snd (spec_run V0 (map fst subs @ take i ops))) (ops ! i)) [0..<length ops]) \<and>
    (\<exists>more. serving E valid s0 priv w' (subs @ zip ops ps @ more))"
  using get_all_answers [OF assms(1-4) positions [OF assms(5)] assms(6)] assms(5)
  by (simp add: comp_def)

text \<open>Reads leave the map alone.\<close>

lemma spec_run_reads: "snd (spec_run V (reads ks)) = V"
  by (induction ks) (simp_all add: Let_def split_beta spec_step_def)

lemma answers_of_reads:
  "map (\<lambda>i. answer_in (snd (spec_run V0 (before @ take i (reads ks)))) (reads ks ! i)) [0..<length ks]
     = map (snd (spec_run V0 before)) ks"
  by (rule nth_equalityI)
    (simp_all add: spec_run_append spec_run_reads answer_in_def spec_step_def take_map)

lemma get_batch_serving:
  assumes "replica_store E view sound valid" and "served_map E view sound valid s0 V0"
    and "waits_serving E valid s0 priv wait" and "serving E valid s0 priv w subs"
    and "\<forall>k\<in>set ks. served_key s0 k"
    and "api_get_batch wait q ks w = Some (r, w')"
  shows "r = Inr (map (map_after V0 subs) ks) \<and>
    (\<exists>ps more. serving E valid s0 priv w' (subs @ zip (reads ks) ps @ more))"
proof -
  obtain ps w1 where 1: "get_futures q ks w = Some (Inr (map Some ps), w1)" "length ps = length ks"
      "serving E valid s0 priv w1 (subs @ zip (reads ks) ps)"
    using get_futures_serving [OF assms(4,5)] by blast
  then have "get_all wait (map Some ps) w1 = Some (r, w')"
    using assms(6) by (simp add: api_get_batch_def ibind_Inr)
  from call_answers [OF assms(1-3) 1(3) _ this] 1(2) show ?thesis
    by (auto simp: answers_of_reads)
qed

section \<open>Waiting by running the consumer\<close>

text \<open>
  The \<open>wait\<close> in which nothing but the consumer runs, for at most \<open>n\<close> steps, until promise
  \<open>p\<close> has its value. It gives up at a batch that chooses a label twice.
\<close>

definition labels_ok :: "'st consumer \<Rightarrow> bool" where
  "labels_ok s \<longleftrightarrow>
     (if executes s then
        (case choose_replicas (b_ops (cs_batch s)) (b_trues (cs_batch s)) (cs_proxy s) (cs_rng s) of
           Inl e \<Rightarrow> True | Inr (rids, ss, p1, g1) \<Rightarrow> distinct ss)
      else True)"

lemma labels_ok_distinct: "labels_ok s \<Longrightarrow> labels_distinct s"
  by (auto simp: labels_ok_def labels_distinct_def)

fun consume_until :: "nat \<Rightarrow> 'st env \<Rightarrow> nat \<Rightarrow> 'st consumer \<Rightarrow> 'st consumer option" where
  "consume_until 0 E p s = None"
| "consume_until (Suc n) E p s =
     (if (case cs_promises s p of Some (Some v) \<Rightarrow> True | _ \<Rightarrow> False) then Some s
      else if labels_ok s then
        (case consumer_step E s of Inl e \<Rightarrow> None | Inr s' \<Rightarrow> consume_until n E p s')
      else None)"

text \<open>\<open>upd\<close> stores the consumer's own state in the rest of the world.\<close>

definition consumer_back ::
    "('st consumer \<Rightarrow> 'z \<Rightarrow> 'z) \<Rightarrow> 'st consumer \<Rightarrow> ('st, 'z) api_scheme \<Rightarrow> ('st, 'z) api_scheme" where
  "consumer_back upd s w =
     w\<lparr>api.more := upd s (api.more w), ap_operation_queues := [cs_queue s], ap_promises := cs_promises s,
       ap_proxy := cs_proxy s, ap_storage := cs_storage s, ap_finished := cs_finished s\<rparr>"

definition consumer_wait ::
    "('z \<Rightarrow> 'st consumer) \<Rightarrow> ('st consumer \<Rightarrow> 'z \<Rightarrow> 'z) \<Rightarrow> nat \<Rightarrow> 'st env \<Rightarrow> ('st, 'z) waiting" where
  "consumer_wait priv upd n E w p =
     map_option (\<lambda>s. consumer_back upd s w) (consume_until n E p (consumer_of priv w))"

lemma consumer_of_back: "(\<And>s z. priv (upd s z) = s) \<Longrightarrow> consumer_of priv (consumer_back upd s w) = s"
  by (simp add: consumer_of_def consumer_back_def)

lemma consume_until_run:
  assumes "consume_until n E p s = Some s'" and "consumer_run E A labels_distinct s0 subs hist s"
  shows "\<exists>hist'. consumer_run E A labels_distinct s0 subs hist' s'"
  using assms
proof (induction n arbitrary: s hist)
  case (Suc n)
  then show ?case
    by (auto split: if_splits sum.split_asm) (metis labels_ok_distinct run_step)
qed simp

lemma waits_serving_consumer:
  assumes "consumer_initial s0" and "\<And>s z. priv (upd s z) = s"
  shows "waits_serving E valid s0 priv (consumer_wait priv upd n E)"
  unfolding waits_serving_def
proof (intro allI impI)
  fix w p w' subs
  assume sv: "serving E valid s0 priv w subs" and c: "consumer_wait priv upd n E w p = Some w'"
  obtain s where s: "consume_until n E p (consumer_of priv w) = Some s" "w' = consumer_back upd s w"
    using c by (auto simp: consumer_wait_def)
  obtain hist where run: "consumer_run E (op_ok valid (cs_proxy s0)) labels_distinct s0 subs hist (consumer_of priv w)"
      and d: "dom (ap_promises w) = {..<ap_next_promise w}"
    using sv by (auto simp: serving_def)
  obtain hist' where run': "consumer_run E (op_ok valid (cs_proxy s0)) labels_distinct s0 subs hist' s"
    using consume_until_run [OF s(1) run] by blast
  have "consumer_of priv w' = s" unfolding s(2) by (simp add: consumer_of_back [of priv upd] assms(2))
  moreover have "dom (cs_promises s) = set (map snd subs)" "dom (ap_promises w) = set (map snd subs)"
    using queue_invD(8) [OF queue_inv_run [OF run' assms(1)]] queue_invD(8) [OF queue_inv_run [OF run assms(1)]]
    by simp_all
  ultimately have "serving E valid s0 priv w' (subs @ [])"
    using run' d by (auto simp: serving_def s(2) consumer_back_def)
  then show "\<exists>subs'. serving E valid s0 priv w' (subs @ subs')" by blast
qed

section \<open>What a batch of reads queues\<close>

text \<open>The requests of one call go to one queue, in the order of the keys, each with a new promise.\<close>

lemma get_futures_known:
  assumes "ap_operation_queues w \<noteq> []" and "\<forall>k\<in>set ks. px_key_to_frequency (ap_proxy w) k \<noteq> None"
  defines "n \<equiv> length (ap_operation_queues w)" and "next \<equiv> ap_next_promise w"
  shows "\<exists>w'. get_futures q ks w = Some (Inr (map Some [next..<next + length ks]), w') \<and>
    ap_proxy w' = ap_proxy w \<and> ap_next_promise w' = next + length ks \<and>
    length (ap_operation_queues w') = n \<and>
    m_queue (ap_operation_queues w' ! (nat (sint q mod 2 ^ 64) mod n))
      = m_queue (ap_operation_queues w ! (nat (sint q mod 2 ^ 64) mod n)) @ zip (reads ks) [next..<next + length ks] \<and>
    (\<forall>p\<in>{next..<next + length ks}. ap_promises w' p = Some None) \<and>
    (\<forall>p<next. ap_promises w' p = ap_promises w p)"
  using assms(1,2) unfolding n_def next_def
proof (induction ks arbitrary: w)
  case (Cons k ks)
  let ?n = "length (ap_operation_queues w)" and ?p = "ap_next_promise w" and ?qs = "ap_operation_queues w"
  let ?i = "nat (sint q mod 2 ^ 64) mod ?n"
  have i: "?i < ?n" using Cons.prems(1) by simp
  let ?w1 = "w\<lparr>ap_next_promise := Suc ?p, ap_promises := (ap_promises w)(?p \<mapsto> None),
      ap_operation_queues := ?qs[?i := queue_push (\<lparr>op_key = k, op_value = []\<rparr>, ?p) (?qs ! ?i)]\<rparr>"
  have 1: "get_future q k w = Some (Inr (Some ?p), ?w1)"
    using Cons.prems by (auto simp: get_future_def push_request_def queue_index_def ibind_def iget_apply Let_def)
  obtain w' where 2: "get_futures q ks ?w1 = Some (Inr (map Some [Suc ?p..<Suc ?p + length ks]), w')"
      "ap_proxy w' = ap_proxy w" "ap_next_promise w' = Suc ?p + length ks" "length (ap_operation_queues w') = ?n"
      "m_queue (ap_operation_queues w' ! ?i)
        = m_queue (?qs ! ?i) @ (\<lparr>op_key = k, op_value = []\<rparr>, ?p) # zip (reads ks) [Suc ?p..<Suc ?p + length ks]"
      "\<forall>p\<in>{Suc ?p..<Suc ?p + length ks}. ap_promises w' p = Some None"
      "\<forall>p<Suc ?p. ap_promises w' p = (if p = ?p then Some None else ap_promises w p)"
    using Cons.IH [of ?w1] Cons.prems i by fastforce
  have up: "[?p..<?p + length (k # ks)] = ?p # [Suc ?p..<Suc ?p + length ks]"
    by (subst upt_conv_Cons) simp_all
  show ?case
  proof (intro exI conjI)
    show "get_futures q (k # ks) w = Some (Inr (map Some [?p..<?p + length (k # ks)]), w')"
      using 1 2(1) unfolding up by (simp add: get_futures_def ibind_Inr iret_apply)
    show "m_queue (ap_operation_queues w' ! ?i)
        = m_queue (?qs ! ?i) @ zip (reads (k # ks)) [?p..<?p + length (k # ks)]"
      unfolding up using 2(5) by simp
    show "\<forall>p\<in>{?p..<?p + length (k # ks)}. ap_promises w' p = Some None"
    proof
      fix p assume "p \<in> {?p..<?p + length (k # ks)}"
      then have "p = ?p \<or> p \<in> {Suc ?p..<Suc ?p + length ks}" by auto
      then show "ap_promises w' p = Some None" using 2(6,7) by auto
    qed
  qed (use 2 in auto)
qed (simp add: get_futures_def iret_apply)

end
