(* ===== verification/Api_Demo.thy ===== *)
theory Api_Demo
  imports Api_Serving Consumer_Properties
begin

text \<open>
  A proxy with one consumer thread that takes requests one at a time: the proxy of
  \<open>Proxy_Demo\<close> with batches of one. \<open>one_request_round\<close> runs the consumer through a whole
  round, so that calls on this proxy can be followed to their results.
\<close>

section \<open>One round of the consumer\<close>

definition idle :: "'st consumer \<Rightarrow> bool" where
  "idle s \<longleftrightarrow> cs_point s = Outer \<and> \<not> cs_finished s \<and> cs_serviced s = cs_previous s \<and>
     px_security_batch_size (cs_proxy s) = 1 \<and> px_storage_batch_size (cs_proxy s) = 1 \<and>
     px_p_max (cs_proxy s) = 0"

lemma choose_one_label: "choose_replicas [oper] [t] p g = Inr (rids, ss, p', g') \<Longrightarrow> distinct ss"
  by (auto simp: Let_def rbind_Inr_iff split_beta)

text \<open>The states of a round up to the execution of its batch.\<close>

lemma fills_to_batch:
  fixes s :: "'st consumer"
  assumes "idle s" and "cs_queue s = \<lparr>m_queue = [(oper, pid)], size_ctr = 1\<rparr>"
  shows "(filling E ^^ 6) s (s\<lparr>cs_point := Inner, cs_queue := queue_new, cs_batch := batch_real (oper, pid) batch_empty,
      cs_total := 1 + cs_serviced s, cs_serviced := cs_serviced s + 1, cs_previous := 1 + cs_serviced s,
      cs_rng := stl (cs_rng s)\<rparr>)"
proof -
  note step = filling_def consumer_step_def executes_def batch_open_def
  let ?a = "s\<lparr>cs_point := Inner, cs_batch := batch_empty\<rparr>"
  let ?b = "?a\<lparr>cs_total := 1 + cs_serviced s, cs_point := Rounds 0\<rparr>"
  let ?c = "?b\<lparr>cs_point := Slots 0 0\<rparr>"
  let ?d = "?c\<lparr>cs_queue := queue_new, cs_batch := batch_real (oper, pid) batch_empty,
      cs_rng := stl (cs_rng s), cs_point := Slots 0 1\<rparr>"
  let ?e = "?d\<lparr>cs_point := Rounds 1\<rparr>"
  let ?f = "s\<lparr>cs_point := Inner, cs_queue := queue_new, cs_batch := batch_real (oper, pid) batch_empty,
      cs_total := 1 + cs_serviced s, cs_serviced := cs_serviced s + 1, cs_previous := 1 + cs_serviced s,
      cs_rng := stl (cs_rng s)\<rparr>"
  have "security_step (cs_proxy s) (cs_queue s) batch_empty (cs_rng s)
      = Inr (queue_new, batch_real (oper, pid) batch_empty, stl (cs_rng s))"
    using assms
    by (simp add: idle_def security_step_def is_true_distribution_def prob_quot_def queue_size_def
        queue_pop_def queue_new_def)
  then have d: "filling E ?c ?d" using assms(1) by (simp add: idle_def step)
  have a: "filling E s ?a" and c: "filling E ?b ?c" and e: "filling E ?d ?e" and f: "filling E ?e ?f"
    using assms(1) by (simp_all add: idle_def step)
  have b: "filling E ?a ?b" using assms by (simp add: idle_def step batch_empty_def)
  note path = fills_Suc [OF fills_Suc [OF fills_Suc [OF fills_Suc [OF fills_Suc
    [OF fills_Suc [OF fills_0 a] b] c] d] e] f]
  have "(6 :: nat) = Suc (Suc (Suc (Suc (Suc (Suc 0)))))" by simp
  with path show ?thesis by (simp only:)
qed

lemma consume_until_fills:
  "(filling E ^^ n) s s' \<Longrightarrow> cs_promises s pid = Some None \<Longrightarrow>
   consume_until (n + m) E pid s = consume_until m E pid s'"
proof (induction n arbitrary: s)
  case (Suc n)
  then obtain s1 where s1: "filling E s s1" "(filling E ^^ n) s1 s'" by (meson relpowp_Suc_D2)
  then have "consume_until (Suc n + m) E pid s = consume_until (n + m) E pid s1"
    using Suc.prems(2) by (simp add: filling_def labels_ok_def)
  with Suc.IH [OF s1(2)] filling_shared [OF s1(1)] Suc.prems(2) show ?case by simp
qed simp

context replica_store begin

lemma one_request_round:
  assumes "idle s" and "cs_queue s = \<lparr>m_queue = [(oper, pid)], size_ctr = 1\<rparr>"
    and "cs_promises s pid = Some None"
    and "sound (cs_storage s)" and "proxy_wf (cs_proxy s)" and "holds E (cs_proxy s) (view (cs_storage s)) V"
    and "px_missing_new_replicas (cs_proxy s) = Map.empty"
    and "\<forall>k. 0 < replicas (cs_proxy s) k \<longrightarrow> valid (V k)" and "op_ok valid (cs_proxy s) oper"
  shows "\<exists>s'. consume_until 8 E pid s = Some s' \<and> idle s' \<and> cs_queue s' = queue_new \<and>
    cs_promises s' pid = Some (Some (answer_in V oper)) \<and>
    sound (cs_storage s') \<and> proxy_wf (cs_proxy s') \<and>
    holds E (cs_proxy s') (view (cs_storage s')) (spec_step V oper) \<and>
    px_missing_new_replicas (cs_proxy s') = Map.empty \<and> same_tables (cs_proxy s) (cs_proxy s') \<and>
    (\<forall>p. p \<noteq> pid \<longrightarrow> cs_promises s' p = cs_promises s p)"
proof -
  define s1 where "s1 = s\<lparr>cs_point := Inner, cs_queue := queue_new, cs_batch := batch_real (oper, pid) batch_empty,
      cs_total := 1 + cs_serviced s, cs_serviced := cs_serviced s + 1, cs_previous := 1 + cs_serviced s,
      cs_rng := stl (cs_rng s)\<rparr>"
  have b: "b_ops (cs_batch s1) = [oper]" "b_trues (cs_batch s1) = [True]" "b_promises (cs_batch s1) = [pid]"
    by (simp_all add: s1_def batch_real_def batch_empty_def)
  have "\<exists>p' st' g' ps'. execute_batch E [oper] [True] [pid] (cs_proxy s) (cs_storage s) (cs_rng s1) (cs_promises s)
      = Inr (p', st', g', ps') \<and>
    sound st' \<and> proxy_wf p' \<and> holds E p' (view st') (snd (spec_run V [oper])) \<and>
    map ps' [pid] = map (\<lambda>a. Some (Some a)) (real_answers [True] (fst (spec_run V [oper]))) \<and>
    same_tables (cs_proxy s) p' \<and> px_missing_new_replicas p' = Map.empty \<and>
    (\<forall>p. p \<notin> set [pid] \<longrightarrow> ps' p = cs_promises s p)"
    by (rule execute_batch_spec) (use assms in \<open>auto simp: op_ok_def simp del: choose_replicas.simps dest: choose_one_label\<close>)
  then obtain p' st' g' ps' where
      x: "execute_batch E [oper] [True] [pid] (cs_proxy s) (cs_storage s) (cs_rng s1) (cs_promises s) = Inr (p', st', g', ps')"
      "sound st'" "proxy_wf p'" "holds E p' (view st') (spec_step V oper)"
      "ps' pid = Some (Some (answer_in V oper))" "same_tables (cs_proxy s) p'" "px_missing_new_replicas p' = Map.empty"
      "\<forall>p. p \<noteq> pid \<longrightarrow> ps' p = cs_promises s p"
    by (auto simp: answer_in_def Let_def)
  let ?s' = "s1\<lparr>cs_point := Outer, cs_proxy := p', cs_storage := st', cs_rng := g', cs_promises := ps',
      cs_batch := batch_empty\<rparr>"
  have fields: "cs_point s1 = Inner" "cs_proxy s1 = cs_proxy s" "cs_promises s1 = cs_promises s"
      "cs_storage s1 = cs_storage s"
    by (simp_all add: s1_def)
  have full: "\<not> batch_open s1"
    using assms(1) by (simp add: batch_open_def b fields idle_def)
  have exec: "consumer_step E s1 = Inr ?s'"
    using full x(1) by (simp add: consumer_step_def fields consumer_execute_def b)
  have "labels_ok s1"
    by (auto simp: labels_ok_def b simp del: choose_replicas.simps dest: choose_one_label split: sum.splits)
  then have "consume_until 2 E pid s1 = Some ?s'"
    using exec x(5) assms(3) by (simp add: eval_nat_numeral fields)
  then have "consume_until 8 E pid s = Some ?s'"
    using consume_until_fills [OF fills_to_batch [OF assms(1,2)] assms(3), of 2] by (simp add: s1_def)
  moreover have "idle ?s'"
    using assms(1) x(6) by (simp add: idle_def same_tables_def s1_def)
  ultimately show ?thesis
    using x by (intro exI [of _ ?s']) (simp add: s1_def)
qed

section \<open>Calls that return\<close>

text \<open>Between calls: nothing queued, the consumer idle, its tables and storage holding \<open>V\<close>.\<close>

definition calm :: "('z \<Rightarrow> 'st consumer) \<Rightarrow> ('st, 'z) api_scheme \<Rightarrow> (string \<Rightarrow> string) \<Rightarrow> bool" where
  "calm priv w V \<longleftrightarrow>
     ap_operation_queues w = [queue_new] \<and> dom (ap_promises w) = {..<ap_next_promise w} \<and>
     idle (consumer_of priv w) \<and> sound (ap_storage w) \<and> proxy_wf (ap_proxy w) \<and>
     holds E (ap_proxy w) (view (ap_storage w)) V \<and> px_missing_new_replicas (ap_proxy w) = Map.empty \<and>
     (\<forall>k. 0 < replicas (ap_proxy w) k \<longrightarrow> valid (V k))"

lemma request_returns:
  assumes "calm priv w V" and "op_ok valid (ap_proxy w) oper" and "\<And>s z. priv (upd s z) = s"
  defines "p \<equiv> ap_next_promise w"
  shows "\<exists>w1 w2. push_request q oper w = Some (Inr (Some p), w1) \<and> ap_proxy w1 = ap_proxy w \<and>
    future_get (consumer_wait priv upd 8 E) (Some p) w1 = Some (Inr (answer_in V oper), w2) \<and>
    calm priv w2 (spec_step V oper) \<and> same_tables (ap_proxy w) (ap_proxy w2) \<and> ap_next_promise w2 = Suc p"
proof -
  note c = assms(1) [unfolded calm_def]
  let ?w1 = "w\<lparr>ap_next_promise := Suc p, ap_promises := (ap_promises w)(p \<mapsto> None),
      ap_operation_queues := [queue_push (oper, p) queue_new]\<rparr>"
  have 1: "push_request q oper w = Some (Inr (Some p), ?w1)"
    using c by (simp add: push_request_def queue_index_def Let_def p_def)
  let ?s1 = "consumer_of priv ?w1"
  have q1: "cs_queue ?s1 = \<lparr>m_queue = [(oper, p)], size_ctr = 1\<rparr>"
    by (simp add: queue_push_def queue_new_def)
  have "idle ?s1" using c by (simp add: idle_def consumer_of_def)
  from one_request_round [OF this q1, of V] obtain s' where
      s': "consume_until 8 E p ?s1 = Some s'" "idle s'" "cs_queue s' = queue_new"
      "cs_promises s' p = Some (Some (answer_in V oper))"
      "sound (cs_storage s')" "proxy_wf (cs_proxy s')" "holds E (cs_proxy s') (view (cs_storage s')) (spec_step V oper)"
      "px_missing_new_replicas (cs_proxy s') = Map.empty" "same_tables (ap_proxy w) (cs_proxy s')"
      "\<forall>i. i \<noteq> p \<longrightarrow> cs_promises s' i = ap_promises w i"
    using c assms(2) by fastforce
  let ?w2 = "consumer_back upd s' ?w1"
  have 2: "future_get (consumer_wait priv upd 8 E) (Some p) ?w1 = Some (Inr (answer_in V oper), ?w2)"
    using s'(1,4) by (simp add: future_get_def consumer_wait_def consumer_back_def)
  have dom: "dom (cs_promises s') = {..<Suc p}"
  proof -
    have "dom (cs_promises s') = insert p (dom (ap_promises w))"
      using s'(4,10) by (auto simp: dom_def)
    then show ?thesis using c by (auto simp: p_def lessThan_Suc)
  qed
  have "consumer_of priv ?w2 = s'" by (simp add: consumer_of_back [of priv upd] assms(3))
  moreover have "\<forall>k. 0 < replicas (cs_proxy s') k \<longrightarrow> valid (spec_step V oper k)"
    using c assms(2) s'(9) by (auto simp: spec_step_def op_ok_def same_tables_simps(1))
  ultimately have "calm priv ?w2 (spec_step V oper)"
    using s' dom unfolding calm_def by (simp add: consumer_back_def)
  with 1 2 s'(9) show ?thesis by (intro exI [of _ ?w1] exI [of _ ?w2]) (simp add: consumer_back_def)
qed

end

section \<open>A concrete proxy\<close>

definition small_proxy :: proxy_state where
  "small_proxy = demo_proxy\<lparr>px_security_batch_size := 1, px_storage_batch_size := 1, px_p_max := 0\<rparr>"

definition small_consumer :: "(string \<rightharpoonup> string) list consumer" where
  "small_consumer = demo_consumer\<lparr>cs_proxy := small_proxy\<rparr>"

definition small_world :: "((string \<rightharpoonup> string) list, (string \<rightharpoonup> string) list consumer) api_scheme" where
  "small_world =
     \<lparr>ap_proxy = small_proxy, ap_storage = demo_store, ap_operation_queues = [queue_new],
      ap_promises = Map.empty, ap_next_promise = 0, ap_respond_queue = queue_new,
      ap_sequence_queue = queue_new, ap_finished = False, ap_rng = sconst 5, \<dots> = small_consumer\<rparr>"

lemma small_tables:
  "replicas small_proxy = replicas demo_proxy" "px_key_to_frequency small_proxy = px_key_to_frequency demo_proxy"
  "px_missing_new_replicas small_proxy = Map.empty" "proxy_wf small_proxy"
  "holds ref_env small_proxy (demo_store ! 0) demo_values" "dists_ok small_proxy"
proof -
  have "px_key_to_number_of_replicas small_proxy = px_key_to_number_of_replicas demo_proxy"
      "px_replica_to_label small_proxy = px_replica_to_label demo_proxy"
      "px_update_cache small_proxy = px_update_cache demo_proxy"
    by (simp_all add: small_proxy_def)
  note same = proxy_inv_cong [OF this]
  show r: "replicas small_proxy = replicas demo_proxy"
    by (simp add: fun_eq_iff replicas_def small_proxy_def)
  show "proxy_wf small_proxy" "holds ref_env small_proxy (demo_store ! 0) demo_values"
    by (simp_all add: same demo_wf demo_holds)
  show "dists_ok small_proxy"
    using demo_dists_ok by (simp add: dists_ok_def dist_ok_def r) (simp add: small_proxy_def)
qed (simp_all add: small_proxy_def demo_static)

lemma small_map:
  "served_map ref_env (\<lambda>cs. cs ! 0) (\<lambda>cs. length cs = 1) engine_valid small_consumer demo_values"
  using demo_consumer_initial
  by (simp add: served_map_def small_consumer_def small_tables demo_values_valid)
    (simp add: consumer_initial_def demo_consumer_def demo_one_server small_tables)

lemma small_consumer_of: "consumer_of (\<lambda>s. s) small_world = small_consumer"
  by (simp add: consumer_of_def small_world_def small_consumer_def demo_consumer_def)

lemma small_serving: "serving ref_env engine_valid small_consumer (\<lambda>s. s) small_world []"
  unfolding serving_def small_consumer_of
  by (auto simp: small_world_def intro: run_start)

definition small_wait :: "((string \<rightharpoonup> string) list, (string \<rightharpoonup> string) list consumer) waiting" where
  "small_wait = consumer_wait (\<lambda>s. s) (\<lambda>s z. s) 8 ref_env"

lemma small_waits: "waits_serving ref_env engine_valid small_consumer (\<lambda>s. s) small_wait"
  unfolding small_wait_def by (rule waits_serving_consumer) (use small_map in \<open>simp_all add: served_map_def\<close>)

lemma small_calm: "ref_store.calm (\<lambda>s. s) small_world demo_values"
  unfolding ref_store.calm_def small_consumer_of
  by (auto simp: small_world_def small_tables demo_one_server demo_values_valid idle_def)
    (simp_all add: small_consumer_def demo_consumer_def small_proxy_def)

lemmas small_request_returns =
  ref_store.request_returns [where priv = "\<lambda>s. s" and upd = "\<lambda>s z. s", OF _ _ refl, folded small_wait_def]

lemma small_keys: "served_key small_consumer ''a''" "served_key small_consumer ''b''"
  by (auto simp: served_key_def small_consumer_def small_tables demo_replicas) (simp_all add: demo_proxy_def)

end
