(* ===== verification/Response_Clients.thy ===== *)
theory Response_Clients
  imports Response_Service Proxy_Api
begin

text \<open>
  How the proxy sends asynchronous responses: \<^verbatim>\<open>service/src/thrift_response_client.cpp\<close>, a
  response service client on the connection of a request client, and
  \<^verbatim>\<open>service/src/thrift_response_client_map.cpp\<close>, the map from client ids to these. The map of
  the libcuckoo library is a finite map with atomic operations.
\<close>

section \<open>The state of the service\<close>

text \<open>
  The state of the proxy, the map of registered clients, the generator of client ids, the
  handlers by connection, and the connections themselves (\<open>sv_net\<close>). A response client is
  the number of its connection; \<open>proto c\<close> is the protocol object on connection \<open>c\<close>.
\<close>

record handler =
  h_operation_count :: "32 word"
  h_registered_client_id :: "64 word"
  h_client :: nat

record ('st, 'n) service = "'st api" +
  sv_clients :: "64 word \<rightharpoonup> nat"
  sv_client_id_gen :: "64 word"
  sv_handlers :: "nat \<rightharpoonup> handler"
  sv_net :: 'n

definition on_net :: "('n, 'a) io \<Rightarrow> (('st, 'n, 'z) service_scheme, 'a) io" where
  "on_net = izoom sv_net (\<lambda>n w. w\<lparr>sv_net := n\<rparr>)"

section \<open>Response clients\<close>

definition response_client_new :: "nat \<Rightarrow> nat" where
  "response_client_new connection = connection"

definition response_client_send ::
    "(nat \<Rightarrow> 'n tproto) \<Rightarrow> nat \<Rightarrow> sequence_id \<Rightarrow> 32 word \<Rightarrow> string list \<Rightarrow> (('st, 'n, 'z) service_scheme, unit) io" where
  "response_client_send proto client seq_id op_code result =
     on_net (response_async_response (proto client) seq_id op_code result)"

section \<open>The map\<close>

text \<open>libcuckoo's \<open>insert\<close> keeps the entry of a key that is there already.\<close>

definition add_client :: "64 word \<Rightarrow> nat \<Rightarrow> (('st, 'n, 'z) service_scheme, unit) io" where
  "add_client client_id client =
     imodify (\<lambda>w. if client_id \<in> dom (sv_clients w) then w
                  else w\<lparr>sv_clients := (sv_clients w)(client_id \<mapsto> client)\<rparr>)"

definition remove_client :: "64 word \<Rightarrow> (('st, 'n, 'z) service_scheme, unit) io" where
  "remove_client client_id = imodify (\<lambda>w. w\<lparr>sv_clients := (sv_clients w)(client_id := None)\<rparr>)"

definition async_respond_client ::
    "(nat \<Rightarrow> 'n tproto) \<Rightarrow> sequence_id \<Rightarrow> 32 word \<Rightarrow> string list \<Rightarrow> (('st, 'n, 'z) service_scheme, unit) io" where
  "async_respond_client proto seq op_code result =
     (if sq_client_id seq = - 1 then iret ()
      else ibind (iget (\<lambda>w. sv_clients w (sq_client_id seq))) (\<lambda>found.
        case found of
          None \<Rightarrow> iret ()
        | Some client \<Rightarrow> icatch is_transport (response_client_send proto client seq op_code result) (iret ())))"

definition clear_clients :: "(('st, 'n, 'z) service_scheme, unit) io" where
  "clear_clients = imodify (\<lambda>w. w\<lparr>sv_clients := Map.empty\<rparr>)"

text \<open>\<open>order\<close> lists the clients in the order the locked table is iterated in.\<close>

definition failure_id :: sequence_id where
  "failure_id = set_client_id (- 2) (set_client_seq_no (- 2) (set_client_id (- 2) sequence_id_new))"

definition send_failure ::
    "((64 word \<rightharpoonup> nat) \<Rightarrow> nat list) \<Rightarrow> (nat \<Rightarrow> 'n tproto) \<Rightarrow> (('st, 'n, 'z) service_scheme, unit) io" where
  "send_failure order proto =
     ibind (iget (\<lambda>w. order (sv_clients w))) (\<lambda>clients.
       iall (map (\<lambda>c. icatch is_exception (response_client_send proto c failure_id 5 []) (iret ())) clients))"

section \<open>Facts\<close>

lemma failure_id_fields:
  "sq_client_id failure_id = - 2" "sq_client_seq_no failure_id = - 2" "sq_server_seq_no failure_id = 0"
  by (simp_all add: failure_id_def set_client_id_def set_client_seq_no_def sequence_id_new_def)

lemma respond_unknown:
  "sq_client_id seq = - 1 \<or> sv_clients w (sq_client_id seq) = None \<Longrightarrow>
   async_respond_client proto seq c rs w = Some (Inr (), w)"
  by (auto simp: async_respond_client_def ibind_def iget_apply iret_apply)

lemma respond_known:
  assumes "sq_client_id seq \<noteq> - 1" and "sv_clients w (sq_client_id seq) = Some client"
    and "response_async_response (proto client) seq c rs (sv_net w) = Some (r, n')"
    and "\<forall>e. r = Inl e \<longrightarrow> is_transport e"
  shows "async_respond_client proto seq c rs w = Some (Inr (), w\<lparr>sv_net := n'\<rparr>)"
  using assms
  by (cases r) (auto simp: async_respond_client_def ibind_def iget_apply iret_apply icatch_def
      response_client_send_def on_net_def izoom_def)

end
