(* ===== verification/Handler.thy ===== *)
theory Handler
  imports Thrift_Service Response_Clients
begin

text \<open>
  \<^verbatim>\<open>service/src/thrift_handler.cpp\<close>, the handler behind the generated processor, one object per
  connection, and \<^verbatim>\<open>service/src/thrift_handler_factory.cpp\<close>, which makes it. Every call of
  the proxy takes the handler's operation count as its queue id.
\<close>

section \<open>The handler\<close>

definition handler_new :: "nat \<Rightarrow> handler" where
  "handler_new prot =
     \<lparr>h_operation_count = 0, h_registered_client_id = - 1, h_client = response_client_new prot\<rparr>"

text \<open>A method of a handler that has been deleted is undefined.\<close>

definition on_handler ::
    "nat \<Rightarrow> (handler \<Rightarrow> (('st, 'n, 'z) service_scheme, 'a) io) \<Rightarrow> (('st, 'n, 'z) service_scheme, 'a) io" where
  "on_handler h body =
     ibind (iget (\<lambda>w. sv_handlers w h)) (\<lambda>this. case this of None \<Rightarrow> ithrow Undefined | Some x \<Rightarrow> body x)"

definition set_handler :: "nat \<Rightarrow> handler \<Rightarrow> (('st, 'n, 'z) service_scheme, unit) io" where
  "set_handler h x = imodify (\<lambda>w. w\<lparr>sv_handlers := (sv_handlers w)(h \<mapsto> x)\<rparr>)"

text \<open>\<open>operation_count_++\<close>, an \<open>int\<close>: overflow is undefined.\<close>

definition next_operation :: "nat \<Rightarrow> (('st, 'n, 'z) service_scheme, 32 word) io" where
  "next_operation h =
     on_handler h (\<lambda>x.
       if sint (h_operation_count x) = 2 ^ 31 - 1 then ithrow Undefined
       else ithen (set_handler h (x\<lparr>h_operation_count := h_operation_count x + 1\<rparr>))
                  (iret (h_operation_count x)))"

definition handler_get_client_id :: "(('st, 'n, 'z) service_scheme, 64 word) io" where
  "handler_get_client_id =
     (\<lambda>w. Some (Inr (sv_client_id_gen w), w\<lparr>sv_client_id_gen := sv_client_id_gen w + 1\<rparr>))"

definition handler_register_client_id ::
    "nat \<Rightarrow> 32 word \<Rightarrow> 64 word \<Rightarrow> (('st, 'n, 'z) service_scheme, unit) io" where
  "handler_register_client_id h block_id client_id =
     on_handler h (\<lambda>x.
       ithen (set_handler h (x\<lparr>h_registered_client_id := client_id\<rparr>)) (add_client client_id (h_client x)))"

definition handler_async_get :: "nat \<Rightarrow> sequence_id \<Rightarrow> string \<Rightarrow> (('st, 'n, 'z) service_scheme, unit) io" where
  "handler_async_get h seq_id k = ibind (next_operation h) (\<lambda>q. api_async_get seq_id q k)"

definition handler_async_put ::
    "nat \<Rightarrow> sequence_id \<Rightarrow> string \<Rightarrow> string \<Rightarrow> (('st, 'n, 'z) service_scheme, unit) io" where
  "handler_async_put h seq_id k v = ibind (next_operation h) (\<lambda>q. api_async_put seq_id q k v)"

definition handler_async_get_batch ::
    "nat \<Rightarrow> sequence_id \<Rightarrow> string list \<Rightarrow> (('st, 'n, 'z) service_scheme, unit) io" where
  "handler_async_get_batch h seq_id keys = ibind (next_operation h) (\<lambda>q. api_async_get_batch seq_id q keys)"

type_synonym ('st, 'n, 'z) service_waiting =
  "('st, 'n, 'z) service_scheme \<Rightarrow> nat \<Rightarrow> ('st, 'n, 'z) service_scheme option"

definition handler_async_put_batch ::
    "('st, 'n, 'z) service_waiting \<Rightarrow> nat \<Rightarrow> sequence_id \<Rightarrow> string list \<Rightarrow> string list \<Rightarrow>
     (('st, 'n, 'z) service_scheme, unit) io" where
  "handler_async_put_batch wait h seq_id keys values =
     ibind (next_operation h) (\<lambda>q. api_async_put_batch wait seq_id q keys values)"

definition handler_get ::
    "('st, 'n, 'z) service_waiting \<Rightarrow> nat \<Rightarrow> string \<Rightarrow> (('st, 'n, 'z) service_scheme, string) io" where
  "handler_get wait h k = ibind (next_operation h) (\<lambda>q. api_get wait q k)"

definition handler_put ::
    "('st, 'n, 'z) service_waiting \<Rightarrow> nat \<Rightarrow> string \<Rightarrow> string \<Rightarrow> (('st, 'n, 'z) service_scheme, unit) io" where
  "handler_put wait h k v = ibind (next_operation h) (\<lambda>q. api_put wait q k v)"

definition handler_get_batch ::
    "('st, 'n, 'z) service_waiting \<Rightarrow> nat \<Rightarrow> string list \<Rightarrow> (('st, 'n, 'z) service_scheme, string list) io" where
  "handler_get_batch wait h keys = ibind (next_operation h) (\<lambda>q. api_get_batch wait q keys)"

definition handler_put_batch ::
    "('st, 'n, 'z) service_waiting \<Rightarrow> nat \<Rightarrow> string list \<Rightarrow> string list \<Rightarrow>
     (('st, 'n, 'z) service_scheme, unit) io" where
  "handler_put_batch wait h keys values = ibind (next_operation h) (\<lambda>q. api_put_batch wait q keys values)"

text \<open>The handler as the interface that the processor calls.\<close>

definition handler_iface :: "('st, 'n, 'z) service_waiting \<Rightarrow> nat \<Rightarrow> ('st, 'n, 'z) service_scheme iface" where
  "handler_iface wait h =
     \<lparr>if_get_client_id = handler_get_client_id, if_register_client_id = handler_register_client_id h,
      if_async_get = handler_async_get h, if_async_put = handler_async_put h,
      if_async_get_batch = handler_async_get_batch h, if_async_put_batch = handler_async_put_batch wait h,
      if_get = handler_get wait h, if_put = handler_put wait h,
      if_get_batch = handler_get_batch wait h, if_put_batch = handler_put_batch wait h\<rparr>"

section \<open>The factory\<close>

text \<open>
  The cast of the transport to \<open>TSocket\<close> gives null for another kind of transport, and the next
  call goes through that pointer. The handler of connection \<open>c\<close> is number \<open>c\<close>.
\<close>

definition factory_getHandler :: "(nat \<Rightarrow> bool) \<Rightarrow> nat \<Rightarrow> (('st, 'n, 'z) service_scheme, nat) io" where
  "factory_getHandler is_socket c =
     (if \<not> is_socket c then ithrow Undefined
      else ithen (set_handler c (handler_new c)) (iret c))"

definition factory_releaseHandler :: "nat \<Rightarrow> (('st, 'n, 'z) service_scheme, unit) io" where
  "factory_releaseHandler h = imodify (\<lambda>w. w\<lparr>sv_handlers := (sv_handlers w)(h := None)\<rparr>)"

text \<open>
  \<open>getProcessor\<close> of the generated factory: a processor for the handler of the connection. When
  the processor goes away the handler is released.
\<close>

definition factory_getProcessor ::
    "(nat \<Rightarrow> bool) \<Rightarrow> ('st, 'n, 'z) service_waiting \<Rightarrow> (cpp_error \<Rightarrow> string) \<Rightarrow> nat \<Rightarrow>
     (('st, 'n, 'z) service_scheme, ('st, 'n, 'z) service_scheme processor) io" where
  "factory_getProcessor is_socket wait what c =
     ibind (factory_getHandler is_socket c) (\<lambda>h.
       iret \<lparr>pr_iface = handler_iface wait h, pr_event = None, pr_what = what\<rparr>)"

section \<open>Facts\<close>

text \<open>The handler of a new connection counts from 0.\<close>

lemma getProcessor_returns:
  "factory_getProcessor (\<lambda>_. True) wait what c w =
     Some (Inr \<lparr>pr_iface = handler_iface wait c, pr_event = None, pr_what = what\<rparr>,
           w\<lparr>sv_handlers := (sv_handlers w)(c \<mapsto> handler_new c)\<rparr>)"
  by (simp add: factory_getProcessor_def factory_getHandler_def set_handler_def ibind_def ithen_def
      imodify_apply iret_apply)

text \<open>The handler on a world that also holds the connection it is called over.\<close>

definition beside :: "('h, 'a) io \<Rightarrow> ('c \<times> 'h, 'a) io" where
  "beside = izoom snd (\<lambda>h (c, _). (c, h))"

definition beside_iface :: "'h iface \<Rightarrow> ('c \<times> 'h) iface" where
  "beside_iface i =
     \<lparr>if_get_client_id = beside (if_get_client_id i),
      if_register_client_id = (\<lambda>b c. beside (if_register_client_id i b c)),
      if_async_get = (\<lambda>s k. beside (if_async_get i s k)), if_async_put = (\<lambda>s k v. beside (if_async_put i s k v)),
      if_async_get_batch = (\<lambda>s ks. beside (if_async_get_batch i s ks)),
      if_async_put_batch = (\<lambda>s ks vs. beside (if_async_put_batch i s ks vs)),
      if_get = (\<lambda>k. beside (if_get i k)), if_put = (\<lambda>k v. beside (if_put i k v)),
      if_get_batch = (\<lambda>ks. beside (if_get_batch i ks)), if_put_batch = (\<lambda>ks vs. beside (if_put_batch i ks vs))\<rparr>"

lemma beside_apply: "beside m (c, h) = map_option (\<lambda>(r, h'). (r, (c, h'))) (m h)"
  by (simp add: beside_def izoom_def)

lemma next_operation_returns:
  "sv_handlers w h = Some x \<Longrightarrow> sint (h_operation_count x) \<noteq> 2 ^ 31 - 1 \<Longrightarrow>
   next_operation h w =
     Some (Inr (h_operation_count x),
           w\<lparr>sv_handlers := (sv_handlers w)(h \<mapsto> x\<lparr>h_operation_count := h_operation_count x + 1\<rparr>)\<rparr>)"
  by (simp add: next_operation_def on_handler_def set_handler_def ibind_def ithen_def iget_apply
      imodify_apply iret_apply)

end
