(* ===== verification/Service_Properties.thy ===== *)
theory Service_Properties
  imports Api_Demo Handler Token_Protocol
begin

text \<open>
  The handler in front of the proxy: remote calls answered with the values of a plain map,
  and asynchronous calls followed to the responder.
\<close>

section \<open>The handler and the consumer\<close>

text \<open>The consumer's own state does not depend on the handlers.\<close>

definition own_state :: "(('n, 'z) service_ext \<Rightarrow> 'st consumer) \<Rightarrow> bool" where
  "own_state priv \<longleftrightarrow>
     (\<forall>(w :: ('st, 'n, 'z) service_scheme) hs. priv (api.more (w\<lparr>sv_handlers := hs\<rparr>)) = priv (api.more w))"

definition next_count :: "('st, 'n, 'z) service_scheme \<Rightarrow> nat \<Rightarrow> 32 word option" where
  "next_count w h =
     (case sv_handlers w h of
        None \<Rightarrow> None
      | Some x \<Rightarrow> if sint (h_operation_count x) = 2 ^ 31 - 1 then None else Some (h_operation_count x))"

text \<open>A call of a live handler is a call of the proxy with the next queue id.\<close>

lemma next_operation_serving:
  assumes "own_state priv" and "serving E valid s0 priv w subs" and "next_count w h = Some q"
  shows "\<exists>w'. next_operation h w = Some (Inr q, w') \<and> serving E valid s0 priv w' subs \<and>
    ap_respond_queue w' = ap_respond_queue w \<and> ap_sequence_queue w' = ap_sequence_queue w \<and>
    sv_net w' = sv_net w \<and> sv_clients w' = sv_clients w"
proof -
  obtain x where x: "sv_handlers w h = Some x" "sint (h_operation_count x) \<noteq> 2 ^ 31 - 1" "q = h_operation_count x"
    using assms(3) by (auto simp: next_count_def split: option.splits if_splits)
  let ?hs = "(sv_handlers w)(h \<mapsto> x\<lparr>h_operation_count := h_operation_count x + 1\<rparr>)"
  have "consumer_of priv (w\<lparr>sv_handlers := ?hs\<rparr>) = consumer_of priv w"
    using assms(1) by (simp add: own_state_def consumer_of_def)
  then have "serving E valid s0 priv (w\<lparr>sv_handlers := ?hs\<rparr>) subs"
    using assms(2) by (simp add: serving_def)
  with next_operation_returns [OF x(1,2)] x(3) show ?thesis by auto
qed

lemma handler_get_batch_serving:
  assumes "replica_store E view sound valid" and "served_map E view sound valid s0 V0"
    and "waits_serving E valid s0 priv wait" and "own_state priv" and "serving E valid s0 priv w subs"
    and "\<forall>k\<in>set ks. served_key s0 k" and "next_count w h \<noteq> None"
    and "handler_get_batch wait h ks w = Some (r, w')"
  shows "r = Inr (map (map_after V0 subs) ks) \<and>
    (\<exists>ps more. serving E valid s0 priv w' (subs @ zip (reads ks) ps @ more))"
proof -
  obtain q where "next_count w h = Some q" using assms(7) by blast
  from next_operation_serving [OF assms(4,5) this] obtain w1 where
      "next_operation h w = Some (Inr q, w1)" "serving E valid s0 priv w1 subs" by blast
  moreover from this assms(8) have "api_get_batch wait q ks w1 = Some (r, w')"
    by (simp add: handler_get_batch_def ibind_Inr)
  ultimately show ?thesis using get_batch_serving [OF assms(1-3) _ assms(6)] by blast
qed

section \<open>Remote calls\<close>


text \<open>A service over the small proxy: one handler on connection 0, the consumer in the rest.\<close>

type_synonym demo_storage = "(string \<rightharpoonup> string) list"

type_synonym 'n demo_service = "(demo_storage, 'n, demo_storage consumer) service_scheme"

definition blank_api :: "'z \<Rightarrow> (demo_storage, 'z) api_scheme" where
  "blank_api z =
     \<lparr>ap_proxy = small_proxy, ap_storage = demo_store, ap_operation_queues = [queue_new],
      ap_promises = Map.empty, ap_next_promise = 0, ap_respond_queue = queue_new,
      ap_sequence_queue = queue_new, ap_finished = False, ap_rng = sconst 5, \<dots> = z\<rparr>"

definition svc_priv :: "('n, demo_storage consumer) service_ext \<Rightarrow> demo_storage consumer" where
  "svc_priv z = service.more (blank_api z)"

definition svc_upd ::
    "demo_storage consumer \<Rightarrow> ('n, demo_storage consumer) service_ext \<Rightarrow> ('n, demo_storage consumer) service_ext" where
  "svc_upd s z = api.more ((blank_api z)\<lparr>service.more := s\<rparr>)"

definition demo_service :: "'n \<Rightarrow> 'n demo_service" where
  "demo_service n =
     \<lparr>ap_proxy = small_proxy, ap_storage = demo_store, ap_operation_queues = [queue_new],
      ap_promises = Map.empty, ap_next_promise = 0, ap_respond_queue = queue_new,
      ap_sequence_queue = queue_new, ap_finished = False, ap_rng = sconst 5,
      sv_clients = [5 \<mapsto> 0], sv_client_id_gen = 6, sv_handlers = [0 \<mapsto> handler_new 0], sv_net = n,
      \<dots> = small_consumer\<rparr>"

lemma svc_priv_more: "svc_priv (api.more (w :: 'n demo_service)) = service.more w"
  by (cases w) (simp add: svc_priv_def blank_api_def)

lemma svc_priv_upd: "svc_priv (svc_upd s z) = s"
proof -
  have "svc_priv (api.more (blank_api z\<lparr>service.more := s\<rparr>)) = s"
    by (subst svc_priv_more) simp
  then show ?thesis by (simp add: svc_upd_def)
qed

lemma svc_own: "own_state svc_priv"
  by (simp add: own_state_def svc_priv_more)

definition svc_wait :: "(demo_storage, 'n, demo_storage consumer) service_waiting" where
  "svc_wait = consumer_wait svc_priv svc_upd 8 ref_env"

lemma svc_waits: "waits_serving ref_env engine_valid small_consumer svc_priv svc_wait"
  unfolding svc_wait_def
  by (rule waits_serving_consumer) (use small_map in \<open>simp_all add: served_map_def svc_priv_upd\<close>)

lemma svc_consumer_of: "consumer_of svc_priv (demo_service n) = small_consumer"
proof -
  have "service.more (demo_service n) = small_consumer" by (simp add: demo_service_def)
  then show ?thesis
    by (simp add: consumer_of_def svc_priv_more)
      (simp add: demo_service_def small_consumer_def demo_consumer_def)
qed

lemma svc_serving: "serving ref_env engine_valid small_consumer svc_priv (demo_service n) []"
  unfolding serving_def svc_consumer_of
  by (auto simp: demo_service_def intro: run_start)

lemma svc_calm: "ref_store.calm svc_priv (demo_service n) demo_values"
  unfolding ref_store.calm_def svc_consumer_of
  by (auto simp: demo_service_def small_tables demo_one_server demo_values_valid idle_def)
    (simp_all add: small_consumer_def demo_consumer_def small_proxy_def)

lemma svc_count: "next_count (demo_service n) 0 = Some 0"
  by (simp add: next_count_def demo_service_def handler_new_def)

text \<open>One read through the handler returns.\<close>

lemma svc_request:
  fixes n :: 'n
  shows "\<exists>h1 w1 v w2. next_operation 0 (demo_service n) = Some (Inr 0, h1) \<and>
    get_futures 0 [''a''] h1 = Some (Inr [Some (ap_next_promise h1)], w1) \<and>
    future_get (svc_wait :: (demo_storage, 'n, demo_storage consumer) service_waiting)
      (Some (ap_next_promise h1)) w1 = Some (Inr v, w2)"
proof -
  let ?h = "demo_service n" and ?get = "\<lparr>op_key = ''a'', op_value = []\<rparr>"
  let ?hs = "(sv_handlers ?h)(0 \<mapsto> (handler_new 0)\<lparr>h_operation_count := 1\<rparr>)"
  let ?h1 = "?h\<lparr>sv_handlers := ?hs\<rparr>"
  have 1: "next_operation 0 ?h = Some (Inr 0, ?h1)"
    using next_operation_returns [of ?h 0 "handler_new 0"] by (simp add: demo_service_def handler_new_def)
  have "consumer_of svc_priv ?h1 = consumer_of svc_priv ?h" by (simp add: consumer_of_def svc_priv_more)
  then have calm: "ref_store.calm svc_priv ?h1 demo_values"
    using svc_calm [of n] unfolding ref_store.calm_def by simp
  have "op_ok engine_valid (ap_proxy ?h1) ?get"
    by (simp add: op_ok_def demo_service_def small_tables demo_replicas)
  from ref_store.request_returns [OF calm this, where upd = svc_upd and q = 0, OF svc_priv_upd, folded svc_wait_def]
  obtain v w1 w2 where 2: "push_request 0 ?get ?h1 = Some (Inr (Some (ap_next_promise ?h1)), w1)"
      "future_get svc_wait (Some (ap_next_promise ?h1)) w1 = Some (Inr v, w2)"
    by blast
  have "px_key_to_frequency (ap_proxy ?h1) ''a'' \<noteq> None"
    by (simp add: demo_service_def small_proxy_def demo_proxy_def)
  with 2(1) have "get_futures 0 [''a''] ?h1 = Some (Inr [Some (ap_next_promise ?h1)], w1)"
    by (auto simp: get_futures_def get_future_def ibind_def iget_apply iret_apply)
  with 1 2(2) show ?thesis by blast
qed

lemma svc_get_batch_returns:
  fixes n :: 'n
  shows "\<exists>r h'. handler_get_batch (svc_wait :: (demo_storage, 'n, demo_storage consumer) service_waiting)
    0 [''a''] (demo_service n) = Some (r, h')"
  using svc_request [of n]
  by (auto simp: handler_get_batch_def api_get_batch_def get_all_def ibind_Inr iret_apply)


section \<open>Asynchronous calls\<close>

text \<open>Steps of the responder, and what collecting amounts to.\<close>

fun responder_steps ::
    "('st, 'z) waiting \<Rightarrow> ('st, 'z) api_scheme respond \<Rightarrow> nat \<Rightarrow> responder_point \<Rightarrow>
     (('st, 'z) api_scheme, responder_point) io" where
  "responder_steps wait respond 0 pt = iret pt"
| "responder_steps wait respond (Suc n) pt = ibind (responder_step wait respond pt) (responder_steps wait respond n)"

lemma collecting_steps:
  "responder_steps wait respond (length fs) (Collecting op_code s fs rs)
     = ibind (get_all wait fs) (\<lambda>vs. iret (Collecting op_code s [] (rs @ vs)))"
proof (induction fs arbitrary: rs)
  case (Cons f fs)
  show ?case by (simp add: responder_step_def get_all_def ibind_assoc Cons [unfolded get_all_def])
qed (simp add: get_all_def)

lemma serving_queues:
  "serving E valid s0 priv (w\<lparr>ap_respond_queue := a\<rparr>) subs = serving E valid s0 priv w subs"
  "serving E valid s0 priv (w\<lparr>ap_sequence_queue := b\<rparr>) subs = serving E valid s0 priv w subs"
  by (simp_all add: serving_def consumer_of_def)

lemma get_futures_queues:
  "get_futures q ks w = Some (r, w') \<Longrightarrow>
   ap_respond_queue w' = ap_respond_queue w \<and> ap_sequence_queue w' = ap_sequence_queue w \<and>
   api.more w' = api.more w"
proof (induction ks arbitrary: w r w')
  case (Cons k ks)
  have one: "ap_respond_queue v' = ap_respond_queue v \<and> ap_sequence_queue v' = ap_sequence_queue v \<and>
      api.more v' = api.more v"
    if "get_future q k v = Some (x, v')" for v x v'
    using that by (auto simp: get_future_def ibind_def iget_apply ithrow_apply push_request_def Let_def
        split: if_splits sum.splits)
  obtain x w1 where 1: "get_future q k w = Some (x, w1)"
    using Cons.prems by (cases "get_future q k w") (auto simp: get_futures_def ibind_None)
  show ?case
  proof (cases x)
    case (Inl e)
    with Cons.prems 1 one [OF 1] show ?thesis by (simp add: get_futures_def ibind_Inl)
  next
    case (Inr f)
    obtain y w2 where 2: "get_futures q ks w1 = Some (y, w2)"
      using Cons.prems 1 Inr by (cases "get_futures q ks w1") (auto simp: get_futures_def ibind_Inr ibind_None)
    have "w' = w2" using Cons.prems 1 2 Inr
      by (cases y) (auto simp: get_futures_def ibind_Inr ibind_Inl iret_apply)
    with Cons.IH [OF 2] one [OF 1] show ?thesis by simp
  qed
qed (simp add: get_futures_def iret_apply)

text \<open>The last step of the responder: the answer goes out on the connection of the client.\<close>

lemma respond_writes:
  assumes "thrift_output (proto client) conn sz" and "sq_client_id s \<noteq> - 1"
    and "sv_clients w (sq_client_id s) = Some client" and "conn (sv_net w) a h" and "w_out_depth a = 0"
    and "value_ok (V_List vals)"
  shows "\<exists>n'. responder_step wait (async_respond_client proto) (Collecting op_code s [] vals) w
      = Some (Inr Popping, w\<lparr>sv_net := n'\<rparr>) \<and>
    conn n' (a\<lparr>w_out := w_out a @ message ''async_response'' T_ONEWAY 0 (response_value s op_code vals)\<rparr>) h"
proof -
  have "w_out_depth a + 2 \<le> recursion_limit" using assms(5) by (simp add: recursion_limit_def)
  from givesD [OF thrift_output.send_async_response_gives [OF assms(1,6)] assms(4) this]
  obtain n' where n: "response_async_response (proto client) s op_code vals (sv_net w) = Some (Inr (), n')"
      "conn n' (a\<lparr>w_out := w_out a @ message ''async_response'' T_ONEWAY 0 (response_value s op_code vals)\<rparr>) h"
    unfolding response_async_response_def by blast
  from respond_known [where proto = proto and seq = s and client = client, OF assms(2,3) n(1)] n(2) show ?thesis
    by (auto simp: responder_step_def ithen_Inr iret_apply)
qed


text \<open>The small service: the wait of the consumer does not look at the queues.\<close>

lemma svc_wait_queues:
  "svc_wait (w\<lparr>ap_respond_queue := a, ap_sequence_queue := b\<rparr>) p
     = map_option (\<lambda>w'. w'\<lparr>ap_respond_queue := a, ap_sequence_queue := b\<rparr>) (svc_wait w p)"
  by (cases w) (simp add: svc_wait_def consumer_wait_def consumer_of_def consumer_back_def option.map_comp comp_def)

lemma same_more:
  "api.more w' = api.more (w :: ('st, 'n, 'z) service_scheme) \<Longrightarrow> sv_net w' = sv_net w \<and> sv_clients w' = sv_clients w"
  by (cases w, cases w') simp

lemma svc_wait_frame:
  "svc_wait w p = Some w' \<Longrightarrow> sv_net w' = sv_net w \<and> sv_clients w' = sv_clients w"
  by (cases w) (auto simp: svc_wait_def consumer_wait_def consumer_back_def svc_upd_def blank_api_def)

lemma svc_async_returns:
  fixes n :: 'n
  shows "\<exists>w1 r w2. handler_async_get_batch 0 s [''a''] (demo_service n) = Some (Inr (), w1) \<and>
    responder_steps (svc_wait :: (demo_storage, 'n, demo_storage consumer) service_waiting) respond 3 Popping w1
      = Some (r, w2) \<and> sv_net w2 = n \<and> sv_clients w2 = [5 \<mapsto> 0]"
proof -
  obtain h1 w1 v w2 where r: "next_operation 0 (demo_service n) = Some (Inr 0, h1)"
      "get_futures 0 [''a''] h1 = Some (Inr [Some (ap_next_promise h1)], w1)"
      "future_get svc_wait (Some (ap_next_promise h1)) w1 = Some (Inr v, w2)"
    using svc_request [of n] by blast
  have "ap_respond_queue h1 = queue_new" "ap_sequence_queue h1 = queue_new" "sv_net h1 = n" "sv_clients h1 = [5 \<mapsto> 0]"
    using r(1) next_operation_returns [of "demo_service n" 0 "handler_new 0"]
    by (auto simp: demo_service_def handler_new_def)
  with get_futures_queues [OF r(2)] same_more [of w1 h1] have q: "ap_respond_queue w1 = queue_new"
      "ap_sequence_queue w1 = queue_new" "sv_net w1 = n" "sv_clients w1 = [5 \<mapsto> 0]"
    by simp_all
  let ?w = "w1\<lparr>ap_respond_queue := queue_push (GET_BATCH, s, [Some (ap_next_promise h1)]) queue_new,
      ap_sequence_queue := queue_push s queue_new\<rparr>"
  have call: "handler_async_get_batch 0 s [''a''] (demo_service n) = Some (Inr (), ?w)"
    using r(1,2) q by (simp add: handler_async_get_batch_def api_async_get_batch_def ibind_Inr ithen_Inr
        push_response_def push_sequence_def imodify_apply)
  have w2: "svc_wait w1 (ap_next_promise h1) = Some w2" "ap_promises w2 (ap_next_promise h1) = Some (Some v)"
    using r(3) by (auto simp: future_get_def Option.bind_eq_Some_conv split: option.split_asm)
  then have get: "future_get svc_wait (Some (ap_next_promise h1)) (w1\<lparr>ap_respond_queue := a, ap_sequence_queue := b\<rparr>)
      = Some (Inr v, w2\<lparr>ap_respond_queue := a, ap_sequence_queue := b\<rparr>)" for a b
    by (simp add: future_get_def svc_wait_queues)
  have "\<exists>a b. responder_steps svc_wait respond 3 Popping ?w
      = Some (Inr (Collecting GET_BATCH s [] [v]), w2\<lparr>ap_respond_queue := a, ap_sequence_queue := b\<rparr>)"
    by (simp add: numeral_3_eq_3 responder_step_def queue_pop_def queue_push_def queue_new_def ibind_def iret_apply get)
      blast
  then obtain a b where "responder_steps svc_wait respond 3 Popping ?w
      = Some (Inr (Collecting GET_BATCH s [] [v]), w2\<lparr>ap_respond_queue := a, ap_sequence_queue := b\<rparr>)"
    by blast
  moreover have "sv_net (w2\<lparr>ap_respond_queue := a, ap_sequence_queue := b\<rparr>) = n"
      "sv_clients (w2\<lparr>ap_respond_queue := a, ap_sequence_queue := b\<rparr>) = [5 \<mapsto> 0]"
    using svc_wait_frame [OF w2(1)] q(3,4) by simp_all
  ultimately show ?thesis using call by blast
qed

definition svc_id :: sequence_id where
  "svc_id = set_client_id 5 sequence_id_new"

definition svc_protos :: "nat \<Rightarrow> unit wired tproto" where
  "svc_protos client = token_proto"


end
