(* ===== verification/Api_Properties.thy ===== *)
theory Api_Properties
  imports Api_Demo Proxy_Init
begin

text \<open>
  What the calls of the proxy and its responder thread guarantee, and where they do not do
  what they are meant to: \<open>flush\<close>, a batch with an unknown key, and the sequence ids of
  asynchronous calls.
\<close>

section \<open>Well-formedness\<close>

text \<open>
  C35. Every call of the proxy, \<open>flush\<close> and every step of the responder keep the queues and
  promises well formed: no promise is queued twice, every queued one is known and pending,
  and the queue counters are right. This holds also when the call throws.
\<close>

theorem api_keeps_wf:
  fixes wait :: "('st, 'z) waiting"
  defines "I \<equiv> api_wf :: ('st, 'z) api_scheme \<Rightarrow> bool"
  assumes "wait_wf wait" and "\<And>s c rs. keeping I (respond s c rs)"
  shows "keeping I (api_get wait q k) \<and> keeping I (api_put wait q k v) \<and>
    keeping I (api_get_batch wait q ks) \<and> keeping I (api_put_batch wait q ks vs) \<and>
    keeping I (api_async_get s q k) \<and> keeping I (api_async_put s q k v) \<and>
    keeping I (api_async_get_batch s q ks) \<and> keeping I (api_async_put_batch wait s q ks vs) \<and>
    keeping I (flush S) \<and> keeping I (responder_step wait respond pt)"
  unfolding I_def
  by (intro conjI api_calls_wf [OF assms(2)] responder_step_wf [OF assms(2)] flush_wf assms(3) [unfolded I_def])

definition demo_api :: "(string \<rightharpoonup> string) list api" where
  "demo_api = (api_new demo_proxy demo_store (sconst 5))\<lparr>ap_operation_queues := [queue_new]\<rparr>"

lemma demo_api_wf: "api_wf demo_api"
  by (auto simp: api_wf_def demo_api_def api_new_def queued_def queue_new_def queue_ok_def)

theorem api_keeps_wf_witness:
  "api_wf demo_api \<and>
   keeping api_wf (api_async_get_batch sequence_id_new 3 [''a'', ''b''] ::
     ((string \<rightharpoonup> string) list api, unit) io)"
  using api_keeps_wf [where wait = "\<lambda>(w :: (string \<rightharpoonup> string) list api) p. Some w"
      and respond = "\<lambda>s c rs. iret ()" and s = sequence_id_new] demo_api_wf
  by (simp add: wait_wf_def keeping_iret)

section \<open>Unknown keys\<close>

lemma imap_append:
  "imap f (xs @ ys) = ibind (imap f xs) (\<lambda>as. ibind (imap f ys) (\<lambda>bs. iret (as @ bs)))"
  by (induction xs) (simp_all add: ibind_assoc ibind_iret_right)

text \<open>
  A batch with an unknown key throws after the requests before that key have been queued:
  they stay in the queue, their promises pending, and no one will wait for them.
\<close>

theorem unknown_key_leaves_requests:
  assumes "ap_operation_queues w \<noteq> []" and "\<forall>k\<in>set ks. px_key_to_frequency (ap_proxy w) k \<noteq> None"
    and "px_key_to_frequency (ap_proxy w) k = None"
  shows "\<exists>w' i ps. api_get_batch wait q (ks @ k # ks') w = Some (Inl (Logic_error ''Key does not exist''), w') \<and>
    i = nat (sint q mod 2 ^ 64) mod length (ap_operation_queues w) \<and>
    ps = [ap_next_promise w..<ap_next_promise w + length ks] \<and>
    m_queue (ap_operation_queues w' ! i) = m_queue (ap_operation_queues w ! i) @ zip (reads ks) ps \<and>
    (\<forall>p\<in>set ps. ap_promises w' p = Some None)"
proof -
  obtain w' where g: "get_futures q ks w = Some (Inr (map Some [ap_next_promise w..<ap_next_promise w + length ks]), w')"
      "ap_proxy w' = ap_proxy w"
      "m_queue (ap_operation_queues w' ! (nat (sint q mod 2 ^ 64) mod length (ap_operation_queues w)))
        = m_queue (ap_operation_queues w ! (nat (sint q mod 2 ^ 64) mod length (ap_operation_queues w))) @
          zip (reads ks) [ap_next_promise w..<ap_next_promise w + length ks]"
      "\<forall>p\<in>{ap_next_promise w..<ap_next_promise w + length ks}. ap_promises w' p = Some None"
    using get_futures_known [OF assms(1,2), of q] by blast
  have "get_futures q (ks @ k # ks') w = Some (Inl (Logic_error ''Key does not exist''), w')"
    using g(1,2) assms(3)
    by (simp add: get_futures_def imap_append ibind_Inr)
      (simp add: ibind_def get_future_def iget_apply ithrow_apply)
  with g show ?thesis by (auto simp: api_get_batch_def ibind_Inl)
qed

theorem unknown_key_leaves_requests_witness:
  "\<exists>w' i ps. api_get_batch (\<lambda>w p. Some w) 7 ([''b'', ''a''] @ ''q'' # [''a'']) demo_api
      = Some (Inl (Logic_error ''Key does not exist''), w') \<and>
    i = nat (sint (7 :: 32 word) mod 2 ^ 64) mod length (ap_operation_queues demo_api) \<and>
    ps = [ap_next_promise demo_api..<ap_next_promise demo_api + length [''b'', ''a'']] \<and>
    m_queue (ap_operation_queues w' ! i)
      = m_queue (ap_operation_queues demo_api ! i) @ zip (reads [''b'', ''a'']) ps \<and>
    (\<forall>p\<in>set ps. ap_promises w' p = Some None)"
  by (rule unknown_key_leaves_requests) (simp_all add: demo_api_def api_new_def demo_proxy_def)

section \<open>Values\<close>





section \<open>Asynchronous answers\<close>

text \<open>
  C36. The responder answers by position. Whatever the threads do, its \<open>i\<close>-th answer carries
  the \<open>i\<close>-th sequence id pushed on \<open>sequence_queue_\<close>, with the op code and the values of the
  \<open>i\<close>-th entry of \<open>respond_queue_\<close>. The sequence id of that entry is not used.
\<close>

theorem responder_answers_by_position:
  assumes "responder_run wait respond w0 rs ss sent pt w" and "well_behaved wait respond"
    and "m_queue (ap_respond_queue w0) = []" and "m_queue (ap_sequence_queue w0) = []"
  shows "length sent \<le> min (length rs) (length ss) \<and>
    sent = map (\<lambda>i. (ss ! i, fst (rs ! i), map (promised w) (snd (snd (rs ! i))))) [0..<length sent]"
  using responder_inv_run [OF assms]
  by (auto simp: responder_inv_def answers_ok_def intro!: nth_equalityI)

text \<open>
  In the run of the witness a thread has called \<open>async_get\<close> with the sequence id 1 and then
  \<open>async_get_batch\<close> with 2: the first call pushes no sequence id, so its value goes out under
  the id of the second, which is never answered.
\<close>

definition seq_no :: "64 word \<Rightarrow> sequence_id" where
  "seq_no n = sequence_id_new\<lparr>sq_client_seq_no := n\<rparr>"

definition two_responses :: "response list" where
  "two_responses = [(GET, seq_no 1, [Some 0]), (GET_BATCH, seq_no 2, [Some 1])]"

definition responded :: "response list \<Rightarrow> sequence_id list \<Rightarrow> (string \<rightharpoonup> string) list api" where
  "responded rs ss =
     demo_api\<lparr>ap_promises := [0 \<mapsto> Some ''x'', 1 \<mapsto> Some ''y''],
       ap_respond_queue := \<lparr>m_queue = rs, size_ctr = of_nat (length rs)\<rparr>,
       ap_sequence_queue := \<lparr>m_queue = ss, size_ctr = of_nat (length ss)\<rparr>\<rparr>"

lemma responded_simps [simp]:
  "ap_respond_queue (responded rs ss) = \<lparr>m_queue = rs, size_ctr = of_nat (length rs)\<rparr>"
  "ap_sequence_queue (responded rs ss) = \<lparr>m_queue = ss, size_ctr = of_nat (length ss)\<rparr>"
  "ap_promises (responded rs ss) = [0 \<mapsto> Some ''x'', 1 \<mapsto> Some ''y'']"
  "(responded rs ss)\<lparr>ap_respond_queue := \<lparr>m_queue = rs', size_ctr = of_nat (length rs')\<rparr>\<rparr> = responded rs' ss"
  "(responded rs ss)\<lparr>ap_sequence_queue := \<lparr>m_queue = ss', size_ctr = of_nat (length ss')\<rparr>\<rparr> = responded rs ss'"
  by (simp_all add: responded_def)

lemma responded_pop:
  "responder_step wait respond Popping (responded ((c, s, fs) # rs) ss)
     = Some (Inr (Sequencing c fs), responded rs ss)"
  "responder_step wait respond (Sequencing c fs) (responded rs (s # ss))
     = Some (Inr (Collecting c s fs []), responded rs ss)"
  by (simp_all add: responder_step_def queue_pop_def)

lemma demo_responder_run:
  "responder_run (\<lambda>w p. Some w) (\<lambda>_ _ _. iret ()) demo_api two_responses [seq_no 2]
     [(seq_no 2, GET, [''x''])] Popping (responded [(GET_BATCH, seq_no 2, [Some 1])] [])"
proof -
  let ?run = "responder_run (\<lambda>w p. Some w) (\<lambda>_ _ _. iret ()) demo_api"
  let ?r1 = "(GET, seq_no 1, [Some 0])" and ?r2 = "(GET_BATCH, seq_no 2, [Some 1])"
  have 0: "?run [] [] [] Popping (responded [] [])"
    by (rule rr_other [OF rr_start])
      (simp_all add: same_queues_def keeps_values_def demo_api_def api_new_def queue_new_def)
  have 1: "?run ([] @ [?r1]) [] [] Popping (responded [?r1] [])"
    by (rule rr_response [OF 0]) (simp_all add: queue_push_def keeps_values_def)
  have 2: "?run (([] @ [?r1]) @ [?r2]) [] [] Popping (responded [?r1, ?r2] [])"
    by (rule rr_response [OF 1]) (simp_all add: queue_push_def keeps_values_def)
  have 3: "?run (([] @ [?r1]) @ [?r2]) ([] @ [seq_no 2]) [] Popping (responded [?r1, ?r2] [seq_no 2])"
    by (rule rr_sequence [OF 2]) (simp_all add: queue_push_def keeps_values_def)
  have 4: "?run two_responses [seq_no 2] [] Popping (responded [?r1, ?r2] [seq_no 2])"
    using 3 by (simp add: two_responses_def)
  have v: "responder_step (\<lambda>w p. Some w) (\<lambda>_ _ _. iret ()) (Collecting GET (seq_no 2) [Some 0] []) (responded [?r2] [])
      = Some (Inr (Collecting GET (seq_no 2) [] [''x'']), responded [?r2] [])"
    by (simp add: responder_step_def ibind_def future_get_def iret_apply)
  have e: "responder_step (\<lambda>w p. Some w) (\<lambda>_ _ _. iret ()) (Collecting GET (seq_no 2) [] [''x'']) (responded [?r2] [])
      = Some (Inr Popping, responded [?r2] [])"
    by (simp add: responder_step_def ithen_def ibind_def iret_apply)
  show ?thesis
    using rr_step [OF rr_step [OF rr_step [OF rr_step [OF 4 responded_pop(1)] responded_pop(2)] v] e] by simp
qed

theorem responder_answers_by_position_witness:
  "[(seq_no 2, GET, [''x''])]
     = map (\<lambda>i. ([seq_no 2] ! i, fst (two_responses ! i),
         map (promised (responded [(GET_BATCH, seq_no 2, [Some 1])] [])) (snd (snd (two_responses ! i))))) [0..<1]"
  using responder_answers_by_position [OF demo_responder_run]
  by (simp add: well_behaved_def same_queues_def keeps_values_def iret_apply demo_api_def api_new_def queue_new_def)

text \<open>
  \<open>async_put_batch\<close> waits for its own futures and then hands them to the responder, whose
  \<open>get\<close> on the first of them throws. The responder thread does not catch it, so the process
  ends.
\<close>

theorem async_put_batch_ends_responder:
  assumes "api_async_put_batch wait s q (k # ks) vs w = Some (Inr (), w')"
  shows "\<exists>w1 fs. w' = w1\<lparr>ap_respond_queue := queue_push (PUT_BATCH, s, None # fs) (ap_respond_queue w1)\<rparr> \<and>
    length fs = length ks \<and>
    (\<forall>seq u. responder_step wait respond (Collecting PUT_BATCH seq (None # fs) []) u = Some (Inl Future_error, u))"
proof -
  have len: "put_futures q ks vs w = Some (Inr fs, w') \<Longrightarrow> length fs = length ks" for ks vs w w' fs
    by (induction ks arbitrary: vs w fs w'; case_tac vs) (auto simp: iret_apply ithrow_apply ibind_Inr_iff)
  obtain fs w0 xs w1 where 1: "put_futures q (k # ks) vs w = Some (Inr fs, w0)"
      "get_all wait fs w0 = Some (Inr xs, w1)"
      "push_response PUT_BATCH s (map (\<lambda>_. None) fs) w1 = Some (Inr (), w')"
    using assms by (auto simp: api_async_put_batch_def ibind_Inr_iff)
  obtain f gs where fs: "fs = f # gs" "length gs = length ks"
    using len [OF 1(1)] by (cases fs) auto
  show ?thesis
  proof (intro exI conjI)
    show "w' = w1\<lparr>ap_respond_queue := queue_push (PUT_BATCH, s, None # map (\<lambda>_. None) gs) (ap_respond_queue w1)\<rparr>"
      using 1(3) by (simp add: fs push_response_def imodify_apply)
  qed (use fs(2) in \<open>simp_all add: responder_step_def future_get_def ibind_def ithrow_apply\<close>)
qed

theorem async_put_batch_ends_responder_witness:
  "\<exists>w' w1. api_async_put_batch small_wait (seq_no 4) 0 [''a''] [''z''] small_world = Some (Inr (), w') \<and>
    w' = w1\<lparr>ap_respond_queue := queue_push (PUT_BATCH, seq_no 4, [None]) (ap_respond_queue w1)\<rparr>"
proof -
  let ?put = "\<lparr>op_key = ''a'', op_value = ''z''\<rparr>"
  have ok: "op_ok engine_valid (ap_proxy small_world) ?put"
    by (simp add: op_ok_def small_world_def small_tables demo_replicas demo_valid)
  obtain v w0 w1 where "push_request 0 ?put small_world = Some (Inr (Some (ap_next_promise small_world)), w0)"
      "future_get small_wait (Some (ap_next_promise small_world)) w0 = Some (Inr v, w1)"
    using small_request_returns [OF small_calm ok, of 0] by blast
  then obtain w' where w': "api_async_put_batch small_wait (seq_no 4) 0 [''a''] [''z''] small_world
      = Some (Inr (), w')"
    by (simp add: api_async_put_batch_def put_future_def get_all_def ibind_def iret_apply push_response_def imodify_apply)
  from async_put_batch_ends_responder [OF w'] w' show ?thesis by auto
qed

section \<open>Flush\<close>

lemma iall_append: "iall (ms @ ns) = ithen (iall ms) (iall ns)"
  by (induction ms) (simp_all add: ithen_def ibind_assoc)

lemma queued_nth:
  "i < length (ap_operation_queues w) \<Longrightarrow> r \<in> set (m_queue (ap_operation_queues w ! i)) \<Longrightarrow> snd r \<in> set (queued w)"
  using nth_mem [of i "ap_operation_queues w"] by (auto simp: queued_def)

context kv_storage begin

text \<open>One queue: its first request is answered with the value stored under its plain key.\<close>

lemma flush_queue_effect:
  assumes "api_wf w" and "i < length (ap_operation_queues w)" and "sound (ap_storage w)"
    and "length (m_queue (ap_operation_queues w ! i)) < 2 ^ 31"
    and "\<forall>r\<in>set (m_queue (ap_operation_queues w ! i)). op_key (fst r) \<in> dom (view (ap_storage w))"
  shows "\<exists>q' w'. flush_queue S i w = Some (Inr (), w') \<and> sound (ap_storage w') \<and>
    view (ap_storage w') = view (ap_storage w) \<and>
    ap_operation_queues w' = (ap_operation_queues w)[i := q'] \<and>
    m_queue q' = tl (m_queue (ap_operation_queues w ! i)) \<and>
    ap_promises w' = (case m_queue (ap_operation_queues w ! i) of
        [] \<Rightarrow> ap_promises w
      | r # rs \<Rightarrow> (ap_promises w)(snd r \<mapsto> Some (the (view (ap_storage w) (op_key (fst r))))))"
proof (cases "m_queue (ap_operation_queues w ! i)")
  case Nil
  have "queue_ok (ap_operation_queues w ! i)" using api_wfD(1) [OF assms(1) nth_mem [OF assms(2)]] .
  then have "queue_size (ap_operation_queues w ! i) = 0"
    using queue_size_length [OF _ assms(4)] Nil by simp
  then show ?thesis
    using Nil assms(3) by (intro exI [of _ "ap_operation_queues w ! i"]) (simp add: flush_queue_def)
next
  case (Cons r rs)
  let ?q = "ap_operation_queues w ! i"
  obtain oper pid where r: "r = (oper, pid)" by (cases r)
  have ok: "queue_ok ?q" using api_wfD(1) [OF assms(1) nth_mem [OF assms(2)]] .
  have size: "queue_size ?q \<noteq> 0" using queue_size_length [OF ok assms(4)] Cons by simp
  obtain q' where pop: "queue_pop ?q = Some ((oper, pid), q')" "m_queue q' = rs"
    using Cons by (simp add: queue_pop_def r)
  obtain x where x: "view (ap_storage w) (op_key oper) = Some x"
    using assms(5) Cons by (auto simp: r)
  obtain st where st: "si_put S (ap_storage w) (op_key oper) x = Inr st" "sound st"
      "view st = (view (ap_storage w))(op_key oper \<mapsto> x)"
    using put_law [OF assms(3)] by blast
  have "pid \<in> set (queued w)"
    using queued_nth [OF assms(2), of "(oper, pid)"] Cons by (simp add: r)
  then have "ap_promises w pid = Some None" using api_wfD(6) [OF assms(1)] by blast
  moreover have "(view (ap_storage w))(op_key oper \<mapsto> x) = view (ap_storage w)"
    using x by (simp add: fun_upd_idem)
  ultimately show ?thesis
    using size pop get_law [OF assms(3) x] st x Cons
    by (intro exI [of _ q'])
      (simp add: flush_queue_def r ibind_def ithen_def storage_get_def storage_put_def promise_set_def set_value_def)
qed

lemma flush_effect:
  assumes "api_wf w" and "sound (ap_storage w)" and "n \<le> length (ap_operation_queues w)"
    and "\<forall>q\<in>set (ap_operation_queues w). length (m_queue q) < 2 ^ 31 \<and>
      (\<forall>r\<in>set (m_queue q). op_key (fst r) \<in> dom (view (ap_storage w)))"
  shows "\<exists>w'. iall (map (flush_queue S) [0..<n]) w = Some (Inr (), w') \<and> api_wf w' \<and>
    sound (ap_storage w') \<and> view (ap_storage w') = view (ap_storage w) \<and>
    length (ap_operation_queues w') = length (ap_operation_queues w) \<and>
    (\<forall>i<length (ap_operation_queues w). m_queue (ap_operation_queues w' ! i) =
       (if i < n then tl (m_queue (ap_operation_queues w ! i)) else m_queue (ap_operation_queues w ! i))) \<and>
    (\<forall>i<n. \<forall>r rs. m_queue (ap_operation_queues w ! i) = r # rs \<longrightarrow>
       ap_promises w' (snd r) = Some (Some (the (view (ap_storage w) (op_key (fst r))))))"
  using assms(3)
proof (induction n)
  case 0
  then show ?case using assms(1,2) by (simp add: iret_apply)
next
  case (Suc n)
  let ?qs = "ap_operation_queues w"
  obtain w1 where w1: "iall (map (flush_queue S) [0..<n]) w = Some (Inr (), w1)" "api_wf w1" "sound (ap_storage w1)"
      "view (ap_storage w1) = view (ap_storage w)" "length (ap_operation_queues w1) = length ?qs"
      "\<forall>i<length ?qs. m_queue (ap_operation_queues w1 ! i) = (if i < n then tl (m_queue (?qs ! i)) else m_queue (?qs ! i))"
      "\<forall>i<n. \<forall>r rs. m_queue (?qs ! i) = r # rs \<longrightarrow>
         ap_promises w1 (snd r) = Some (Some (the (view (ap_storage w) (op_key (fst r)))))"
    using Suc by auto
  have n: "n < length ?qs" using Suc.prems by simp
  have q: "m_queue (ap_operation_queues w1 ! n) = m_queue (?qs ! n)" using w1(6) n by simp
  obtain q' w2 where w2: "flush_queue S n w1 = Some (Inr (), w2)" "sound (ap_storage w2)"
      "view (ap_storage w2) = view (ap_storage w1)" "ap_operation_queues w2 = (ap_operation_queues w1)[n := q']"
      "m_queue q' = tl (m_queue (?qs ! n))"
      "ap_promises w2 = (case m_queue (?qs ! n) of [] \<Rightarrow> ap_promises w1
         | r # rs \<Rightarrow> (ap_promises w1)(snd r \<mapsto> Some (the (view (ap_storage w1) (op_key (fst r))))))"
    using flush_queue_effect [OF w1(2) _ w1(3), of n] assms(4) n w1(4,5) nth_mem [OF n] by (auto simp: q)
  have wf2: "api_wf w2" using flush_queue_wf [OF _ w1(2) w2(1)] n w1(5) by simp
  have ans: "ap_promises w2 (snd r) = Some (Some (the (view (ap_storage w) (op_key (fst r)))))"
    if i: "i < Suc n" and r: "m_queue (?qs ! i) = r # rs" for i r rs
  proof (cases "i = n")
    case True
    with r w1(4) w2(6) show ?thesis by simp
  next
    case False
    with i have "i < n" by simp
    with r w1(7) have s: "ap_promises w1 (snd r) = Some (Some (the (view (ap_storage w) (op_key (fst r)))))"
      by blast
    have "snd r' \<noteq> snd r" if "m_queue (?qs ! n) = r' # rs'" for r' rs'
    proof -
      have "snd r' \<in> set (queued w1)"
        using queued_nth [of n w1 r'] that q n w1(5) by simp
      then show ?thesis using api_wfD(6) [OF w1(2)] s by fastforce
    qed
    with s w2(6) show ?thesis by (auto split: list.splits)
  qed
  have run: "iall (map (flush_queue S) [0..<Suc n]) w = Some (Inr (), w2)"
    using w1(1) w2(1) by (simp add: iall_append ithen_def ibind_def iret_apply)
  have queues: "\<forall>i<length ?qs. m_queue (ap_operation_queues w2 ! i)
      = (if i < Suc n then tl (m_queue (?qs ! i)) else m_queue (?qs ! i))"
    using w1(5,6) w2(4,5) n by (auto simp: nth_list_update less_Suc_eq)
  show ?case
    by (intro exI [of _ w2] conjI run wf2 queues)
      (use w1 w2 ans in \<open>simp_all del: split_paired_All\<close>)
qed

end

text \<open>
  \<open>flush\<close> drops writes. It answers the first request of every queue with what the storage
  holds under the plain key, also when the request is a \<open>put\<close>, whose value is stored nowhere:
  the storage holds the same as before. The other requests stay queued.
\<close>

theorem flush_answers_from_storage:
  assumes "kv_storage S view sound" and "api_wf w" and "sound (ap_storage w)"
    and "\<forall>q\<in>set (ap_operation_queues w). length (m_queue q) < 2 ^ 31 \<and>
      (\<forall>r\<in>set (m_queue q). op_key (fst r) \<in> dom (view (ap_storage w)))"
  shows "\<exists>w'. flush S w = Some (Inr (), w') \<and> view (ap_storage w') = view (ap_storage w) \<and>
    map m_queue (ap_operation_queues w') = map (\<lambda>q. tl (m_queue q)) (ap_operation_queues w) \<and>
    (\<forall>q r rs. q \<in> set (ap_operation_queues w) \<longrightarrow> m_queue q = r # rs \<longrightarrow>
       ap_promises w' (snd r) = Some (Some (the (view (ap_storage w) (op_key (fst r))))))"
proof -
  obtain w' where w': "flush S w = Some (Inr (), w')" "view (ap_storage w') = view (ap_storage w)"
      "length (ap_operation_queues w') = length (ap_operation_queues w)"
      "\<forall>i<length (ap_operation_queues w).
         m_queue (ap_operation_queues w' ! i) = tl (m_queue (ap_operation_queues w ! i))"
      "\<forall>i<length (ap_operation_queues w). \<forall>r rs. m_queue (ap_operation_queues w ! i) = r # rs \<longrightarrow>
         ap_promises w' (snd r) = Some (Some (the (view (ap_storage w) (op_key (fst r)))))"
    using kv_storage.flush_effect [OF assms(1-3) order_refl assms(4)] by (auto simp: flush_def)
  have "map m_queue (ap_operation_queues w') = map (\<lambda>q. tl (m_queue q)) (ap_operation_queues w)"
    using w'(3,4) by (intro nth_equalityI) simp_all
  with w' show ?thesis by (metis in_set_conv_nth)
qed

text \<open>A queued write of \<open>z\<close> to the key \<open>0\<close> is answered with the stored value and lost.\<close>

definition demo_flush :: "(string \<rightharpoonup> string) list api" where
  "demo_flush =
     demo_api\<lparr>ap_operation_queues := [queue_push (\<lparr>op_key = ''0'', op_value = ''z''\<rparr>, 0) queue_new],
       ap_promises := [0 \<mapsto> None], ap_next_promise := 1\<rparr>"

lemma demo_flush_wf: "api_wf demo_flush"
  by (auto simp: api_wf_def demo_flush_def demo_api_def api_new_def queued_def queue_new_def
      queue_push_def queue_ok_def)

theorem flush_answers_from_storage_witness:
  "\<exists>w'. flush (env_storage ref_env) demo_flush = Some (Inr (), w') \<and>
    ap_promises w' 0 = Some (Some (demo_stored ''x'')) \<and> ap_storage w' ! 0 = demo_store ! 0"
proof -
  have kv: "kv_storage (env_storage ref_env) (\<lambda>cs. cs ! 0) (\<lambda>cs. length cs = 1)"
    by (rule ref_store.kv_storage_axioms)
  have q: "ap_operation_queues demo_flush = [queue_push (\<lparr>op_key = ''0'', op_value = ''z''\<rparr>, 0) queue_new]"
      "ap_storage demo_flush = demo_store"
    by (simp_all add: demo_flush_def demo_api_def api_new_def)
  have m: "m_queue (queue_push (\<lparr>op_key = ''0'', op_value = ''z''\<rparr>, 0) queue_new)
      = [(\<lparr>op_key = ''0'', op_value = ''z''\<rparr>, 0 :: nat)]"
    by (simp add: queue_new_def)
  have 0: "(demo_store ! 0) ''0'' = Some (demo_stored ''x'')" by (simp add: demo_store_def)
  obtain w' where w': "flush (env_storage ref_env) demo_flush = Some (Inr (), w')" "ap_storage w' ! 0 = demo_store ! 0"
      "\<forall>q r rs. q \<in> set (ap_operation_queues demo_flush) \<longrightarrow> m_queue q = r # rs \<longrightarrow>
         ap_promises w' (snd r) = Some (Some (the ((demo_store ! 0) (op_key (fst r)))))"
    using flush_answers_from_storage [OF kv demo_flush_wf] m 0 by (auto simp: q demo_one_server)
  have "ap_promises w' 0 = Some (Some (demo_stored ''x''))"
    using w'(3) m by (simp add: q 0)
  with w' show ?thesis by blast
qed

end
