(* ===== verification/Thrift_Properties.thy ===== *)
theory Thrift_Properties
  imports Response_Service
begin

text \<open>
  The theorems about the generated RPC code, for any protocol that satisfies the contract:
  a remote call is the local call, errors reach the caller, oneway calls answer nothing,
  malformed structs are rejected, and a reply for another thread is passed on.
\<close>

section \<open>Structs on the wire\<close>

text \<open>
  C27. Reading a \<open>sequence_id\<close>. From any sequence of fields, in any order and with fields
  of unknown number or wrong type in between, the reader takes exactly the struct; it
  returns the last value of each of the three fields if all three occur and throws
  \<open>INVALID_DATA\<close> if one is missing.
\<close>

theorem sequence_id_read_any_fields:
  assumes "thrift_input P conn sz" and "fields_ok 8 fs" and "conn w a h" and "w_in_depth a \<le> 50"
    and "w_in a = value_tokens (V_Struct fs) @ rest"
  shows "\<exists>w'. conn w' (a\<lparr>w_in := rest\<rparr>) h \<and> sequence_id_read P x w =
    Some (if seq_complete fs then Inr (fst (seq_fields x fs), sum_list (map sz (value_tokens (V_Struct fs))))
          else Inl (Protocol_exception INVALID_DATA), w')"
proof (cases "seq_complete fs")
  case True
  have "w_in_depth a + Suc 8 \<le> recursion_limit" using assms(4) by (simp add: recursion_limit_def)
  with takesD [OF thrift_input.sequence_id_read_takes [OF assms(1,2) True] assms(3,5)] True
  show ?thesis by auto
next
  case False
  have "w_in_depth a + Suc 8 \<le> recursion_limit" using assms(4) by (simp add: recursion_limit_def)
  with thrift_input.sequence_id_read_missing [OF assms(1,2) False assms(3,5)] False
  show ?thesis by auto
qed

theorem sequence_id_read_any_fields_witness:
  "\<exists>w'. sequence_id_read token_proto sequence_id_new
      (wire_new\<lparr>w_in := value_tokens (V_Struct [(3, V_I64 9), (1, V_String ''no''), (7, V_I32 1), (1, V_I64 4),
        (2, V_I64 5), (1, V_I64 6)])\<rparr>, ()) =
    Some (Inr (\<lparr>sq_client_id = 6, sq_client_seq_no = 5, sq_server_seq_no = 9\<rparr>, 61), w')"
proof -
  let ?fs = "[(3, V_I64 9), (1, V_String ''no''), (7, V_I32 1), (1, V_I64 4), (2, V_I64 5), (1, V_I64 6)]"
  let ?a = "wire_new\<lparr>w_in := value_tokens (V_Struct ?fs)\<rparr>"
  have c: "seq_complete ?fs" by (simp add: seq_complete_def seq_fields_def seq_upd_def on_i64_def)
  have r: "fst (seq_fields sequence_id_new ?fs) = \<lparr>sq_client_id = 6, sq_client_seq_no = 5, sq_server_seq_no = 9\<rparr>"
    by (simp add: seq_fields_def seq_upd_def on_i64_def sequence_id_new_def)
  have n: "sum_list (map tk_size (value_tokens (V_Struct ?fs))) = 61" by (simp add: tk_size_def)
  have "\<exists>w'. token_conn w' (?a\<lparr>w_in := []\<rparr>) () \<and> sequence_id_read token_proto sequence_id_new (?a, ()) =
    Some (if seq_complete ?fs then Inr (fst (seq_fields sequence_id_new ?fs),
        sum_list (map tk_size (value_tokens (V_Struct ?fs))))
      else Inl (Protocol_exception INVALID_DATA), w')"
    by (rule sequence_id_read_any_fields [OF tok_in.thrift_input_axioms]) (simp_all add: token_conn_def wire_new_def)
  then show ?thesis unfolding if_P [OF c] r n by blast
qed

text \<open>
  C28. Reading arguments is the inverse of writing them. What a client writes for
  \<open>async_put_batch\<close> reads back at the server as the same identifier, keys and values with
  all three \<open>__isset\<close> flags set, whatever the struct held before, and both sides count the
  same number of bytes.
\<close>

theorem async_put_batch_args_roundtrip:
  assumes "thrift_output P conn sz" and "thrift_input Q conn' sz"
    and "value_ok (V_List keys)" and "value_ok (V_List vals)"
  shows "\<exists>ts n. gives conn 2 (async_put_batch_pargs_write P s keys vals) ts n \<and>
    takes conn' 3 (async_put_batch_args_read Q x0) ts
      (\<lparr>apb_seq_id = s, apb_keys = keys, apb_values = vals,
        apb_isset_seq_id = True, apb_isset_keys = True, apb_isset_values = True\<rparr>, n)"
  using thrift_output.async_put_batch_pargs_write_gives [OF assms(1,3,4), of 0 s]
    thrift_input.async_put_batch_args_takes [OF assms(2-4), of x0 s]
  by (metis numeral_2_eq_2)

theorem async_put_batch_args_roundtrip_witness:
  "\<exists>ts n. gives token_conn 2 (async_put_batch_pargs_write (token_proto :: unit wired tproto) sequence_id_new
        [''k'', ''l''] [''v'', '''']) ts n \<and>
    takes token_conn 3 (async_put_batch_args_read (token_proto :: unit wired tproto) async_put_batch_args_new) ts
      (\<lparr>apb_seq_id = sequence_id_new, apb_keys = [''k'', ''l''], apb_values = [''v'', ''''],
        apb_isset_seq_id = True, apb_isset_keys = True, apb_isset_values = True\<rparr>, n)"
  by (rule async_put_batch_args_roundtrip [OF tok_out.thrift_output_axioms tok_in.thrift_input_axioms]) simp_all

section \<open>Remote calls\<close>

text \<open>
  C22. A remote \<open>get_batch\<close> is the local one. The client writes one message; the server
  that finds it after the header runs the handler on the same keys and writes one reply; on
  that reply the client returns what the handler returned. Client and server may use
  different protocol objects, both keeping the contract.
\<close>

theorem remote_get_batch:
  assumes "thrift_output co cconn csz" and "thrift_input ci cconn csz"
    and "thrift_server ip op conn sz pr"
    and "value_ok (V_List keys)" and "value_ok (V_List vals)"
    and "handles conn (if_get_batch (pr_iface pr) keys) h (Inr vals) h'"
  shows "\<exists>call reply. gives cconn 2 (send_get_batch co keys) (Tk_Message ''get_batch'' T_CALL 0 # call) () \<and>
    (\<forall>w a rest. conn w a h \<longrightarrow> unnested a \<longrightarrow> w_in a = call @ rest \<longrightarrow>
       (\<exists>w'. dispatchCall pr ip op ''get_batch'' 0 ctx w = Some (Inr True, w') \<and>
          conn w' (a\<lparr>w_in := rest, w_out := w_out a @ reply\<rparr>) h')) \<and>
    takes cconn 3 (recv_get_batch ci ret) reply vals"
proof (rule exI [of _ "value_tokens (V_Struct [(1, V_List keys)]) @ [Tk_MessageEnd]"],
    rule exI [of _ "message ''get_batch'' T_REPLY 0 (V_Struct [(0, V_List vals)])"], intro conjI allI impI)
  show "gives cconn 2 (send_get_batch co keys) (Tk_Message ''get_batch'' T_CALL 0 #
      value_tokens (V_Struct [(1, V_List keys)]) @ [Tk_MessageEnd]) ()"
    using thrift_output.send_gives(9) [OF assms(1,4)] by (simp add: message_def del: value_tokens.simps)
  show "takes cconn 3 (recv_get_batch ci ret) (message ''get_batch'' T_REPLY 0 (V_Struct [(0, V_List vals)])) vals"
    by (rule thrift_input.recv_takes(5) [OF assms(2,5)])
  fix w a rest
  assume "conn w a h" "unnested a" "w_in a = (value_tokens (V_Struct [(1, V_List keys)]) @ [Tk_MessageEnd]) @ rest"
  then show "\<exists>w'. dispatchCall pr ip op ''get_batch'' 0 ctx w = Some (Inr True, w') \<and>
      conn w' (a\<lparr>w_in := rest, w_out := w_out a @ message ''get_batch'' T_REPLY 0 (V_Struct [(0, V_List vals)])\<rparr>) h'"
    using thrift_server.answers_get_batch [OF assms(3-6), of 0 ctx]
    by (simp add: thrift_server.answers_def [OF assms(3)] del: value_tokens.simps)
qed

text \<open>A handler that appends a mark to every key and counts its calls.\<close>

definition marking_iface :: "nat wired iface" where
  "marking_iface = null_iface\<lparr>if_get_batch := (\<lambda>keys (a, n). Some (Inr (map (\<lambda>k. k @ ''!'') keys), (a, Suc n))),
     if_get := (\<lambda>key (a, n). Some (Inl (Logic_error ''Key does not exist''), (a, Suc n))),
     if_async_put := (\<lambda>s k v (a, n). Some (Inl (Logic_error ''Key does not exist''), (a, Suc n)))\<rparr>"

lemma marking_handles:
  "handles token_conn (if_get_batch (pr_iface (plain_processor marking_iface)) [''k'', ''l'']) 0 (Inr [''k!'', ''l!'']) 1"
  "handles token_conn (if_get (pr_iface (plain_processor marking_iface)) k) 0 (Inl (Logic_error ''Key does not exist'')) 1"
  "handles token_conn (if_async_put (pr_iface (plain_processor marking_iface)) s k v) 0
     (Inl (Logic_error ''Key does not exist'')) 1"
  by (simp_all add: handles_def plain_processor_def marking_iface_def token_conn_def)

theorem remote_get_batch_witness:
  "\<exists>call reply. gives token_conn 2 (send_get_batch (token_proto :: unit wired tproto) [''k'', ''l''])
      (Tk_Message ''get_batch'' T_CALL 0 # call) () \<and>
    (\<exists>w'. dispatchCall (plain_processor marking_iface) token_proto token_proto ''get_batch'' 0 0
        (wire_new\<lparr>w_in := call\<rparr>, 0) = Some (Inr True, w') \<and> w_out (fst w') = reply \<and> snd w' = 1) \<and>
    takes token_conn 3 (recv_get_batch (token_proto :: unit wired tproto) []) reply [''k!'', ''l!'']"
proof -
  obtain call reply where c: "gives token_conn 2 (send_get_batch (token_proto :: unit wired tproto) [''k'', ''l''])
      (Tk_Message ''get_batch'' T_CALL 0 # call) ()"
    "\<forall>w a rest. token_conn w a 0 \<longrightarrow> unnested a \<longrightarrow> w_in a = call @ rest \<longrightarrow>
       (\<exists>w'. dispatchCall (plain_processor marking_iface) token_proto token_proto ''get_batch'' 0 0 w
          = Some (Inr True, w') \<and> token_conn w' (a\<lparr>w_in := rest, w_out := w_out a @ reply\<rparr>) 1)"
    "takes token_conn 3 (recv_get_batch (token_proto :: unit wired tproto) []) reply [''k!'', ''l!'']"
    using remote_get_batch [OF tok_out.thrift_output_axioms tok_in.thrift_input_axioms
        tok_server.thrift_server_axioms _ _ marking_handles(1), of 0 "[]"] by auto
  have "\<exists>w'. dispatchCall (plain_processor marking_iface) token_proto token_proto ''get_batch'' 0 0
        (wire_new\<lparr>w_in := call\<rparr>, 0) = Some (Inr True, w') \<and>
      token_conn w' (wire_new\<lparr>w_in := call\<rparr>\<lparr>w_in := [], w_out := w_out (wire_new\<lparr>w_in := call\<rparr>) @ reply\<rparr>) 1"
    by (rule c(2) [rule_format]) (simp_all add: token_conn_def unnested_def wire_new_def)
  then have "\<exists>w'. dispatchCall (plain_processor marking_iface) token_proto token_proto ''get_batch'' 0 0
        (wire_new\<lparr>w_in := call\<rparr>, 0) = Some (Inr True, w') \<and> w_out (fst w') = reply \<and> snd w' = 1"
    by (auto simp: token_conn_def wire_new_def)
  with c(1,3) show ?thesis by blast
qed



text \<open>
  C24. A oneway call is silent. Dispatching \<open>async_put\<close> consumes the call, runs the handler
  once and writes nothing, also when the handler throws: the caller never learns of it.
\<close>

theorem oneway_call_is_silent:
  assumes "thrift_server ip op conn sz pr" and "value_ok (V_String key)" and "value_ok (V_String val)"
    and "handles conn (if_async_put (pr_iface pr) s key val) h r h'" and "\<forall>e. r = Inl e \<longrightarrow> is_exception e"
    and "conn w a h" and "unnested a"
    and "w_in a = value_tokens (V_Struct [(1, seq_value s), (2, V_String key), (3, V_String val)]) @ Tk_MessageEnd # rest"
  shows "\<exists>w'. dispatchCall pr ip op ''async_put'' seqid ctx w = Some (Inr True, w') \<and>
    conn w' (a\<lparr>w_in := rest\<rparr>) h'"
proof -
  have "thrift_server.answers ip op conn pr ''async_put'' seqid ctx
      (V_Struct [(1, seq_value s), (2, V_String key), (3, V_String val)]) h [] h'"
    using thrift_server.answers_async_put [OF assms(1-4)] assms(5) by blast
  with assms(6-8) show ?thesis
    by (simp add: thrift_server.answers_def [OF assms(1)] del: value_tokens.simps)
qed

theorem oneway_call_is_silent_witness:
  "\<exists>w'. dispatchCall (plain_processor marking_iface) token_proto token_proto ''async_put'' 0 0
      (wire_new\<lparr>w_in := value_tokens (V_Struct [(1, seq_value sequence_id_new), (2, V_String ''k''), (3, V_String ''v'')])
        @ [Tk_MessageEnd]\<rparr>, 0) = Some (Inr True, w') \<and> w_out (fst w') = [] \<and> snd w' = 1"
proof -
  let ?a = "wire_new\<lparr>w_in := value_tokens (V_Struct [(1, seq_value sequence_id_new), (2, V_String ''k''), (3, V_String ''v'')])
        @ [Tk_MessageEnd]\<rparr>"
  have "\<exists>w'. dispatchCall (plain_processor marking_iface) token_proto token_proto ''async_put'' 0 0 (?a, 0)
      = Some (Inr True, w') \<and> token_conn w' (?a\<lparr>w_in := []\<rparr>) 1"
    by (rule oneway_call_is_silent [OF tok_server.thrift_server_axioms _ _ marking_handles(3)])
      (simp_all add: token_conn_def unnested_def wire_new_def)
  then show ?thesis by (auto simp: token_conn_def wire_new_def)
qed

text \<open>
  C26. A call of a method the service does not have is consumed, whatever its arguments, and
  answered with the exception \<open>UNKNOWN_METHOD\<close> that names the method; the handler is not run.
\<close>

theorem unknown_method_is_answered:
  assumes "thrift_server ip op conn sz pr" and "process_map pr name = None" and "length name < 2 ^ 30"
    and "fields_ok 7 fs" and "conn w a h" and "unnested a"
    and "w_in a = value_tokens (V_Struct fs) @ Tk_MessageEnd # rest"
  shows "\<exists>w'. dispatchCall pr ip op name seqid ctx w = Some (Inr True, w') \<and>
    conn w' (a\<lparr>w_in := rest, w_out := w_out a @ exception_message name seqid UNKNOWN_METHOD
      (''Invalid method name: '' @ CHR 0x27 # name @ [CHR 0x27])\<rparr>) h"
proof -
  have v: "value_ok (V_Struct fs) \<and> value_depth (V_Struct fs) \<le> 8" using assms(4)
    by (induction fs) (auto simp: fields_ok_def)
  show ?thesis
    unfolding dispatchCall_def
    by (rule thrift_server.dispatch_unknown [where pm = "process_map pr" and conn = conn, OF assms(1,2,5,6,7)])
      (use v assms(3) in simp_all)
qed

theorem unknown_method_is_answered_witness:
  "\<exists>w'. dispatchCall (plain_processor marking_iface) token_proto token_proto ''getx'' 3 0
      (wire_new\<lparr>w_in := value_tokens (V_Struct [(1, V_List [''k''])]) @ [Tk_MessageEnd]\<rparr>, 0) = Some (Inr True, w') \<and>
    w_out (fst w') = exception_message ''getx'' 3 UNKNOWN_METHOD
      (''Invalid method name: '' @ CHR 0x27 # ''getx'' @ [CHR 0x27]) \<and> snd w' = 0"
proof -
  let ?a = "wire_new\<lparr>w_in := value_tokens (V_Struct [(1, V_List [''k''])]) @ [Tk_MessageEnd]\<rparr>"
  let ?msg = "''Invalid method name: '' @ CHR 0x27 # ''getx'' @ [CHR 0x27]"
  have "\<exists>w'. dispatchCall (plain_processor marking_iface) token_proto token_proto ''getx'' 3 0 (?a, 0)
      = Some (Inr True, w') \<and>
    token_conn w' (?a\<lparr>w_in := [], w_out := w_out ?a @ exception_message ''getx'' 3 UNKNOWN_METHOD ?msg\<rparr>) 0"
    by (rule unknown_method_is_answered [where fs = "[(1, V_List [''k''])]", OF tok_server.thrift_server_axioms])
      (simp_all add: process_map_def token_conn_def unnested_def wire_new_def)
  then show ?thesis by (auto simp: token_conn_def wire_new_def)
qed

section \<open>Receiving\<close>

text \<open>
  A reply to another method derails the plain client. \<open>recv_get\<close> skips a reply whose name
  is not \<open>get\<close> but does not stop there: it goes on and returns whatever struct comes next on
  the connection as the value.
\<close>

theorem recv_get_reads_past_mismatch:
  assumes "thrift_input P conn sz" and "name \<noteq> ''get''" and "value_ok (V_String x)"
  shows "takes conn 3 (recv_get P ret)
    (message name T_REPLY seqid (V_Struct []) @ value_tokens (V_Struct [(0, V_String x)]) @ [Tk_MessageEnd]) x"
proof -
  have rd: "takes conn 3 (get_presult_read P \<lparr>gr_success = ret, gr_isset_success = False\<rparr>)
      (value_tokens (V_Struct [(0, V_String x)]))
      (\<lparr>gr_success = x, gr_isset_success = True\<rparr>, sum_list (map sz (value_tokens (V_Struct [(0, V_String x)]))))"
    by (rule takes_mono [OF thrift_input.get_presult_read_takes [OF assms(1), of 2 "[(0, V_String x)]",
          unfolded get_result_reads]]) (use assms(3) in simp_all)
  have "takes conn 3 (recv_get P ret)
      ((message name T_REPLY seqid (V_Struct []) @ value_tokens (V_Struct [(0, V_String x)]) @ [Tk_MessageEnd]) @ []) x"
    unfolding recv_get_def
    by (rule takes_bind [OF thrift_input.recv_mismatch [OF assms(1) rd assms(2)]]) (simp_all add: takes_iret)
  then show ?thesis by simp
qed

theorem recv_get_reads_past_mismatch_witness:
  "takes token_conn 3 (recv_get (token_proto :: unit wired tproto) [])
    (message ''put'' T_REPLY 0 (V_Struct []) @ value_tokens (V_Struct [(0, V_String ''stolen'')]) @ [Tk_MessageEnd]) ''stolen''"
  by (rule recv_get_reads_past_mismatch [OF tok_in.thrift_input_axioms]) simp_all

text \<open>
  C29. The concurrent client keeps replies apart. A thread that waits for reply \<open>n\<close> and finds
  the header of reply \<open>m\<close> parks it, waits while its owner reads the body, and then returns the
  value of its own reply.
\<close>

theorem concurrent_get_finds_own_reply:
  assumes "thrift_input P conn sz" and "m \<noteq> n" and "value_ok (V_String x)"
    and "handles conn (recv_lock sy n) hin (Inr ()) h" and "handles conn (getPending sy) h (Inr None) h"
    and "handles conn (updatePending sy name T_REPLY m) h (Inr ()) hpark"
    and "\<forall>w a r. conn w (a\<lparr>w_in := value_tokens u @ Tk_MessageEnd # r\<rparr>) hpark \<longrightarrow>
      (\<exists>w'. waitForWork sy n w = Some (Inr (), w') \<and> conn w' (a\<lparr>w_in := r\<rparr>) h)"
    and "handles conn (recv_commit sy) h (Inr ()) hdone" and "\<forall>w a. conn w a hdone \<longrightarrow> conn (recv_unlock sy n w) a hout"
    and "conn w a hin" and "unnested a"
    and "w_in a = message name T_REPLY m u @ message ''get'' T_REPLY n (V_Struct [(0, V_String x)]) @ rest"
  shows "\<exists>w'. c_recv_get sy P ret n w = Some (Inr x, w') \<and> conn w' (a\<lparr>w_in := rest\<rparr>) hout"
proof -
  let ?own = "value_tokens (V_Struct [(0, V_String x)])"
  let ?rd = "get_presult_read P \<lparr>gr_success = ret, gr_isset_success = False\<rparr>"
  let ?fin = "\<lambda>result. if gr_isset_success result then ithen (recv_commit sy) (iret (gr_success result))
      else ithrow (Application_exception MISSING_RESULT ''get failed: unknown result'')"
  have d: "w_in_depth a + 3 \<le> recursion_limit" using assms(11) by (simp add: unnested_def recursion_limit_def)
  have rd: "takes conn 3 ?rd ?own (\<lparr>gr_success = x, gr_isset_success = True\<rparr>, sum_list (map sz ?own))"
    by (rule takes_mono [OF thrift_input.get_presult_read_takes [OF assms(1), of 2 "[(0, V_String x)]",
          unfolded get_result_reads]]) (use assms(3) in simp_all)
  have hdr: "takes conn 3 (readMessageBegin P) [Tk_Message nm T_REPLY k] (nm, T_REPLY, k)" for nm k
    by (rule takes_mono [OF thrift_input.in_message [OF assms(1)]]) simp
  obtain w1 where 1: "recv_lock sy n w = Some (Inr (), w1)" "conn w1 a h"
    using assms(4,10) by (auto simp: handles_def)
  obtain w2 where 2: "getPending sy w1 = Some (Inr None, w2)" "conn w2 a h"
    using assms(5) 1(2) by (auto simp: handles_def)
  let ?r3 = "message ''get'' T_REPLY n (V_Struct [(0, V_String x)]) @ rest"
  obtain w3 where 3: "readMessageBegin P w2 = Some (Inr (name, T_REPLY, m), w3)"
      "conn w3 (a\<lparr>w_in := value_tokens u @ Tk_MessageEnd # ?r3\<rparr>) h"
    using takesD [where conn = conn, OF hdr 2(2), of name m "value_tokens u @ Tk_MessageEnd # ?r3"] d assms(12)
    by (auto simp: message_def simp del: value_tokens.simps)
  obtain w4 where 4: "updatePending sy name T_REPLY m w3 = Some (Inr (), w4)"
      "conn w4 (a\<lparr>w_in := value_tokens u @ Tk_MessageEnd # ?r3\<rparr>) hpark"
    using assms(6) 3(2) by (auto simp: handles_def)
  obtain w5 where 5: "waitForWork sy n w4 = Some (Inr (), w5)" "conn w5 (a\<lparr>w_in := ?r3\<rparr>) h"
    using assms(7) 4(2) by blast
  obtain w6 where 6: "getPending sy w5 = Some (Inr None, w6)" "conn w6 (a\<lparr>w_in := ?r3\<rparr>) h"
    using assms(5) 5(2) by (auto simp: handles_def)
  have "w_in (a\<lparr>w_in := ?r3\<rparr>) = [Tk_Message ''get'' T_REPLY n] @ (?own @ Tk_MessageEnd # rest)"
    by (simp add: message_def del: value_tokens.simps)
  from takesD [where conn = conn, OF hdr 6(2) this] d
  obtain w7 where 7: "readMessageBegin P w6 = Some (Inr (''get'', T_REPLY, n), w7)"
      "conn w7 (a\<lparr>w_in := ?own @ Tk_MessageEnd # rest\<rparr>) h"
    by (force simp del: value_tokens.simps)
  obtain w8 where 8: "?rd w7 = Some (Inr (\<lparr>gr_success = x, gr_isset_success = True\<rparr>, sum_list (map sz ?own)), w8)"
      "conn w8 (a\<lparr>w_in := Tk_MessageEnd # rest\<rparr>) h"
    using takesD [where conn = conn, OF rd 7(2), of "Tk_MessageEnd # rest"] d by (auto simp del: value_tokens.simps)
  obtain w9 where 9: "end_reply P w8 = Some (Inr (), w9)" "conn w9 (a\<lparr>w_in := rest\<rparr>) h"
    using takesD [where conn = conn, OF thrift_input.end_reply_takes [OF assms(1)] 8(2), of rest 3] d by auto
  obtain wa where a: "recv_commit sy w9 = Some (Inr (), wa)" "conn wa (a\<lparr>w_in := rest\<rparr>) hdone"
    using assms(8) 9(2) by (auto simp: handles_def)
  have "recv_loop sy P ''get'' n ?rd ?fin w5 = Some (Inr x, wa)"
    by (subst recv_loop.simps)
      (simp add: next_header_def ibind_Inr 6(1) 7(1) own_reply_def iwhen_def ithen_Inr iret_apply 8(1) 9(1) a(1))
  then have "recv_loop sy P ''get'' n ?rd ?fin w1 = Some (Inr x, wa)"
    using assms(2) by (subst recv_loop.simps) (simp add: next_header_def ibind_Inr 2(1) 3(1) 4(1) 5(1))
  then have "c_recv_get sy P ret n w = Some (Inr x, recv_unlock sy n wa)"
    by (simp add: c_recv_get_def recv_sentry_def ithen_Inr 1(1) ifinally_Some)
  with a(2) assms(9) show ?thesis by blast
qed

text \<open>A \<open>sync\<close> in which the owner of a parked reply reads its body at once.\<close>

definition eager_sync :: "bool wired sync" where
  "eager_sync =
     \<lparr>generateSeqId = iret 0, send_lock = iret (), send_commit = iret (), send_unlock = (\<lambda>w. w),
      recv_lock = (\<lambda>_. iret ()), recv_commit = iret (), recv_unlock = (\<lambda>_ w. w),
      getPending = iret None,
      updatePending = (\<lambda>_ _ _. imodify (\<lambda>(a, h). (a, True))),
      waitForWork = (\<lambda>_. ithen (token_skip T_STRUCT) (ithen (exactly Tk_MessageEnd) (imodify (\<lambda>(a, h). (a, False)))))\<rparr>"

theorem concurrent_get_finds_own_reply_witness:
  "\<exists>w'. c_recv_get eager_sync token_proto [] 2 (wire_new\<lparr>w_in := message ''get'' T_REPLY 1 (V_Struct [(0, V_String ''other'')])
      @ message ''get'' T_REPLY 2 (V_Struct [(0, V_String ''mine'')])\<rparr>, False) = Some (Inr ''mine'', w')"
proof -
  let ?u = "V_Struct [(0, V_String ''other'')]"
  let ?a = "wire_new\<lparr>w_in := message ''get'' T_REPLY 1 ?u @ message ''get'' T_REPLY 2 (V_Struct [(0, V_String ''mine'')])\<rparr>"
  have "\<exists>w'. c_recv_get eager_sync token_proto [] 2 (?a, False) = Some (Inr ''mine'', w') \<and>
      token_conn w' (?a\<lparr>w_in := []\<rparr>) False"
  proof (rule concurrent_get_finds_own_reply [OF tok_in.thrift_input_axioms,
        where hin = False and h = False and hpark = True and hdone = False and u = ?u and m = 1 and name = "''get''"])
    show "\<forall>w a r. token_conn w (a\<lparr>w_in := value_tokens ?u @ Tk_MessageEnd # r\<rparr>) True \<longrightarrow>
      (\<exists>w'. waitForWork eager_sync 2 w = Some (Inr (), w') \<and> token_conn w' (a\<lparr>w_in := r\<rparr>) False)"
      by (auto simp: eager_sync_def token_conn_def ithen_Inr token_skip_def exactly_def next_token_def
          imodify_apply)
  qed (simp_all add: handles_def eager_sync_def token_conn_def unnested_def wire_new_def iret_apply imodify_apply)
  then show ?thesis by blast
qed

text \<open>
  Responses round trip. What the proxy's response client writes for \<open>async_response\<close> is,
  on the client's side, handed to the response handler unchanged: same identifier, operation
  code and results.
\<close>

theorem response_reaches_handler:
  assumes "thrift_output P pconn psz" and "thrift_server ip op conn sz pr" and "value_ok (V_List results)"
    and "handles conn (respond s code results) h (Inr ()) h'"
  shows "\<exists>call. gives pconn 2 (response_async_response P s code results)
      (Tk_Message ''async_response'' T_ONEWAY 0 # call) () \<and>
    (\<forall>w a rest. conn w a h \<longrightarrow> unnested a \<longrightarrow> w_in a = call @ rest \<longrightarrow>
       (\<exists>w'. response_dispatchCall pr respond ip op ''async_response'' 0 ctx w = Some (Inr True, w') \<and>
          conn w' (a\<lparr>w_in := rest\<rparr>) h'))"
proof (rule exI [of _ "value_tokens (response_value s code results) @ [Tk_MessageEnd]"], intro conjI allI impI)
  show "gives pconn 2 (response_async_response P s code results) (Tk_Message ''async_response'' T_ONEWAY 0 #
      value_tokens (response_value s code results) @ [Tk_MessageEnd]) ()"
    using thrift_output.send_async_response_gives [OF assms(1,3)]
    by (simp add: message_def response_async_response_def del: value_tokens.simps)
  fix w a rest
  assume "conn w a h" "unnested a" "w_in a = (value_tokens (response_value s code results) @ [Tk_MessageEnd]) @ rest"
  then show "\<exists>w'. response_dispatchCall pr respond ip op ''async_response'' 0 ctx w = Some (Inr True, w') \<and>
      conn w' (a\<lparr>w_in := rest\<rparr>) h'"
    using thrift_server.response_answers [where conn = conn and respond = respond and r = "Inr ()", OF assms(2-4)] by (simp del: value_tokens.simps)
qed

theorem response_reaches_handler_witness:
  "\<exists>call. gives token_conn 2 (response_async_response (token_proto :: unit wired tproto) sequence_id_new 2 [''x''])
      (Tk_Message ''async_response'' T_ONEWAY 0 # call) () \<and>
    (\<forall>w a rest. token_conn w a [] \<longrightarrow> unnested a \<longrightarrow> w_in a = call @ rest \<longrightarrow>
       (\<exists>w'. response_dispatchCall (plain_processor null_iface) (\<lambda>s c rs. imodify (\<lambda>(a, h). (a, h @ [(s, c, rs)])))
            token_proto token_proto ''async_response'' 0 0 w = Some (Inr True, w') \<and>
          token_conn w' (a\<lparr>w_in := rest\<rparr>) [(sequence_id_new, 2, [''x''])]))"
  by (rule response_reaches_handler [OF tok_out.thrift_output_axioms tok_server.thrift_server_axioms])
    (simp_all add: handles_def token_conn_def imodify_apply)

end
