(* ===== verification/Component_Properties.thy ===== *)
theory Component_Properties
  imports Proxy_Demo
begin

text \<open>
  What the components below the proxy guarantee: the request queue, the update cache, the
  storage clients and the encryption engine.
\<close>

section \<open>The request queue\<close>

text \<open>
  The blocking queue is first in, first out for any interleaving of pushes and pops: what
  has been popped, followed by what is still queued, is what has been pushed, in order, and
  the atomic counter is the number of queued items modulo \<open>2^32\<close>.
\<close>

theorem queue_is_fifo:
  "fst (queue_run queue_push queue_pop queue_new es)
     @ m_queue (snd (queue_run queue_push queue_pop queue_new es)) = pushed es \<and>
   size_ctr (snd (queue_run queue_push queue_pop queue_new es))
     = of_nat (length (m_queue (snd (queue_run queue_push queue_pop queue_new es))))"
  using cppq.run_order [of queue_new es] by (simp add: queue_ok_def) (simp add: queue_new_def)

section \<open>The update cache\<close>

text \<open>
  C16. The update cache delivers a write once to every replica. After
  \<open>populate_replica_updates\<close> with the number of replicas, \<open>check_for_update\<close> on any
  distinct replicas gives each of them the value, in any order, and afterwards exactly the
  replicas not yet asked still have it pending.
\<close>

theorem cache_delivers_once:
  assumes "cache_sized R c" and "0 \<le> R k" and "distinct is" and "\<forall>i\<in>set is. 0 \<le> i \<and> i < R k"
  shows "\<exists>b c1 c2. populate_replica_updates k v (R k) c = Inr (b, c1) \<and>
    take_run (check_for_update k) is c1 = Inr (replicate (length is) v, c2) \<and>
    (\<forall>i. cache_pending c2 k i = (if 0 \<le> i \<and> i < R k \<and> i \<notin> set is then Some v else None))"
  by (rule ucache.put_then_take_all [OF assms])

theorem cache_delivers_once_witness:
  "\<exists>b c1 c2. populate_replica_updates ''k'' ''v'' 3 Map.empty = Inr (b, c1) \<and>
    take_run (check_for_update ''k'') [2, 0] c1 = Inr ([''v'', ''v''], c2) \<and>
    cache_pending c2 ''k'' 1 = Some ''v'' \<and> cache_pending c2 ''k'' 2 = None"
proof -
  have "\<exists>b c1 c2. populate_replica_updates ''k'' ''v'' ((\<lambda>_. 3) ''k'') Map.empty = Inr (b, c1) \<and>
      take_run (check_for_update ''k'') [2, 0] c1 = Inr (replicate (length [2, 0 :: int]) ''v'', c2) \<and>
      (\<forall>i. cache_pending c2 ''k'' i = (if 0 \<le> i \<and> i < (\<lambda>_. 3) ''k'' \<and> i \<notin> set [2, 0] then Some ''v'' else None))"
    by (rule cache_delivers_once) (simp_all add: cache_sized_def)
  then show ?thesis by auto
qed

text \<open>
  C17. \<open>sample_a_replica\<close> stays in bounds, and a real access of a key with missing replicas
  only picks a replica that has its value: one before the first missing one.
\<close>

theorem sample_a_replica_safe:
  assumes "sample_a_replica k n is_real f p_max m g = Inr (r, g')" and "0 \<le> n"
    and "cache_sized R m" and "R k = n"
  shows "0 \<le> r \<and> r < n \<and>
    (\<forall>v bits. is_real \<and> m k = Some (v, bits) \<longrightarrow> r < num_leading_zeros bits \<and> \<not> bits ! nat r)"
proof -
  have "r < num_leading_zeros bits \<and> \<not> bits ! nat r" if "is_real" "m k = Some (v, bits)" for v bits
    using sample_a_replica_real [of k n f p_max m g r g' v bits R] assms that by simp
  then show ?thesis using sample_a_replica_range [OF assms(1,2)] by blast
qed

theorem sample_a_replica_safe_witness:
  "sample_a_replica ''k'' 3 True 0 (1 / 2) [''k'' \<mapsto> (''v'', [False, False, True])] (sconst 5)
     = Inr (1, sconst 5) \<and> (1 :: int) < 3 \<and> \<not> [False, False, True] ! nat 1"
proof -
  have run: "sample_a_replica ''k'' 3 True 0 (1 / 2) [''k'' \<mapsto> (''v'', [False, False, True])] (sconst 5)
     = Inr (1, sconst 5)"
    by (simp add: sample_a_replica_def rand_mod_def c_rand_def RAND_MAX_def prob_quot_def prob_def
        rand_uint32_def)
  from sample_a_replica_safe [OF run, of "\<lambda>_. 3"] run show ?thesis by (simp add: cache_sized_def)
qed

text \<open>
  \<open>edit_bit_vector_size\<close> on a key the table has keeps the value and the old bits and
  marks each replica that is added as missing; shrinking only drops bits.
\<close>

theorem edit_bit_vector_size_marks_new:
  assumes "m k = Some (v, bits)" and "0 \<le> n"
  shows "\<exists>m' bits'. edit_bit_vector_size k n m = Inr m' \<and> m' = m(k \<mapsto> (v, bits')) \<and>
    length bits' = nat n \<and> (\<forall>i < nat n. bits' ! i = (if i < length bits then bits ! i else True))"
proof -
  have copy: "length (copy_bits olds news) = length news \<and>
      (\<forall>i < length news. copy_bits olds news ! i = (if i < length olds then olds ! i else news ! i))"
    for olds news
    by (induction olds news rule: copy_bits.induct) (auto simp: nth_Cons split: nat.splits)
  show ?thesis
    using assms copy [of bits "replicate (nat n) True"]
    by (intro exI [of _ "m(k \<mapsto> (v, copy_bits bits (replicate (nat n) True)))"]
        exI [of _ "copy_bits bits (replicate (nat n) True)"])
      (simp add: edit_bit_vector_size_def mk_vector_def)
qed

theorem edit_bit_vector_size_marks_new_witness:
  "\<exists>m' bits'. edit_bit_vector_size ''k'' 3 [''k'' \<mapsto> (''v'', [False])] = Inr m' \<and>
     m' ''k'' = Some (''v'', bits') \<and> length bits' = 3 \<and> \<not> bits' ! 0 \<and> bits' ! 1 \<and> bits' ! 2"
  using edit_bit_vector_size_marks_new [of "[''k'' \<mapsto> (''v'', [False])]" "''k''" "''v''" "[False]" 3]
  by fastforce

section \<open>Storage\<close>

text \<open>
  A batch written under distinct keys reads back in order from the RocksDB client, for any
  number of servers and any hash: \<open>put_batch\<close> returns, and \<open>get_batch\<close> of the same keys
  gives the values.
\<close>

theorem rocksdb_batch_roundtrip:
  assumes "ssdb_laws C lookup" and "cs \<noteq> []" and "distinct ks" and "length ks = length vs"
  shows "\<exists>cs'. rocksdb_put_batch C hash cs ks vs = Inr cs' \<and> cs' \<noteq> [] \<and>
    rocksdb_get_batch C hash cs' ks = Inr vs"
  by (rule ssdb_laws.batch_reads_back [OF assms])

theorem rocksdb_batch_roundtrip_witness:
  "\<exists>cs'. rocksdb_put_batch mem_ssdb length [Map.empty, Map.empty, Map.empty] [''a'', ''bb''] [''x'', ''y'']
       = Inr cs' \<and> cs' \<noteq> [] \<and> rocksdb_get_batch mem_ssdb length cs' [''a'', ''bb''] = Inr [''x'', ''y'']"
  by (rule rocksdb_batch_roundtrip [OF mem_rocks.ssdb_laws_axioms]) simp_all

text \<open>
  The same for the Redis client with one server, in whatever order the hash table of
  buckets is iterated. (For several servers it does not hold: see the next property.)
\<close>

theorem redis_batch_roundtrip:
  assumes "redis_laws C lookup order" and "length cs = 1" and "distinct ks" and "length ks = length vs"
  shows "\<exists>cs'. redis_put_batch C hash order cs ks vs = Inr cs' \<and> length cs' = 1 \<and>
    redis_get_batch C hash order cs' ks = Inr vs"
  by (rule redis_laws.batch_reads_back [OF assms])

theorem redis_batch_roundtrip_witness:
  "\<exists>cs'. redis_put_batch mem_redis length (\<lambda>ids. ids) [Map.empty] [''a'', ''bb''] [''x'', ''y'']
       = Inr cs' \<and> length cs' = 1 \<and>
     redis_get_batch mem_redis length (\<lambda>ids. ids) cs' [''a'', ''bb''] = Inr [''x'', ''y'']"
  by (rule redis_batch_roundtrip [OF mem_redis.redis_laws_axioms]) simp_all

text \<open>
  \<open>redis::get_batch\<close> reads half of its replies. The loop pops the queue of futures it
  counts against, so of the replies of \<open>k\<close> servers it reads only the first
  \<open>(k + 1) div 2\<close>: with two servers that each hold one of two keys, the batch returns a
  single value.
\<close>

theorem redis_get_batch_reads_half:
  "collect_replies 0 futures [] = gather (take ((length futures + 1) div 2) futures) \<and>
   redis_get_batch mem_redis length (\<lambda>ids. ids)
     [[''aa'' \<mapsto> ''x''], [''b'' \<mapsto> ''y'']] [''b'', ''aa''] = Inr [''y'']"
proof
  show "collect_replies 0 futures [] = gather (take ((length futures + 1) div 2) futures)"
    using collect_replies_gather [of 0 futures "[]"]
    by (cases "gather (take ((length futures + 1) div 2) futures)") simp_all
  show "redis_get_batch mem_redis length (\<lambda>ids. ids)
      [[''aa'' \<mapsto> ''x''], [''b'' \<mapsto> ''y'']] [''b'', ''aa''] = Inr [''y'']"
    by (simp add: redis_get_batch_def server_index_def iterate_buckets_def mem_redis_def reply_strings_def)
qed

section \<open>The encryption engine\<close>


definition ref_md :: "string evp_md" where
  "ref_md =
     \<lparr>md_ctx_create = True, get_digestbyname = True, md_size = 32, digest_init = True,
      digest_sign_init = (\<lambda>k. True), digest_sign_update = (\<lambda>m. True), digest_sign_len = Some 32,
      digest_sign_final = (\<lambda>k m. Some (take 32 (k @ m @ replicate 32 (CHR ''0'')))),
      openssl_malloc = (\<lambda>n. True), rand_bytes = (\<lambda>n. Some (replicate n (CHR ''5''))),
      new_mac_key = (\<lambda>k. Some k)\<rparr>"

lemma ref_md_keys: "make_keys ref_md = Inr (0, replicate 32 (CHR ''5''), replicate 32 (CHR ''5''))"
  by (simp add: make_keys_def ref_md_def EVP_MAX_MD_SIZE_def)

lemma ref_engine_new: "\<exists>e g'. engine_new ref_md g = Inr (e, g')"
  by (simp add: engine_new_def rand_str_def ref_md_keys split_beta)


text \<open>
  A copy of an engine works, a copy of a copy does not. The copy constructor takes the key
  from the source's own string and leaves its own strings empty: the first copy has the
  original's key and IV, the second one points at empty strings, so that encrypting with it
  reads past the end of the key.
\<close>

theorem engine_copy_once:
  assumes "engine_new M g = Inr (e, g')" and "engine_copy M e = Inr e1" and "engine_copy M e1 = Inr e2"
    and "ctx_new E \<noteq> None"
  shows "eng_key e1 = eng_key e \<and> eng_iv e1 = eng_iv e \<and> engine_ready e1 \<and>
    eng_key e2 = [] \<and> encrypt E e2 x = Inl Out_of_range"
proof -
  note n = engine_new_ready [OF assms(1)]
  note c1 = engine_copy_key [OF assms(2)] and c2 = engine_copy_key [OF assms(3)]
  have "eng_key e1 = eng_key e" "eng_iv e1 = eng_iv e" using c1 n by simp_all
  moreover have "engine_ready e1" using n c1 unfolding engine_ready_def by metis
  moreover have "eng_key e2 = []" using c1 c2 by simp
  moreover obtain ctx where "ctx_new E = Some ctx" using assms(4) by blast
  ultimately show ?thesis
    by (simp add: encrypt_def encrypt_raw_def key_material_def)
qed

theorem engine_copy_once_witness:
  "\<exists>e g' e1 e2. engine_new ref_md (sconst 4) = Inr (e, g') \<and> engine_copy ref_md e = Inr e1 \<and>
     engine_copy ref_md e1 = Inr e2 \<and> eng_key e1 = eng_key e \<and>
     encrypt ref_evp e2 ''hello'' = Inl Out_of_range"
proof -
  obtain e g' where e: "engine_new ref_md (sconst 4) = Inr (e, g')" using ref_engine_new by blast
  have copy: "\<exists>e'. engine_copy ref_md x = Inr e'" for x by (simp add: engine_copy_def ref_md_keys)
  obtain e1 where e1: "engine_copy ref_md e = Inr e1" using copy by blast
  obtain e2 where e2: "engine_copy ref_md e1 = Inr e2" using copy by blast
  have "ctx_new ref_evp \<noteq> None" by (simp add: ref_evp_def)
  from engine_copy_once [OF e e1 e2 this, of "''hello''"] e e1 e2 show ?thesis by blast
qed

text \<open>
  \<open>verify_it\<close> accepts what \<open>sign_it\<close> made, and, because it compares only as many bytes
  as it is given, also every non-empty prefix of a signature and every extension of one.
\<close>

theorem verify_accepts_prefixes:
  assumes "sign_it M msg (Some k) = Inr (0, sig)" and "0 < n"
  shows "verify_it M msg sig (Some k) = Inr 0 \<and> verify_it M msg (take n sig) (Some k) = Inr 0 \<and>
    verify_it M msg (sig @ ext) (Some k) = Inr 0"
proof -
  have s: "msg \<noteq> []" "digest_start M msg k = Inr ()" "digest_sign_final M k msg = Some sig" "sig \<noteq> []"
    using assms(1) unfolding sign_it_def
    by (auto simp: rbind_Inr_iff passert_Inr_iff split: if_splits option.splits)
  have "take n sig \<noteq> []" using s(4) assms(2) by simp
  with s show ?thesis by (simp add: verify_it_def Let_def)
qed

theorem verify_accepts_prefixes_witness:
  "\<exists>sig. sign_it ref_md ''m'' (Some ''key'') = Inr (0, sig) \<and>
     verify_it ref_md ''m'' (take 1 sig) (Some ''key'') = Inr 0"
proof -
  define sig where "sig = take 32 (''key'' @ ''m'' @ replicate 32 (CHR ''0''))"
  have s: "sign_it ref_md ''m'' (Some ''key'') = Inr (0, sig)"
    by (simp add: sign_it_def ref_md_def digest_start_def sig_def)
  from verify_accepts_prefixes [OF s, of 1 "[]"] s show ?thesis by auto
qed

end
