(* ===== verification/Batch_Properties.thy ===== *)
theory Batch_Properties
  imports Proxy_Demo
begin

text \<open>
  What \<open>execute_batch\<close> and \<open>create_security_batch\<close> guarantee, and the case they do not
  handle: two operations of one batch on the same label.
\<close>

section \<open>Batches over distinct labels\<close>

lemma aligned_distinct:
  assumes "aligned p ops rids ss" and "labels_inj p" and "distinct (map op_key ops)"
  shows "distinct ss"
proof -
  have in_ops: "\<exists>oper\<in>set ops. \<exists>rid l. in_range p (op_key oper) rid \<and>
      label p (op_key oper) rid = Some l \<and> s = to_string l"
    if "aligned p ops rids ss" "s \<in> set ss" for p ops rids ss s
    using that by (induction p ops rids ss rule: aligned.induct) (auto split: option.splits)
  show ?thesis
    using assms
  proof (induction p ops rids ss rule: aligned.induct)
    case (2 p oper ops rid rids s ss)
    have "s \<notin> set ss"
    proof
      assume s: "s \<in> set ss"
      obtain l where l: "in_range p (op_key oper) rid" "label p (op_key oper) rid = Some l"
          "s = to_string l" "aligned p ops rids ss"
        using 2(2) by (auto split: option.splits)
      obtain oper' rid' l' where o: "oper' \<in> set ops" "in_range p (op_key oper') rid'"
          "label p (op_key oper') rid' = Some l'" "s = to_string l'"
        using in_ops [OF l(4) s] by blast
      have "op_key oper = op_key oper'"
        using 2(3) l(1,2,3) o(2,3,4) unfolding labels_inj_def by (metis to_string_inject)
      then show False using 2(4) o(1) by auto
    qed
    with 2 show ?case by (auto split: option.splits)
  qed simp_all
qed

text \<open>
  C1. \<open>execute_batch\<close> refines a key-value map. On a well-formed proxy whose distribution is
  not being changed, over any storage and cipher that keep their contracts, a batch that
  chooses a different label for each operation returns: every real operation's promise gets
  the value its key has when the operations run one after the other, and afterwards every
  replica of every key stands for the value the operations left (in storage, or pending in
  the update cache).
\<close>

theorem execute_batch_refines:
  assumes "replica_store E view sound valid"
    and "sound st" and "proxy_wf p" and "holds E p (view st) V"
    and "px_missing_new_replicas p = Map.empty"
    and "\<forall>oper\<in>set ops. 0 < replicas p (op_key oper)"
    and "\<forall>k. 0 < replicas p k \<longrightarrow> valid (V k)"
    and "\<forall>oper\<in>set ops. op_value oper = [] \<or> valid (op_value oper)"
    and "length ts = length ops" and "length pids = length (filter (\<lambda>t. t) ts)"
    and "distinct pids" and "\<forall>pid\<in>set pids. ps pid = Some None"
    and "\<forall>rids ss p1 g1. choose_replicas ops ts p g = Inr (rids, ss, p1, g1) \<longrightarrow> distinct ss"
  shows "\<exists>p' st' g' ps'. execute_batch E ops ts pids p st g ps = Inr (p', st', g', ps') \<and>
    sound st' \<and> proxy_wf p' \<and> holds E p' (view st') (snd (spec_run V ops)) \<and>
    map ps' pids = map (\<lambda>a. Some (Some a)) (real_answers ts (fst (spec_run V ops)))"
  using replica_store.execute_batch_spec [OF assms] by blast

definition demo_ops :: "operation list" where
  "demo_ops = [\<lparr>op_key = ''a'', op_value = ''z''\<rparr>, \<lparr>op_key = ''b'', op_value = []\<rparr>]"

lemma demo_ops_labels:
  assumes "choose_replicas demo_ops [True, True] demo_proxy g = Inr (rids, ss, p1, g1)"
  shows "distinct ss"
proof -
  have wf: "labels_total demo_proxy" "labels_inj demo_proxy"
    using demo_wf by (simp_all add: proxy_wf_def)
  have "\<exists>rids ss freqs g'. choose_replicas demo_ops [True, True] demo_proxy g =
      Inr (rids, ss, demo_proxy\<lparr>px_key_to_frequency := freqs\<rparr>, g') \<and> aligned demo_proxy demo_ops rids ss"
    by (rule choose_replicas_static [OF wf(1) demo_static])
      (simp_all add: demo_ops_def demo_replicas)
  with assms have "aligned demo_proxy demo_ops rids ss" by auto
  then show ?thesis
    by (rule aligned_distinct [OF _ wf(2)]) (simp add: demo_ops_def)
qed

theorem execute_batch_refines_witness:
  "\<exists>p' st' g' ps'. execute_batch ref_env demo_ops [True, True] [0, 1] demo_proxy demo_store
       (sconst 5) [0 \<mapsto> None, 1 \<mapsto> None] = Inr (p', st', g', ps') \<and>
     length st' = 1 \<and> proxy_wf p' \<and> holds ref_env p' (st' ! 0) (demo_values(''a'' := ''z'')) \<and>
     map ps' [0, 1] = [Some (Some ''z''), Some (Some ''y'')]"
proof -
  have "\<exists>p' st' g' ps'. execute_batch ref_env demo_ops [True, True] [0, 1] demo_proxy demo_store
       (sconst 5) [0 \<mapsto> None, 1 \<mapsto> None] = Inr (p', st', g', ps') \<and>
     length st' = 1 \<and> proxy_wf p' \<and> holds ref_env p' (st' ! 0) (snd (spec_run demo_values demo_ops)) \<and>
     map ps' [0, 1] = map (\<lambda>a. Some (Some a))
       (real_answers [True, True] (fst (spec_run demo_values demo_ops)))"
    by (rule execute_batch_refines [OF ref_store.replica_store_axioms demo_one_server demo_wf
          demo_holds demo_static])
      (use demo_ops_labels in
        \<open>auto simp: demo_ops_def demo_replicas demo_values_valid demo_valid\<close>)
  then show ?thesis
    by (simp add: demo_ops_def spec_step_def demo_values_def Let_def)
qed

section \<open>Two operations on one label\<close>

lemma apply_update_single:
  assumes "replicas p k = 1" and "px_update_cache p k = None" and "px_missing_new_replicas p = Map.empty"
    and "x \<noteq> []"
  shows "apply_update \<lparr>op_key = k, op_value = v\<rparr> 0 x p = Inr (if v = [] then x else v, p)"
proof -
  have n: "px_key_to_number_of_replicas p k = Some 1"
    using assms(1) replicas_pos_Some [of p k] by simp
  have "px_update_cache p = (px_update_cache p)(k := None)" using assms(2) by auto
  then have id: "p\<lparr>px_update_cache := (px_update_cache p)(k := None)\<rparr> = p" by simp
  show ?thesis
  proof (cases "v = []")
    case True
    then show ?thesis
      using assms(2,3) by (simp add: apply_update_def check_for_update_def check_if_missing_def)
  next
    case False
    then show ?thesis
      using assms(3) id n
      by (simp add: apply_update_def populate_replica_updates_def mk_vector_def check_for_update_def
          vec_at_def check_if_missing_def Let_def)
  qed
qed

lemma in_range_single: "replicas p k = 1 \<Longrightarrow> in_range p k i \<longleftrightarrow> i = 0"
  by (auto simp: in_range_def)

lemma aligned_same_label:
  assumes "aligned p [o1, o2] rids ss" and "op_key o1 = k" and "op_key o2 = k" and "replicas p k = 1"
  shows "\<exists>l. label p k 0 = Some l \<and> rids = [0, 0] \<and> ss = [to_string l, to_string l] \<and> in_range p k 0"
  using assms by (auto simp: in_range_single elim!: aligned_ConsE aligned_NilE split: option.splits)

context replica_store begin

text \<open>Writing back the value a replica stands for changes nothing.\<close>

lemma holds_rewritten:
  assumes "holds E p vw V" and "proxy_wf p" and "label p k i = Some l" and "in_range p k i"
    and "cache_pending (px_update_cache p) k i = None" and "env_decrypt E c = Inr (V k)"
  shows "holds E p (vw(to_string l \<mapsto> c)) V"
  unfolding holds_def
proof (intro allI impI)
  fix k' i' assume r: "in_range p k' i'"
  obtain l' c' x where o: "label p k' i' = Some l'" "vw (to_string l') = Some c'" "env_decrypt E c' = Inr x"
      "case cache_pending (px_update_cache p) k' i' of Some v \<Rightarrow> v = V k' | None \<Rightarrow> x = V k'"
    using assms(1) r unfolding holds_def by blast
  show "\<exists>l' c' x. label p k' i' = Some l' \<and> (vw(to_string l \<mapsto> c)) (to_string l') = Some c' \<and>
      env_decrypt E c' = Inr x \<and>
      (case cache_pending (px_update_cache p) k' i' of Some v \<Rightarrow> v = V k' | None \<Rightarrow> x = V k')"
  proof (cases "l' = l")
    case True
    then have "k' = k" "i' = i"
      using assms(2-4) r o(1) unfolding proxy_wf_def labels_inj_def by metis+
    with True assms(3,5,6) show ?thesis by auto
  next
    case False
    then show ?thesis using o by simp
  qed
qed

lemma same_label_lost:
  assumes sound: "sound st" and wf: "proxy_wf p" and h: "holds E p (view st) V"
    and static: "px_missing_new_replicas p = Map.empty" and one: "replicas p k = 1"
    and quiet: "px_update_cache p k = None" and valid: "valid (V k)" "valid v"
    and ps: "ps a = Some None" "ps b = Some None" "a \<noteq> b"
  shows "\<exists>p' st' g' ps'. execute_batch E [\<lparr>op_key = k, op_value = v\<rparr>, \<lparr>op_key = k, op_value = []\<rparr>]
      [True, True] [a, b] p st g ps = Inr (p', st', g', ps') \<and>
    ps' a = Some (Some v) \<and> ps' b = Some (Some (V k)) \<and> sound st' \<and> holds E p' (view st') V"
proof -
  let ?ops = "[\<lparr>op_key = k, op_value = v\<rparr>, \<lparr>op_key = k, op_value = []\<rparr>]"
  have "labels_total p" using wf by (simp add: proxy_wf_def)
  then obtain rids ss freqs g1 where "choose_replicas ?ops [True, True] p g
      = Inr (rids, ss, p\<lparr>px_key_to_frequency := freqs\<rparr>, g1)" and al: "aligned p ?ops rids ss"
    using choose_replicas_static [of p ?ops "[True, True]" g] static one by auto
  define q where "q = p\<lparr>px_key_to_frequency := freqs\<rparr>"
  obtain l where l: "label p k 0 = Some l" "rids = [0, 0]" "ss = [to_string l, to_string l]"
      "in_range p k 0"
    using aligned_same_label [OF al _ _ one] by auto
  define s where "s = to_string l"
  have choose: "choose_replicas ?ops [True, True] p g = Inr ([0, 0], [s, s], q, g1)"
    using \<open>choose_replicas ?ops [True, True] p g = _\<close> l by (simp add: q_def s_def)
  have q: "replicas q k = 1" "px_update_cache q k = None" "px_missing_new_replicas q = Map.empty"
    using one quiet static by (simp_all add: q_def replicas_def)
  obtain c0 where c0: "view st s = Some c0" "env_decrypt E c0 = Inr (V k)"
    using h l quiet unfolding holds_def s_def by (fastforce simp: cache_pending_def)
  obtain c1 c2 where c: "env_encrypt E v = Inr c1" "env_encrypt E (V k) = Inr c2" "env_decrypt E c2 = Inr (V k)"
    using roundtrip_law valid by blast
  have ne: "V k \<noteq> []" "v \<noteq> []" using valid valid_nonempty by blast+
  have get: "si_get_batch (env_storage E) st [s, s] = Inr [c0, c0]"
    using get_batch_law [OF sound, of "[s, s]"] c0 by auto
  obtain st' where put: "si_put_batch (env_storage E) st [s, s] [c1, c2] = Inr st'" "sound st'"
      "view st' = put_all (view st) [s, s] [c1, c2]"
    using put_batch_law [OF sound, of "[s, s]" "[c1, c2]"] by auto
  have "process_responses E ?ops [0, 0] [c0, c0] [True, True] [a, b] q ps
      = Inr ([c1, c2], q, ps(a \<mapsto> Some v, b \<mapsto> Some (V k)))"
    using c0 c ne ps apply_update_single [OF q, of "V k"]
    by (simp add: fulfil_def set_value_def)
  then have run: "execute_batch E ?ops [True, True] [a, b] p st g ps
      = Inr (q, st', g1, ps(a \<mapsto> Some v, b \<mapsto> Some (V k)))"
    using choose get put(1) by (simp add: execute_batch_def)
  have "holds E q (view st') V = holds E p (view st') V"
    by (rule proxy_inv_cong(2)) (simp_all add: q_def)
  moreover have "holds E p (view st') V"
    using holds_rewritten [OF h wf l(1,4) _ c(3)] put(3) quiet by (simp add: s_def cache_pending_def)
  ultimately show ?thesis
    using run put(2) ps(3) by (intro exI conjI) (assumption | simp)+
qed

end

text \<open>
  C8. Two operations of one batch on the same label are not serialised. A write and a
  read of a key with one replica, in this order in one batch: the write is acknowledged
  with the new value, the read returns the old one, and afterwards the store still holds
  the old value, so the acknowledged write is lost.
\<close>

theorem same_label_loses_write:
  assumes "replica_store E view sound valid"
    and "sound st" and "proxy_wf p" and "holds E p (view st) V"
    and "px_missing_new_replicas p = Map.empty" and "replicas p k = 1"
    and "px_update_cache p k = None" and "valid (V k)" and "valid v"
    and "ps a = Some None" and "ps b = Some None" and "a \<noteq> b"
  shows "\<exists>p' st' g' ps'. execute_batch E [\<lparr>op_key = k, op_value = v\<rparr>, \<lparr>op_key = k, op_value = []\<rparr>]
      [True, True] [a, b] p st g ps = Inr (p', st', g', ps') \<and>
    ps' a = Some (Some v) \<and> ps' b = Some (Some (V k)) \<and> sound st' \<and> holds E p' (view st') V"
  by (rule replica_store.same_label_lost [OF assms])

theorem same_label_loses_write_witness:
  "\<exists>p' st' g' ps'. execute_batch ref_env
      [\<lparr>op_key = ''a'', op_value = ''z''\<rparr>, \<lparr>op_key = ''a'', op_value = []\<rparr>]
      [True, True] [0, 1] demo_proxy demo_store (sconst 5) [0 \<mapsto> None, 1 \<mapsto> None]
        = Inr (p', st', g', ps') \<and>
    ps' 0 = Some (Some ''z'') \<and> ps' 1 = Some (Some (demo_values ''a'')) \<and> length st' = 1 \<and>
    holds ref_env p' (st' ! 0) demo_values"
  by (rule same_label_loses_write [OF ref_store.replica_store_axioms demo_one_server demo_wf
        demo_holds demo_static])
    (simp_all add: demo_replicas demo_values_valid demo_valid, simp_all add: demo_proxy_def)

end
