(* ===== verification/Swapping.thy ===== *)
theory Swapping
  imports Replicas
begin

text \<open>
  Changing the distribution (\<^verbatim>\<open>pancake_proxy.cpp\<close>): \<open>recompute_fake_distribution\<close>,
  \<open>prepare_for_swapping\<close>, \<open>perform_swapping\<close>, \<open>update_distribution\<close> and the loop of
  \<open>distribution_thread\<close>, whose trigger \<open>distribution_changed\<close> is a stub that returns
  false.
\<close>

section \<open>The code\<close>

text \<open>
  \<open>label = replica_to_label_[...]\<close> assigns an \<open>int\<close> to a \<open>std::string\<close>. The only
  operator that fits is \<open>operator=(char)\<close>, so the string becomes one character, the low 8
  bits of the label.
\<close>

definition assign_int :: "int \<Rightarrow> string" where
  "assign_int i = [char_of (i mod 256)]"

fun take_labels ::
    "string \<Rightarrow> int \<Rightarrow> nat \<Rightarrow> (string \<rightharpoonup> int) \<Rightarrow> string list \<Rightarrow> ((string \<rightharpoonup> int) \<times> string list) res" where
  "take_labels k i 0 labels unassigned = Inr (labels, unassigned)"
| "take_labels k i (Suc n) labels unassigned =
     (case labels (replica_name k i) of
        None \<Rightarrow> Inl Assertion_failed
      | Some l \<Rightarrow>
          take_labels k (i + 1) n (labels(replica_name k i := None)) (unassigned @ [assign_int l]))"

definition prepare_for_swapping ::
    "string \<Rightarrow> int \<Rightarrow> int \<Rightarrow> string list \<Rightarrow> (string \<times> int) list \<Rightarrow> proxy_state \<Rightarrow>
     (string list \<times> (string \<times> int) list \<times> proxy_state) res" where
  "prepare_for_swapping k r_new r_old unassigned needs p =
     (if r_old < r_new then
        let needs' = needs @ map (\<lambda>i. (k, i)) [r_old..r_new - 1]
        in if k \<noteq> px_dummy_key p then
             rbind (edit_bit_vector_size k r_new (px_missing_new_replicas p)) (\<lambda>m.
               Inr (unassigned, needs', p\<lparr>px_missing_new_replicas := m\<rparr>))
           else Inr (unassigned, needs', p)
      else if r_new < r_old then
        rbind (take_labels k r_new (nat (r_old - r_new)) (px_replica_to_label p) unassigned)
          (\<lambda>(labels, unassigned'). Inr (unassigned', needs, p\<lparr>px_replica_to_label := labels\<rparr>))
      else Inr (unassigned, needs, p))"

fun perform_swapping_loop ::
    "string list \<Rightarrow> (string \<times> int) list \<Rightarrow> (string \<rightharpoonup> int) \<Rightarrow> (string \<rightharpoonup> int) res" where
  "perform_swapping_loop unassigned [] labels = Inr labels"
| "perform_swapping_loop [] (kr # needs) labels = Inl Out_of_range"
| "perform_swapping_loop (lab # unassigned) (kr # needs) labels =
     rbind (stoi lab) (\<lambda>l.
       perform_swapping_loop unassigned needs (labels(replica_name (fst kr) (snd kr) \<mapsto> l)))"

definition perform_swapping ::
    "string list \<Rightarrow> (string \<times> int) list \<Rightarrow> proxy_state \<Rightarrow> (int \<times> proxy_state) res" where
  "perform_swapping unassigned needs p =
     rbind (perform_swapping_loop unassigned needs (px_replica_to_label p)) (\<lambda>labels.
       Inr (int (length needs), p\<lparr>px_replica_to_label := labels\<rparr>))"

text \<open>
  The loop over the table of missing replicas, whose entries come in the order \<open>es\<close>. Reads
  with \<open>operator[]\<close> insert a 0 for an unknown key.
\<close>

fun max_missing ::
    "(string \<times> cache_entry) list \<Rightarrow> real \<Rightarrow> proxy_state \<Rightarrow> (real \<times> proxy_state) res" where
  "max_missing [] curr_max p = Inr (curr_max, p)"
| "max_missing ((k, _, bit_vec) # es) curr_max p =
     (let (r, nrs) = map_at 0 (px_key_to_number_of_replicas p) k
      in rbind (require (int (length bit_vec) = r) Assertion_failed) (\<lambda>_.
           let (f, freqs) = map_at 0 (px_new_key_to_frequency p) k;
               prb = real_of_int f
           in max_missing es (if curr_max > prb then curr_max else prb)
                (p\<lparr>px_key_to_number_of_replicas := nrs, px_new_key_to_frequency := freqs\<rparr>)))"

fun fake_probs ::
    "string list \<Rightarrow> real list \<Rightarrow> real list \<Rightarrow> proxy_state \<Rightarrow> (real list \<times> proxy_state) res" where
  "fake_probs [] probs fakes p = Inr (fakes, p)"
| "fake_probs (k # ks) [] fakes p = Inl Out_of_range"
| "fake_probs (k # ks) (\<pi> # probs) fakes p =
     (let (r, nrs) = map_at 0 (px_key_to_number_of_replicas p) k
      in fake_probs ks probs (fakes @ [real_of_int r * px_p_max p - \<pi>])
           (p\<lparr>px_key_to_number_of_replicas := nrs\<rparr>))"

definition recompute_fake_distribution ::
    "(string \<times> cache_entry) list \<Rightarrow> distribution \<Rightarrow> proxy_state \<Rightarrow> proxy_state res" where
  "recompute_fake_distribution es new_distribution p =
     (let new_keys = get_items new_distribution;
          new_probabilities = get_probabilities new_distribution
      in rbind (max_missing es (1 / real (length new_keys)) p) (\<lambda>(curr_max, p1).
           let p2 = p1\<lparr>px_p_max := curr_max\<rparr>
           in rbind (fake_probs new_keys new_probabilities [] p2) (\<lambda>(fakes, p3).
                Inr (p3\<lparr>px_fake_distribution :=
                  distribution_new (new_keys @ [px_dummy_key p3])
                    (fakes @ [real_of_int (px_dummy_keys p3) * px_p_max p3])\<rparr>))))"

fun update_keys ::
    "string list \<Rightarrow> real list \<Rightarrow> int \<Rightarrow> string list \<Rightarrow> (string \<times> int) list \<Rightarrow> proxy_state \<Rightarrow>
     (int \<times> string list \<times> (string \<times> int) list \<times> proxy_state) res" where
  "update_keys [] probs num unassigned needs p = Inr (num, unassigned, needs, p)"
| "update_keys (k # ks) [] num unassigned needs p = Inl Out_of_range"
| "update_keys (k # ks) (\<pi> # probs) num unassigned needs p =
     (let r_old = (case px_key_to_number_of_replicas p k of Some r \<Rightarrow> r | None \<Rightarrow> 0);
          r_new = replica_count (px_alpha p) \<pi>;
          p1 = p\<lparr>px_new_key_to_frequency := (px_new_key_to_frequency p)(k \<mapsto> trunc_int \<pi>),
                 px_key_to_number_of_replicas := (px_key_to_number_of_replicas p)(k \<mapsto> r_new)\<rparr>
      in rbind (require (0 < r_new) Assertion_failed) (\<lambda>_.
         rbind (prepare_for_swapping k r_new r_old unassigned needs p1)
           (\<lambda>(unassigned', needs', p2). update_keys ks probs (num + r_new) unassigned' needs' p2)))"

text \<open>\<open>es p\<close> is the order in which the table of missing replicas of \<open>p\<close> is iterated.\<close>

definition update_distribution ::
    "(update_cache \<Rightarrow> (string \<times> cache_entry) list) \<Rightarrow> distribution \<Rightarrow> proxy_state \<Rightarrow> (int \<times> proxy_state) res"
  where
  "update_distribution es new_distribution p =
     (let new_keys = get_items new_distribution;
          n = int (length new_keys)
      in rbind (update_keys new_keys (get_probabilities new_distribution) 0 [] [] p)
           (\<lambda>(num, unassigned, needs, p1).
         rbind (require (num < 2 * n) Assertion_failed) (\<lambda>_.
         let r_old = px_dummy_keys p1;
             p2 = p1\<lparr>px_dummy_keys := 2 * n - num\<rparr>
         in rbind (prepare_for_swapping (px_dummy_key p2) (px_dummy_keys p2) r_old unassigned needs p2)
              (\<lambda>(unassigned', needs', p3).
            rbind (recompute_fake_distribution (es (px_missing_new_replicas p3)) new_distribution p3) (\<lambda>p4.
            let p5 = p4\<lparr>px_real_distribution := new_distribution,
                        px_key_to_frequency := px_new_key_to_frequency p4\<rparr>
            in rbind (require (length needs' = length unassigned') Assertion_failed) (\<lambda>_.
                 perform_swapping unassigned' needs' p5))))))"

definition distribution_changed :: bool where
  "distribution_changed = False"

definition load_new_distribution :: distribution where
  "load_new_distribution = distribution_default"

text \<open>One turn of the loop of \<open>distribution_thread\<close>.\<close>

definition distribution_turn ::
    "(update_cache \<Rightarrow> (string \<times> cache_entry) list) \<Rightarrow> proxy_state \<Rightarrow> proxy_state res" where
  "distribution_turn es p =
     (if distribution_changed then
        rbind (update_distribution es load_new_distribution p) (\<lambda>(swaps, p'). Inr p')
      else Inr p)"

section \<open>As many labels are freed as are needed\<close>

lemma take_labels_length:
  "take_labels k i n labels un = Inr (labels', un') \<Longrightarrow> length un' = length un + n"
  by (induction k i n labels un rule: take_labels.induct) (auto split: option.splits)

lemma prepare_for_swapping_balance:
  assumes "prepare_for_swapping k r_new r_old un needs p = Inr (un', needs', p')"
  shows "int (length needs') - int (length un') = int (length needs) - int (length un) + (r_new - r_old)"
    and "px_key_to_number_of_replicas p' = px_key_to_number_of_replicas p \<and>
      px_dummy_keys p' = px_dummy_keys p \<and> px_alpha p' = px_alpha p \<and> px_dummy_key p' = px_dummy_key p"
proof -
  consider "r_old < r_new" | "r_new < r_old" | "r_new = r_old" by linarith
  then have "int (length needs') - int (length un')
        = int (length needs) - int (length un) + (r_new - r_old) \<and>
      px_key_to_number_of_replicas p' = px_key_to_number_of_replicas p \<and>
      px_dummy_keys p' = px_dummy_keys p \<and> px_alpha p' = px_alpha p \<and> px_dummy_key p' = px_dummy_key p"
  proof cases
    case 1
    with assms show ?thesis
      by (auto simp: prepare_for_swapping_def Let_def rbind_Inr_iff split: if_splits)
  next
    case 2
    with assms show ?thesis
      by (auto simp: prepare_for_swapping_def rbind_Inr_iff dest!: take_labels_length)
  next
    case 3
    with assms show ?thesis by (simp add: prepare_for_swapping_def)
  qed
  then show "int (length needs') - int (length un')
        = int (length needs) - int (length un) + (r_new - r_old)"
    and "px_key_to_number_of_replicas p' = px_key_to_number_of_replicas p \<and>
      px_dummy_keys p' = px_dummy_keys p \<and> px_alpha p' = px_alpha p \<and> px_dummy_key p' = px_dummy_key p"
    by blast+
qed

lemma update_keys_Cons:
  assumes "update_keys (k # ks) probs num un needs p = Inr (num', un', needs', p')"
  obtains \<pi> probs' un1 needs1 p1 p2 where "probs = \<pi> # probs'"
    and "p1 = p\<lparr>px_new_key_to_frequency := (px_new_key_to_frequency p)(k \<mapsto> trunc_int \<pi>),
      px_key_to_number_of_replicas := (px_key_to_number_of_replicas p)(k \<mapsto> replica_count (px_alpha p) \<pi>)\<rparr>"
    and "0 < replica_count (px_alpha p) \<pi>"
    and "prepare_for_swapping k (replica_count (px_alpha p) \<pi>) (replicas p k) un needs p1
      = Inr (un1, needs1, p2)"
    and "update_keys ks probs' (num + replica_count (px_alpha p) \<pi>) un1 needs1 p2 = Inr (num', un', needs', p')"
proof (cases probs)
  case Nil
  with assms show ?thesis by simp
next
  case (Cons \<pi> probs')
  with assms that show ?thesis
    by (auto simp: Let_def rbind_Inr_iff require_Inr_iff replicas_def)
qed

text \<open>Each key frees or asks for as many labels as its number of replicas changes by.\<close>

lemma update_keys_balance:
  assumes "update_keys ks probs num un needs p = Inr (num', un', needs', p')" and "distinct ks"
  shows "int (length needs') - int (length un') - num'
      = int (length needs) - int (length un) - num - sum_list (map (replicas p) ks) \<and>
    px_dummy_keys p' = px_dummy_keys p"
  using assms
proof (induction ks arbitrary: probs num un needs p)
  case Nil
  then show ?case by simp
next
  case (Cons k ks)
  from Cons.prems(1) obtain \<pi> probs' un1 needs1 p1 p2 where s:
      "p1 = p\<lparr>px_new_key_to_frequency := (px_new_key_to_frequency p)(k \<mapsto> trunc_int \<pi>),
        px_key_to_number_of_replicas := (px_key_to_number_of_replicas p)(k \<mapsto> replica_count (px_alpha p) \<pi>)\<rparr>"
      "prepare_for_swapping k (replica_count (px_alpha p) \<pi>) (replicas p k) un needs p1 = Inr (un1, needs1, p2)"
      "update_keys ks probs' (num + replica_count (px_alpha p) \<pi>) un1 needs1 p2 = Inr (num', un', needs', p')"
    by (rule update_keys_Cons)
  note b = prepare_for_swapping_balance [OF s(2)]
  have "replicas p2 k' = replicas p k'" if "k' \<in> set ks" for k'
    using b(2) that Cons.prems(2) by (auto simp: replicas_def s(1))
  then have "map (replicas p2) ks = map (replicas p) ks" by (intro map_cong) auto
  then have "sum_list (map (replicas p2) ks) = sum_list (map (replicas p) ks)" by (rule arg_cong)
  moreover note Cons.IH [OF s(3)]
  ultimately show ?case using b Cons.prems(2) by (simp add: s(1))
qed

section \<open>What becomes of a freed label\<close>

lemma take_labels_chars:
  "take_labels k i n labels un = Inr (labels', un') \<Longrightarrow> \<forall>s\<in>set un. length s = 1 \<Longrightarrow>
   \<forall>s\<in>set un'. length s = 1"
  by (induction k i n labels un rule: take_labels.induct) (auto simp: assign_int_def split: option.splits)

lemma prepare_for_swapping_chars:
  "prepare_for_swapping k r_new r_old un needs p = Inr (un', needs', p') \<Longrightarrow>
   \<forall>s\<in>set un. length s = 1 \<Longrightarrow> \<forall>s\<in>set un'. length s = 1"
  by (auto simp: prepare_for_swapping_def Let_def rbind_Inr_iff split: if_splits
      dest: take_labels_chars)

lemma update_keys_chars:
  "update_keys ks probs num un needs p = Inr (num', un', needs', p') \<Longrightarrow>
   \<forall>s\<in>set un. length s = 1 \<Longrightarrow> \<forall>s\<in>set un'. length s = 1"
proof (induction ks arbitrary: probs num un needs p)
  case Nil
  then show ?case by simp
next
  case (Cons k ks)
  from Cons.prems(1) obtain \<pi> probs' un1 needs1 p1 p2 where
      "prepare_for_swapping k (replica_count (px_alpha p) \<pi>) (replicas p k) un needs p1 = Inr (un1, needs1, p2)"
      "update_keys ks probs' (num + replica_count (px_alpha p) \<pi>) un1 needs1 p2 = Inr (num', un', needs', p')"
    by (rule update_keys_Cons)
  with Cons.IH Cons.prems(2) prepare_for_swapping_chars show ?case by blast
qed

lemma stoi_one_char:
  assumes "stoi [c] = Inr l"
  shows "0 \<le> l \<and> l \<le> 9 \<and> is_digit c"
proof -
  have "is_digit c" using assms by (auto simp: stoi_def Let_def split: if_splits)
  moreover from this have "l = int (of_char c - 48)"
    using assms by (auto simp: stoi_def Let_def digits_value_def is_digit_def is_space_def split: if_splits)
  ultimately show ?thesis by (auto simp: is_digit_def)
qed

lemma perform_swapping_loop_digits:
  "perform_swapping_loop un needs labels = Inr labels' \<Longrightarrow> \<forall>s\<in>set un. length s = 1 \<Longrightarrow>
   \<forall>nm l. labels' nm = Some l \<longrightarrow> labels nm = Some l \<or> 0 \<le> l \<and> l \<le> 9"
proof (induction un needs labels rule: perform_swapping_loop.induct)
  case (3 lab un kr needs labels)
  obtain c where c: "lab = [c]" using 3(3) by (auto simp: length_Suc_conv)
  obtain l where l: "stoi [c] = Inr l"
      "perform_swapping_loop un needs (labels(replica_name (fst kr) (snd kr) \<mapsto> l)) = Inr labels'"
    using 3(2) c by (auto simp: rbind_Inr_iff)
  have "\<forall>s\<in>set un. length s = 1" using 3(3) by simp
  from 3(1) [OF l(1) [folded c] l(2) this] stoi_one_char [OF l(1)] show ?case
    by (simp split: if_splits) blast
qed auto

lemma take_labels_sub:
  "take_labels k i n labels un = Inr (labels', un') \<Longrightarrow> labels' nm = Some l \<Longrightarrow> labels nm = Some l"
  by (induction k i n labels un rule: take_labels.induct) (auto split: option.splits if_splits)

lemma prepare_for_swapping_sub:
  "prepare_for_swapping k r_new r_old un needs p = Inr (un', needs', p') \<Longrightarrow>
   px_replica_to_label p' nm = Some l \<Longrightarrow> px_replica_to_label p nm = Some l"
  by (auto simp: prepare_for_swapping_def Let_def rbind_Inr_iff split: if_splits dest: take_labels_sub)

lemma update_keys_sub:
  "update_keys ks probs num un needs p = Inr (num', un', needs', p') \<Longrightarrow>
   px_replica_to_label p' nm = Some l \<Longrightarrow> px_replica_to_label p nm = Some l"
proof (induction ks arbitrary: probs num un needs p)
  case Nil
  then show ?case by simp
next
  case (Cons k ks)
  from Cons.prems(1) obtain \<pi> probs' un1 needs1 p1 p2 where s:
      "p1 = p\<lparr>px_new_key_to_frequency := (px_new_key_to_frequency p)(k \<mapsto> trunc_int \<pi>),
        px_key_to_number_of_replicas := (px_key_to_number_of_replicas p)(k \<mapsto> replica_count (px_alpha p) \<pi>)\<rparr>"
      "prepare_for_swapping k (replica_count (px_alpha p) \<pi>) (replicas p k) un needs p1 = Inr (un1, needs1, p2)"
      "update_keys ks probs' (num + replica_count (px_alpha p) \<pi>) un1 needs1 p2 = Inr (num', un', needs', p')"
    by (rule update_keys_Cons)
  from Cons.IH [OF s(3) Cons.prems(2)] prepare_for_swapping_sub [OF s(2)] show ?case
    by (auto simp: s(1))
qed

end
