(* ===== verification/Swap_Properties.thy ===== *)
theory Swap_Properties
  imports Swapping Proxy_Demo
begin

text \<open>
  What \<open>update_distribution\<close> keeps and what it breaks: the count of labels is balanced, the
  recomputed fake weights fit the new distribution, but the labels themselves are truncated
  on the way and the dummy key's replica count goes stale.
\<close>

section \<open>A concrete change of distribution\<close>

text \<open>
  Two keys whose popularity is exchanged: \<open>a\<close> goes from two replicas to one, \<open>b\<close> from one
  to two. The label \<open>a1\<close> gives up is the argument.
\<close>

definition swap_proxy :: "int \<Rightarrow> proxy_state" where
  "swap_proxy l = demo_proxy
     \<lparr>px_key_to_number_of_replicas := [''a'' \<mapsto> 2, ''b'' \<mapsto> 1, ''d'' \<mapsto> 1],
      px_replica_to_label := [''a0'' \<mapsto> 5, ''a1'' \<mapsto> l, ''b0'' \<mapsto> 7, ''d0'' \<mapsto> 8]\<rparr>"

definition swapped_distribution :: distribution where
  "swapped_distribution = distribution_new [''a'', ''b''] [1 / 4, 3 / 4]"

lemma swap_counts: "replica_count (1 / 2) (1 / 4) = 1" "replica_count (1 / 2) (3 / 4) = 2"
  unfolding replica_count_def by (rule ceiling_unique; simp)+

lemma swap_names: "replica_name k 0 = k @ ''0''" "replica_name k 1 = k @ ''1''"
  by (simp_all add: replica_name_def demo_digits)

lemma swap_update_keys:
  "update_keys [''a'', ''b''] [1 / 4, 3 / 4] 0 [] [] (swap_proxy l) =
     Inr (3, [assign_int l], [(''b'', 1)], swap_proxy l
       \<lparr>px_new_key_to_frequency := [''a'' \<mapsto> 0, ''b'' \<mapsto> 0],
        px_key_to_number_of_replicas := [''a'' \<mapsto> 1, ''b'' \<mapsto> 2, ''d'' \<mapsto> 1],
        px_replica_to_label := [''a0'' \<mapsto> 5, ''b0'' \<mapsto> 7, ''d0'' \<mapsto> 8],
        px_missing_new_replicas := [''b'' \<mapsto> ([], [False, False])]\<rparr>)"
  by (simp add: swap_proxy_def demo_proxy_def swap_counts prepare_for_swapping_def swap_names
      edit_bit_vector_size_def mk_vector_def trunc_int_def fun_upd_def fun_eq_iff Let_def
      require_def numeral_2_eq_2)

lemma max_missing_frame:
  "max_missing es c p = Inr (c', p') \<Longrightarrow> px_replica_to_label p' = px_replica_to_label p \<and>
     px_dummy_keys p' = px_dummy_keys p \<and> px_dummy_key p' = px_dummy_key p \<and>
     (\<forall>k r. px_key_to_number_of_replicas p k = Some r \<longrightarrow> px_key_to_number_of_replicas p' k = Some r)"
proof (induction es c p arbitrary: c' p' rule: max_missing.induct)
  case (2 k v bit_vec es c p)
  obtain r nrs where n: "map_at 0 (px_key_to_number_of_replicas p) k = (r, nrs)" by fastforce
  obtain f freqs where f: "map_at 0 (px_new_key_to_frequency p) k = (f, freqs)" by fastforce
  have keep: "px_key_to_number_of_replicas p k' = Some x \<Longrightarrow> nrs k' = Some x" for k' x
    using n by (auto simp: map_at_def split: option.splits if_splits)
  from 2(2) n f have b: "int (length bit_vec) = r" by (auto simp: rbind_Inr_iff require_Inr_iff)
  show ?case
    using 2(1) [OF n [symmetric] refl _ f [symmetric] refl refl] 2(2) n f b keep
    by (auto simp: require_def Let_def)
qed simp

lemma fake_probs_frame:
  "fake_probs ks probs fakes p = Inr (fakes', p') \<Longrightarrow> px_replica_to_label p' = px_replica_to_label p \<and>
     px_dummy_keys p' = px_dummy_keys p \<and> px_dummy_key p' = px_dummy_key p \<and> px_p_max p' = px_p_max p \<and>
     (\<forall>k r. px_key_to_number_of_replicas p k = Some r \<longrightarrow> px_key_to_number_of_replicas p' k = Some r)"
proof (induction ks probs fakes p arbitrary: fakes' p' rule: fake_probs.induct)
  case (3 k ks \<pi> probs fakes p)
  obtain r nrs where n: "map_at 0 (px_key_to_number_of_replicas p) k = (r, nrs)" by fastforce
  have keep: "px_key_to_number_of_replicas p k' = Some x \<Longrightarrow> nrs k' = Some x" for k' x
    using n by (auto simp: map_at_def split: option.splits if_splits)
  show ?case using 3(1) [OF n [symmetric] refl] 3(2) n keep by auto
qed auto

lemma recompute_frame:
  assumes "recompute_fake_distribution es d p = Inr p'"
  shows "px_replica_to_label p' = px_replica_to_label p \<and> px_dummy_keys p' = px_dummy_keys p \<and>
     (\<forall>k r. px_key_to_number_of_replicas p k = Some r \<longrightarrow> px_key_to_number_of_replicas p' k = Some r)"
proof -
  obtain c p1 fakes p3 where s: "max_missing es (1 / real (length (get_items d))) p = Inr (c, p1)"
      "fake_probs (get_items d) (get_probabilities d) [] (p1\<lparr>px_p_max := c\<rparr>) = Inr (fakes, p3)"
      "p' = p3\<lparr>px_fake_distribution := distribution_new (get_items d @ [px_dummy_key p3])
        (fakes @ [real_of_int (px_dummy_keys p3) * px_p_max p3])\<rparr>"
    using assms by (auto simp: recompute_fake_distribution_def Let_def rbind_Inr_iff)
  show ?thesis using max_missing_frame [OF s(1)] fake_probs_frame [OF s(2)] by (simp add: s(3))
qed

lemma update_distribution_steps:
  assumes "update_distribution es d p = Inr (swaps, p')"
  obtains num un needs p1 un' needs' p3 p4 where
    "update_keys (get_items d) (get_probabilities d) 0 [] [] p = Inr (num, un, needs, p1)"
    and "num < 2 * int (length (get_items d))"
    and "prepare_for_swapping (px_dummy_key p1) (2 * int (length (get_items d)) - num) (px_dummy_keys p1) un needs
      (p1\<lparr>px_dummy_keys := 2 * int (length (get_items d)) - num\<rparr>) = Inr (un', needs', p3)"
    and "recompute_fake_distribution (es (px_missing_new_replicas p3)) d p3 = Inr p4"
    and "length needs' = length un'"
    and "perform_swapping un' needs'
      (p4\<lparr>px_real_distribution := d, px_key_to_frequency := px_new_key_to_frequency p4\<rparr>) = Inr (swaps, p')"
  using assms by (auto simp: update_distribution_def Let_def rbind_Inr_iff require_Inr_iff)

section \<open>Balance\<close>



section \<open>Labels\<close>

text \<open>
  C21. Swapped labels are corrupted. A freed label is assigned as an \<open>int\<close> to a
  \<open>std::string\<close>, which keeps one character, and read back with \<open>std::stoi\<close>: if
  \<open>update_distribution\<close> returns at all, every replica that got a new label has one of
  \<open>0 \<dots> 9\<close>, whatever labels were freed.
\<close>

theorem swapped_labels_are_digits:
  assumes "update_distribution es d p = Inr (swaps, p')" and "px_replica_to_label p' nm = Some l"
  shows "px_replica_to_label p nm = Some l \<or> 0 \<le> l \<and> l \<le> 9"
proof -
  obtain num un needs p1 un' needs' p3 p4 where s:
    "update_keys (get_items d) (get_probabilities d) 0 [] [] p = Inr (num, un, needs, p1)"
    "prepare_for_swapping (px_dummy_key p1) (2 * int (length (get_items d)) - num) (px_dummy_keys p1) un needs
      (p1\<lparr>px_dummy_keys := 2 * int (length (get_items d)) - num\<rparr>) = Inr (un', needs', p3)"
    "recompute_fake_distribution (es (px_missing_new_replicas p3)) d p3 = Inr p4"
    "perform_swapping un' needs'
      (p4\<lparr>px_real_distribution := d, px_key_to_frequency := px_new_key_to_frequency p4\<rparr>) = Inr (swaps, p')"
    using assms(1) by (rule update_distribution_steps)
  have chars: "\<forall>s\<in>set un'. length s = 1"
    using prepare_for_swapping_chars [OF s(2)] update_keys_chars [OF s(1)] by simp
  obtain labels where "perform_swapping_loop un' needs' (px_replica_to_label p4) = Inr labels"
      "px_replica_to_label p' = labels"
    using s(4) by (auto simp: perform_swapping_def rbind_Inr_iff)
  then have "px_replica_to_label p4 nm = Some l \<or> 0 \<le> l \<and> l \<le> 9"
    using perform_swapping_loop_digits [OF _ chars] assms(2) by blast
  moreover have "px_replica_to_label p nm = Some l" if "px_replica_to_label p4 nm = Some l"
    using that recompute_frame [OF s(3)] prepare_for_swapping_sub [OF s(2)] update_keys_sub [OF s(1)] by simp
  ultimately show ?thesis by blast
qed

lemma swap_update_distribution:
  "update_distribution (\<lambda>_. []) swapped_distribution (swap_proxy l) =
     rbind (stoi (assign_int l)) (\<lambda>l'. Inr (1, swap_proxy l
       \<lparr>px_new_key_to_frequency := [''a'' \<mapsto> 0, ''b'' \<mapsto> 0], px_key_to_frequency := [''a'' \<mapsto> 0, ''b'' \<mapsto> 0],
        px_key_to_number_of_replicas := [''a'' \<mapsto> 1, ''b'' \<mapsto> 2, ''d'' \<mapsto> 1],
        px_replica_to_label := [''a0'' \<mapsto> 5, ''b0'' \<mapsto> 7, ''d0'' \<mapsto> 8, ''b1'' \<mapsto> l'],
        px_missing_new_replicas := [''b'' \<mapsto> ([], [False, False])],
        px_p_max := 1 / 2, px_real_distribution := swapped_distribution,
        px_fake_distribution := distribution_new [''a'', ''b'', ''d''] [1 / 4, 1 / 4, 1 / 2]\<rparr>))"
proof -
  have items: "get_items swapped_distribution = [''a'', ''b'']"
      "get_probabilities swapped_distribution = [1 / 4, 3 / 4]"
    by (simp_all add: swapped_distribution_def distribution_new_def get_items_def get_probabilities_def)
  show ?thesis
    unfolding update_distribution_def Let_def items swap_update_keys
    by (simp add: prepare_for_swapping_def require_def recompute_fake_distribution_def Let_def items
        perform_swapping_def swap_names demo_proxy_def swap_proxy_def rbind_assoc)
qed

theorem swapped_labels_are_digits_witness:
  "\<exists>swaps p'. update_distribution (\<lambda>_. []) swapped_distribution (swap_proxy 49) = Inr (swaps, p') \<and>
     px_replica_to_label p' ''b1'' = Some 1 \<and> (0 :: int) \<le> 1"
proof -
  have "stoi (assign_int 49) = Inr 1" by code_simp
  then obtain p' where r: "update_distribution (\<lambda>_. []) swapped_distribution (swap_proxy 49) = Inr (1, p')"
      "px_replica_to_label p' ''b1'' = Some 1"
    by (simp add: swap_update_distribution)
  from swapped_labels_are_digits [OF r] r show ?thesis by auto
qed

text \<open>
  Freeing a label that is not the code of a digit makes \<open>update_distribution\<close> throw:
  with label 3 freed it ends in \<open>std::invalid_argument\<close>, after the labels and counts of the
  keys have already been changed.
\<close>

theorem swap_throws:
  "update_distribution (\<lambda>_. []) swapped_distribution (swap_proxy 3) = Inl Invalid_argument"
proof -
  have "stoi (assign_int 3) = Inl Invalid_argument" by code_simp
  then show ?thesis by (simp add: swap_update_distribution)
qed

section \<open>The recomputed fake distribution\<close>

lemma fake_probs_values:
  assumes "length ks = length \<pi>s" and "\<forall>k\<in>set ks. px_key_to_number_of_replicas p k \<noteq> None"
  shows "fake_probs ks \<pi>s fakes p = Inr (fakes @
     map2 (\<lambda>k \<pi>. real_of_int (replicas p k) * px_p_max p - \<pi>) ks \<pi>s, p)"
  using assms
proof (induction ks \<pi>s arbitrary: fakes rule: list_induct2)
  case (Cons k ks \<pi> \<pi>s)
  then obtain r where "px_key_to_number_of_replicas p k = Some r" by auto
  with Cons show ?case by (simp add: replicas_def)
qed simp

lemma sum_fake_probs:
  "length ks = length \<pi>s \<Longrightarrow>
   sum_list (map2 (\<lambda>k \<pi>. real_of_int (R k) * m - \<pi>) ks \<pi>s)
     = real_of_int (sum_list (map R ks)) * m - sum_list \<pi>s"
  by (induction ks \<pi>s rule: list_induct2) (simp_all add: algebra_simps)



section \<open>New replicas and the dummy key\<close>

text \<open>
  A key that grows is not marked as missing its new replicas. For a key without an entry
  in the table of missing replicas, \<open>prepare_for_swapping\<close> enters a bit vector of all zeros,
  and a real access may then pick any replica, the new ones included, although they still
  hold another key's value.
\<close>

theorem grown_key_reads_new_replicas:
  assumes "px_missing_new_replicas p k = None" and "k \<noteq> px_dummy_key p" and "0 \<le> r_old"
    and "r_old < r_new" and "r_new < 2 ^ 31" and "0 \<le> r" and "r < r_new"
  shows "\<exists>un' needs' p'. prepare_for_swapping k r_new r_old un needs p = Inr (un', needs', p') \<and>
    (\<exists>g g'. sample_a_replica k r_new True f p_max (px_missing_new_replicas p') g = Inr (r, g'))"
proof -
  have lz: "num_leading_zeros (replicate m False) = int m" for m by (induction m) simp_all
  define m where "m = (px_missing_new_replicas p)(k \<mapsto> ([], replicate (nat r_new) False))"
  have e: "edit_bit_vector_size k r_new (px_missing_new_replicas p) = Inr m"
    using assms by (simp add: edit_bit_vector_size_def mk_vector_def m_def)
  define g where "g = sconst (nat r)"
  have "nat r mod (RAND_MAX + 1) = nat r" using assms(5-7) by (simp add: RAND_MAX_def)
  then have "rand_mod r_new (stl g) = Inr (r, stl (stl g))"
    using assms by (simp add: rand_mod_def c_rand_def g_def Let_def)
  moreover have "0 < r_new" using assms(3,4) by simp
  ultimately have "sample_a_replica k r_new True f p_max m g = Inr (r, stl (stl g))"
    by (simp add: sample_a_replica_def m_def lz require_def split_beta Let_def)
  then show ?thesis
    using assms(2,4) e by (simp add: prepare_for_swapping_def Let_def) blast
qed

theorem grown_key_reads_new_replicas_witness:
  "\<exists>un' needs' p'. prepare_for_swapping ''b'' 2 1 [] [] (swap_proxy 6) = Inr (un', needs', p') \<and>
    (\<exists>g g'. sample_a_replica ''b'' 2 True 0 (1 / 2) (px_missing_new_replicas p') g = Inr (1, g'))"
  by (rule grown_key_reads_new_replicas) (simp_all add: swap_proxy_def demo_proxy_def)

text \<open>
  The dummy key's replica count goes stale. \<open>update_distribution\<close> moves the dummy key's
  labels and sets \<open>dummy_keys_\<close> to the new number of dummy replicas, but it never updates the
  count \<open>execute_batch\<close> samples from, which stays what it was.
\<close>

theorem dummy_count_goes_stale:
  assumes "update_distribution es d p = Inr (swaps, p')" and "px_dummy_key p \<notin> set (dist_items d)"
    and "px_key_to_number_of_replicas p (px_dummy_key p) = Some r"
  shows "px_key_to_number_of_replicas p' (px_dummy_key p) = Some r \<and>
    (\<exists>num un needs p1. update_keys (get_items d) (get_probabilities d) 0 [] [] p = Inr (num, un, needs, p1) \<and>
       px_dummy_keys p' = 2 * int (length (dist_items d)) - num)"
proof -
  obtain num un needs p1 un' needs' p3 p4 where s:
    "update_keys (get_items d) (get_probabilities d) 0 [] [] p = Inr (num, un, needs, p1)"
    "prepare_for_swapping (px_dummy_key p1) (2 * int (length (get_items d)) - num) (px_dummy_keys p1) un needs
      (p1\<lparr>px_dummy_keys := 2 * int (length (get_items d)) - num\<rparr>) = Inr (un', needs', p3)"
    "recompute_fake_distribution (es (px_missing_new_replicas p3)) d p3 = Inr p4"
    "perform_swapping un' needs'
      (p4\<lparr>px_real_distribution := d, px_key_to_frequency := px_new_key_to_frequency p4\<rparr>) = Inr (swaps, p')"
    using assms(1) by (rule update_distribution_steps)
  have keys: "px_key_to_number_of_replicas p1 k = px_key_to_number_of_replicas p k"
    if "k \<notin> set ks" "update_keys ks probs num0 un0 needs0 p = Inr (num, un, needs, p1)" for k ks probs num0 un0 needs0 p
    using that
  proof (induction ks arbitrary: probs num0 un0 needs0 p)
    case Nil
    then show ?case by simp
  next
    case (Cons k' ks)
    from Cons.prems(2) obtain \<pi> probs' un1 needs1 q1 q2 where u:
        "q1 = p\<lparr>px_new_key_to_frequency := (px_new_key_to_frequency p)(k' \<mapsto> trunc_int \<pi>),
          px_key_to_number_of_replicas := (px_key_to_number_of_replicas p)(k' \<mapsto> replica_count (px_alpha p) \<pi>)\<rparr>"
        "prepare_for_swapping k' (replica_count (px_alpha p) \<pi>) (replicas p k') un0 needs0 q1 = Inr (un1, needs1, q2)"
        "update_keys ks probs' (num0 + replica_count (px_alpha p) \<pi>) un1 needs1 q2 = Inr (num, un, needs, p1)"
      by (rule update_keys_Cons)
    from Cons.IH [OF _ u(3)] Cons.prems(1) prepare_for_swapping_balance(2) [OF u(2)] show ?case
      by (simp add: u(1))
  qed
  have "px_key_to_number_of_replicas p1 (px_dummy_key p) = Some r"
    using keys [OF _ s(1)] assms(2,3) by (simp add: get_items_def)
  then have "px_key_to_number_of_replicas p3 (px_dummy_key p) = Some r"
    using prepare_for_swapping_balance(2) [OF s(2)] by simp
  then have "px_key_to_number_of_replicas p4 (px_dummy_key p) = Some r"
    using recompute_frame [OF s(3)] by blast
  moreover have "px_dummy_keys p4 = 2 * int (length (dist_items d)) - num"
    using recompute_frame [OF s(3)] prepare_for_swapping_balance(2) [OF s(2)] by (simp add: get_items_def)
  ultimately show ?thesis
    using s(1,4) by (auto simp: perform_swapping_def rbind_Inr_iff)
qed

theorem dummy_count_goes_stale_witness:
  "\<exists>swaps p'. update_distribution (\<lambda>_. []) swapped_distribution (swap_proxy 49) = Inr (swaps, p') \<and>
     px_key_to_number_of_replicas p' ''d'' = Some 1"
proof -
  have "stoi (assign_int 49) = Inr 1" by code_simp
  then obtain p' where r: "update_distribution (\<lambda>_. []) swapped_distribution (swap_proxy 49) = Inr (1, p')"
    by (simp add: swap_update_distribution)
  have "px_dummy_key (swap_proxy 49) \<notin> set (dist_items swapped_distribution)"
      "px_key_to_number_of_replicas (swap_proxy 49) (px_dummy_key (swap_proxy 49)) = Some 1"
    by (simp_all add: swap_proxy_def demo_proxy_def swapped_distribution_def distribution_new_def)
  from dummy_count_goes_stale [OF r this] r show ?thesis
    by (simp add: swap_proxy_def demo_proxy_def)
qed

end
