(* ===== verification/Many_Consumers.thy ===== *)
theory Many_Consumers
  imports Batch_Properties Consumer_Properties
begin

text \<open>
  The consumer threads of one proxy next to each other. \<open>init\<close> starts one \<open>consumer_thread\<close> per
  core; each has its queue and its connection to the storage, and all share the tables, the update
  cache and the labels. \<open>execute_batch\<close> (\<^verbatim>\<open>pancake_proxy.cpp\<close>) reads the labels of a batch, works on
  the responses and writes the same labels, with no lock from the read to the write. The two halves
  are the steps \<open>batch_fetch\<close> and \<open>batch_store\<close>; \<open>shared_run\<close> interleaves those of any number of
  consumers. While the batches in flight touch different labels every run answers like a plain map;
  when two of them share a label, an acknowledged write can be lost.
\<close>

section \<open>The two halves of a batch\<close>

text \<open>From the choice of the replicas to the responses of the storage.\<close>

definition batch_fetch ::
    "'st env \<Rightarrow> operation list \<Rightarrow> bool list \<Rightarrow> proxy_state \<Rightarrow> 'st \<Rightarrow> rng \<Rightarrow>
     (int list \<times> string list \<times> string list \<times> proxy_state \<times> rng) res" where
  "batch_fetch E ops is_trues p st g =
     rbind (choose_replicas ops is_trues p g) (\<lambda>(rids, storage_keys, p1, g1).
     rbind (si_get_batch (env_storage E) st storage_keys) (\<lambda>responses.
       Inr (rids, storage_keys, responses, p1, g1)))"

text \<open>From the responses to the write back.\<close>

definition batch_store ::
    "'st env \<Rightarrow> operation list \<Rightarrow> bool list \<Rightarrow> nat list \<Rightarrow> int list \<Rightarrow> string list \<Rightarrow> string list \<Rightarrow>
     proxy_state \<Rightarrow> 'st \<Rightarrow> promise_store \<Rightarrow> (proxy_state \<times> 'st \<times> promise_store) res" where
  "batch_store E ops is_trues promises rids storage_keys responses p st ps =
     rbind (process_responses E ops rids responses is_trues promises p ps) (\<lambda>(storage_values, p', ps').
     rbind (si_put_batch (env_storage E) st storage_keys storage_values) (\<lambda>st'.
       Inr (p', st', ps')))"

text \<open>With nothing in between they are \<open>execute_batch\<close>.\<close>

lemma execute_batch_split:
  "execute_batch E ops ts pids p st g ps =
     rbind (batch_fetch E ops ts p st g) (\<lambda>(rids, ss, resps, p1, g1).
     rbind (batch_store E ops ts pids rids ss resps p1 st ps) (\<lambda>(p2, st', ps').
       Inr (p2, st', g1, ps')))"
  unfolding execute_batch_def batch_fetch_def batch_store_def
  by (simp add: rbind_assoc case_prod_beta')

section \<open>Consumers over one state\<close>

text \<open>A batch in flight: the locals of \<open>execute_batch\<close> between its two halves.\<close>

record flight =
  fl_batch :: batch
  fl_rids :: "int list"
  fl_labels :: "string list"
  fl_responses :: "string list"

record 'st shared =
  sh_proxy :: proxy_state
  sh_storage :: 'st
  sh_rng :: rng
  sh_promises :: promise_store
  sh_flight :: "nat \<rightharpoonup> flight"

definition fetch_step :: "'st env \<Rightarrow> nat \<Rightarrow> batch \<Rightarrow> 'st shared \<Rightarrow> 'st shared res" where
  "fetch_step E c b s =
     rbind (batch_fetch E (b_ops b) (b_trues b) (sh_proxy s) (sh_storage s) (sh_rng s))
       (\<lambda>(rids, storage_keys, responses, p, g).
          Inr (s\<lparr>sh_proxy := p, sh_rng := g,
                sh_flight := (sh_flight s)(c \<mapsto> \<lparr>fl_batch = b, fl_rids = rids, fl_labels = storage_keys,
                                               fl_responses = responses\<rparr>)\<rparr>))"

definition store_step :: "'st env \<Rightarrow> nat \<Rightarrow> flight \<Rightarrow> 'st shared \<Rightarrow> 'st shared res" where
  "store_step E c fl s =
     (let b = fl_batch fl
      in rbind (batch_store E (b_ops b) (b_trues b) (b_promises b) (fl_rids fl) (fl_labels fl)
                  (fl_responses fl) (sh_proxy s) (sh_storage s) (sh_promises s)) (\<lambda>(p, st, ps).
           Inr (s\<lparr>sh_proxy := p, sh_storage := st, sh_promises := ps,
                 sh_flight := (sh_flight s)(c := None)\<rparr>)))"

text \<open>The promises of a batch are pending, and no other consumer has them.\<close>

definition promises_free :: "batch \<Rightarrow> 'st shared \<Rightarrow> bool" where
  "promises_free b s \<longleftrightarrow> distinct (b_promises b) \<and>
     (\<forall>pid\<in>set (b_promises b). sh_promises s pid = Some None) \<and>
     (\<forall>c fl. sh_flight s c = Some fl \<longrightarrow> set (b_promises (fl_batch fl)) \<inter> set (b_promises b) = {})"

text \<open>
  \<open>shared_run E A D s0 hist s\<close>: from \<open>s0\<close> to \<open>s\<close>, where \<open>hist\<close> is the concatenation of the batches
  in the order in which they were stored. \<open>A\<close> restricts the operations, \<open>D\<close> the states a fetch
  may lead to. Between these steps requests arrive and batches are filled, which makes promises and
  draws from the generator; theory \<open>Consumer_Threads\<close> has these steps in full.
\<close>

inductive shared_run ::
    "'st env \<Rightarrow> (operation \<Rightarrow> bool) \<Rightarrow> ('st shared \<Rightarrow> bool) \<Rightarrow> 'st shared \<Rightarrow> batch \<Rightarrow> 'st shared \<Rightarrow> bool"
  for E A D s0 where
  shared_start: "shared_run E A D s0 batch_empty s0"
| shared_request: "shared_run E A D s0 hist s \<Longrightarrow> sh_promises s pid = None \<Longrightarrow>
    shared_run E A D s0 hist (s\<lparr>sh_promises := (sh_promises s)(pid \<mapsto> None)\<rparr>)"
| shared_draw: "shared_run E A D s0 hist s \<Longrightarrow> shared_run E A D s0 hist (s\<lparr>sh_rng := g\<rparr>)"
| shared_fetch: "shared_run E A D s0 hist s \<Longrightarrow> sh_flight s c = None \<Longrightarrow> batch_wf b \<Longrightarrow>
    \<forall>oper\<in>set (b_ops b). A oper \<Longrightarrow> promises_free b s \<Longrightarrow> fetch_step E c b s = Inr s' \<Longrightarrow> D s' \<Longrightarrow>
    shared_run E A D s0 hist s'"
| shared_store: "shared_run E A D s0 hist s \<Longrightarrow> sh_flight s c = Some fl \<Longrightarrow>
    store_step E c fl s = Inr s' \<Longrightarrow>
    shared_run E A D s0 (batch_append hist (fl_batch fl)) s'"

definition labels_apart :: "'st shared \<Rightarrow> bool" where
  "labels_apart s \<longleftrightarrow>
     (\<forall>c fl. sh_flight s c = Some fl \<longrightarrow> distinct (fl_labels fl)) \<and>
     (\<forall>c c' fl fl'. sh_flight s c = Some fl \<longrightarrow> sh_flight s c' = Some fl' \<longrightarrow> c \<noteq> c' \<longrightarrow>
        set (fl_labels fl) \<inter> set (fl_labels fl') = {})"

lemma aligned_one:
  assumes "aligned p [oper] rids ss" and "op_key oper = k" and "replicas p k = 1"
  shows "\<exists>l. label p k 0 = Some l \<and> rids = [0] \<and> ss = [to_string l] \<and> in_range p k 0"
  using assms by (auto simp: in_range_single elim!: aligned_ConsE aligned_NilE split: option.splits)

definition single :: "string \<Rightarrow> string \<Rightarrow> nat \<Rightarrow> batch" where
  "single k v pid = \<lparr>b_ops = [\<lparr>op_key = k, op_value = v\<rparr>], b_trues = [True], b_promises = [pid]\<rparr>"

lemma single_simps [simp]:
  "b_ops (single k v pid) = [\<lparr>op_key = k, op_value = v\<rparr>]" "b_trues (single k v pid) = [True]"
  "b_promises (single k v pid) = [pid]" "batch_wf (single k v pid)"
  "real_pairs (single k v pid) = [(\<lparr>op_key = k, op_value = v\<rparr>, pid)]"
  by (simp_all add: single_def batch_wf_def real_pairs_def)

section \<open>Batches in flight\<close>

context replica_store begin

text \<open>What the second half of a batch needs of the state at the time it runs.\<close>

definition flight_ok :: "'st shared \<Rightarrow> flight \<Rightarrow> bool" where
  "flight_ok s fl \<longleftrightarrow>
     aligned (sh_proxy s) (b_ops (fl_batch fl)) (fl_rids fl) (fl_labels fl) \<and>
     fl_responses fl = map (\<lambda>l. the (view (sh_storage s) l)) (fl_labels fl) \<and>
     set (fl_labels fl) \<subseteq> dom (view (sh_storage s)) \<and> distinct (fl_labels fl) \<and>
     batch_wf (fl_batch fl) \<and> distinct (b_promises (fl_batch fl)) \<and>
     (\<forall>pid\<in>set (b_promises (fl_batch fl)). sh_promises s pid = Some None) \<and>
     (\<forall>oper\<in>set (b_ops (fl_batch fl)). op_ok valid (sh_proxy s) oper)"

definition flights_apart :: "'st shared \<Rightarrow> bool" where
  "flights_apart s \<longleftrightarrow> labels_apart s \<and>
     (\<forall>c c' fl fl'. sh_flight s c = Some fl \<longrightarrow> sh_flight s c' = Some fl' \<longrightarrow> c \<noteq> c' \<longrightarrow>
        set (b_promises (fl_batch fl)) \<inter> set (b_promises (fl_batch fl')) = {})"

definition shared_ok :: "'st shared \<Rightarrow> (string \<Rightarrow> string) \<Rightarrow> bool" where
  "shared_ok s V \<longleftrightarrow>
     sound (sh_storage s) \<and> proxy_wf (sh_proxy s) \<and> holds E (sh_proxy s) (view (sh_storage s)) V \<and>
     px_missing_new_replicas (sh_proxy s) = Map.empty \<and>
     (\<forall>k. 0 < replicas (sh_proxy s) k \<longrightarrow> valid (V k))"

text \<open>The second half returns, and leaves what its operations leave on the map.\<close>

lemma store_step_spec:
  assumes ok: "shared_ok s V" and fl: "flight_ok s fl"
  shows "\<exists>s' vals. store_step E c fl s = Inr s' \<and> length vals = length (fl_labels fl) \<and>
    shared_ok s' (snd (spec_run V (b_ops (fl_batch fl)))) \<and>
    same_tables (sh_proxy s) (sh_proxy s') \<and>
    view (sh_storage s') = put_all (view (sh_storage s)) (fl_labels fl) vals \<and>
    sh_flight s' = (sh_flight s)(c := None) \<and>
    map (sh_promises s') (b_promises (fl_batch fl)) = map (\<lambda>a. Some (Some a))
      (real_answers (b_trues (fl_batch fl)) (fst (spec_run V (b_ops (fl_batch fl))))) \<and>
    (\<forall>pid. pid \<notin> set (b_promises (fl_batch fl)) \<longrightarrow> sh_promises s' pid = sh_promises s pid)"
proof -
  define b where "b = fl_batch fl"
  note o = ok [unfolded shared_ok_def]
  note f = fl [unfolded flight_ok_def, folded b_def]
  have lens: "length (b_trues b) = length (b_ops b)"
      "length (b_promises b) = length (filter (\<lambda>t. t) (b_trues b))"
    using f batch_wf_lengths [of b] by (simp_all add: batch_wf_def)
  obtain cs p2 ps2 where run: "process_responses E (b_ops b) (fl_rids fl) (fl_responses fl) (b_trues b)
        (b_promises b) (sh_proxy s) (sh_promises s) = Inr (cs, p2, ps2)" "length cs = length (b_ops b)"
      "proxy_wf p2" "same_tables (sh_proxy s) p2" "px_missing_new_replicas p2 = Map.empty"
      "holds E p2 (put_all (view (sh_storage s)) (fl_labels fl) cs) (snd (spec_run V (b_ops b)))"
      "map ps2 (b_promises b) = map (\<lambda>a. Some (Some a)) (real_answers (b_trues b) (fst (spec_run V (b_ops b))))"
      "\<forall>pid. pid \<notin> set (b_promises b) \<longrightarrow> ps2 pid = sh_promises s pid"
    using process_responses_spec [of "sh_proxy s" "b_ops b" "fl_rids fl" "fl_labels fl" "b_trues b"
        "view (sh_storage s)" V "b_promises b" "sh_promises s"] o f lens by (auto simp: op_ok_def)
  have len: "length (fl_labels fl) = length cs"
    using f aligned_length [of "sh_proxy s" "b_ops b" "fl_rids fl"] run(2) by simp
  obtain st' where st': "si_put_batch (env_storage E) (sh_storage s) (fl_labels fl) cs = Inr st'" "sound st'"
      "view st' = put_all (view (sh_storage s)) (fl_labels fl) cs"
    using put_batch_law [OF _ len] o by blast
  have valid': "\<forall>k. 0 < replicas p2 k \<longrightarrow> valid (snd (spec_run V (b_ops b)) k)"
    using valid_spec_run [of "sh_proxy s" V "b_ops b"] o f same_tables_simps(1) [OF run(4)] by auto
  show ?thesis
    using run st' len valid'
    by (intro exI [of _ "s\<lparr>sh_proxy := p2, sh_storage := st', sh_promises := ps2,
          sh_flight := (sh_flight s)(c := None)\<rparr>"] exI [of _ cs])
      (simp add: store_step_def batch_store_def b_def [symmetric] Let_def shared_ok_def)
qed

text \<open>The first half returns, and prepares a batch that the second half can finish.\<close>

lemma fetch_step_spec:
  assumes ok: "shared_ok s V" and wf: "batch_wf b"
    and ops: "\<forall>oper\<in>set (b_ops b). op_ok valid (sh_proxy s) oper"
  shows "\<exists>s' fl. fetch_step E c b s = Inr s' \<and> fl_batch fl = b \<and>
    sh_flight s' = (sh_flight s)(c \<mapsto> fl) \<and> shared_ok s' V \<and> same_tables (sh_proxy s) (sh_proxy s') \<and>
    px_update_cache (sh_proxy s') = px_update_cache (sh_proxy s) \<and>
    sh_storage s' = sh_storage s \<and> sh_promises s' = sh_promises s \<and>
    (promises_free b s \<longrightarrow> distinct (fl_labels fl) \<longrightarrow> flight_ok s' fl) \<and>
    aligned (sh_proxy s) (b_ops b) (fl_rids fl) (fl_labels fl) \<and>
    fl_responses fl = map (\<lambda>l. the (view (sh_storage s) l)) (fl_labels fl)"
proof -
  note o = ok [unfolded shared_ok_def]
  have len: "length (b_trues b) = length (b_ops b)" using batch_wf_lengths [OF wf] by blast
  have tot: "labels_total (sh_proxy s)" using o by (simp add: proxy_wf_def)
  have static: "px_missing_new_replicas (sh_proxy s) = Map.empty" using o by blast
  have known: "\<forall>oper\<in>set (b_ops b). 0 < replicas (sh_proxy s) (op_key oper)"
    using ops by (simp add: op_ok_def)
  obtain rids ss freqs g1 where choose: "choose_replicas (b_ops b) (b_trues b) (sh_proxy s) (sh_rng s) =
      Inr (rids, ss, (sh_proxy s)\<lparr>px_key_to_frequency := freqs\<rparr>, g1)"
    and al: "aligned (sh_proxy s) (b_ops b) rids ss"
    using choose_replicas_static [OF tot static known len] by blast
  define p1 where "p1 = (sh_proxy s)\<lparr>px_key_to_frequency := freqs\<rparr>"
  have same: "same_tables (sh_proxy s) p1" by (simp add: p1_def same_tables_def)
  have p1: "proxy_wf p1" "holds E p1 (view (sh_storage s)) V" "px_missing_new_replicas p1 = Map.empty"
      "px_update_cache p1 = px_update_cache (sh_proxy s)"
    using o proxy_inv_cong(1) [of p1 "sh_proxy s"] proxy_inv_cong(2) [of p1 "sh_proxy s" E] by (simp_all add: p1_def)
  have stored: "set ss \<subseteq> dom (view (sh_storage s))"
    using aligned_keys_stored [OF al] o by blast
  define resps where "resps = map (\<lambda>l. the (view (sh_storage s) l)) ss"
  have get: "si_get_batch (env_storage E) (sh_storage s) ss = Inr resps"
    using get_batch_law [OF _ stored] o by (simp add: resps_def)
  define fl where "fl = \<lparr>fl_batch = b, fl_rids = rids, fl_labels = ss, fl_responses = resps\<rparr>"
  define s' where "s' = s\<lparr>sh_proxy := p1, sh_rng := g1, sh_flight := (sh_flight s)(c \<mapsto> fl)\<rparr>"
  have run: "fetch_step E c b s = Inr s'"
    using choose get by (simp add: fetch_step_def batch_fetch_def s'_def fl_def p1_def)
  have ok': "shared_ok s' V"
    using o p1 same_tables_simps(1) [OF same] by (simp add: shared_ok_def s'_def)
  have fok: "flight_ok s' fl" if "promises_free b s" "distinct ss"
    using that al aligned_same_tables [OF same] stored wf ops same_tables_simps(1) [OF same]
    by (auto simp: flight_ok_def s'_def fl_def promises_free_def op_ok_def resps_def)
  show ?thesis
    using run ok' fok same al p1(4) by (intro exI [of _ s'] exI [of _ fl]) (simp add: s'_def fl_def resps_def)
qed

lemma flight_ok_keep:
  assumes "flight_ok s fl" and "same_tables (sh_proxy s) (sh_proxy s')"
    and "\<forall>l\<in>set (fl_labels fl). view (sh_storage s') l = view (sh_storage s) l"
    and "\<forall>pid\<in>set (b_promises (fl_batch fl)). sh_promises s' pid = sh_promises s pid"
  shows "flight_ok s' fl"
  using assms(1,3,4) aligned_same_tables [OF assms(2)] same_tables_simps(1) [OF assms(2)]
  by (auto simp: flight_ok_def dom_def subset_iff op_ok_def)

section \<open>The invariant of every run\<close>

definition shared_inv :: "(string \<Rightarrow> string) \<Rightarrow> 'st shared \<Rightarrow> batch \<Rightarrow> 'st shared \<Rightarrow> bool" where
  "shared_inv V0 s0 hist s \<longleftrightarrow>
     batch_wf hist \<and> shared_ok s (snd (spec_run V0 (b_ops hist))) \<and>
     same_tables (sh_proxy s0) (sh_proxy s) \<and>
     map (sh_promises s) (b_promises hist) = map (\<lambda>a. Some (Some a))
       (real_answers (b_trues hist) (fst (spec_run V0 (b_ops hist)))) \<and>
     (\<forall>c fl. sh_flight s c = Some fl \<longrightarrow> flight_ok s fl) \<and> flights_apart s"

lemma flights_apart_removed:
  assumes "flights_apart s" and "sh_flight s' = (sh_flight s)(c := None)"
  shows "flights_apart s'"
  using assms unfolding flights_apart_def labels_apart_def by (auto split: if_splits)

lemma flights_apart_added:
  assumes "flights_apart s" and "sh_flight s' = (sh_flight s)(c \<mapsto> fl)" and "promises_free (fl_batch fl) s"
    and "labels_apart s'"
  shows "flights_apart s'"
  using assms unfolding flights_apart_def promises_free_def by (auto split: if_splits) blast

text \<open>The promises of the batches that were stored are not those of a batch in flight.\<close>

lemma answered_not_pending:
  assumes "map ps pids = map (\<lambda>a. Some (Some a)) as" and "\<forall>pid\<in>set pids'. ps pid = Some None"
  shows "set pids \<inter> set pids' = {}"
proof -
  have "\<exists>v. ps pid = Some (Some v)" if "pid \<in> set pids" for pid
  proof -
    have "ps pid \<in> set (map ps pids)" using that by simp
    then show ?thesis unfolding assms(1) by auto
  qed
  then show ?thesis using assms(2) by fastforce
qed

lemma shared_inv_request:
  assumes inv: "shared_inv V0 s0 hist s" and fresh: "sh_promises s pid = None"
  shows "shared_inv V0 s0 hist (s\<lparr>sh_promises := (sh_promises s)(pid \<mapsto> None)\<rparr>)"
proof -
  define s' where "s' = s\<lparr>sh_promises := (sh_promises s)(pid \<mapsto> None)\<rparr>"
  note i = inv [unfolded shared_inv_def]
  have keep: "flight_ok s' fl" if "sh_flight s c = Some fl" for c fl
  proof (rule flight_ok_keep)
    show "flight_ok s fl" using i that by blast
    then show "\<forall>q\<in>set (b_promises (fl_batch fl)). sh_promises s' q = sh_promises s q"
      using fresh by (auto simp: flight_ok_def s'_def)
  qed (simp_all add: s'_def)
  have "pid \<notin> set (b_promises hist)"
  proof
    assume "pid \<in> set (b_promises hist)"
    then have "sh_promises s pid \<in> set (map (sh_promises s) (b_promises hist))" by simp
    then show False using i fresh by auto
  qed
  then have same: "map (sh_promises s') (b_promises hist) = map (sh_promises s) (b_promises hist)"
    by (auto simp: s'_def)
  have "shared_inv V0 s0 hist s'"
    unfolding shared_inv_def same
    using i keep by (simp add: s'_def shared_ok_def flights_apart_def labels_apart_def)
  then show ?thesis by (simp add: s'_def)
qed

lemma shared_inv_draw: "shared_inv V0 s0 hist s \<Longrightarrow> shared_inv V0 s0 hist (s\<lparr>sh_rng := g\<rparr>)"
  by (simp add: shared_inv_def shared_ok_def flight_ok_def flights_apart_def labels_apart_def)

lemma shared_inv_fetch:
  assumes inv: "shared_inv V0 s0 hist s" and b: "batch_wf b" "promises_free b s"
    and ops: "\<forall>oper\<in>set (b_ops b). op_ok valid (sh_proxy s0) oper"
    and idle: "sh_flight s c = None" and step: "fetch_step E c b s = Inr s'" and apart: "labels_apart s'"
  shows "shared_inv V0 s0 hist s'"
proof -
  note i = inv [unfolded shared_inv_def]
  have tabs: "same_tables (sh_proxy s0) (sh_proxy s)" using i by blast
  have ops': "\<forall>oper\<in>set (b_ops b). op_ok valid (sh_proxy s) oper"
    using ops same_tables_simps(1) [OF tabs] by (simp add: op_ok_def)
  obtain fl where f: "fl_batch fl = b" "sh_flight s' = (sh_flight s)(c \<mapsto> fl)"
      "shared_ok s' (snd (spec_run V0 (b_ops hist)))" "same_tables (sh_proxy s) (sh_proxy s')"
      "sh_storage s' = sh_storage s" "sh_promises s' = sh_promises s"
      "promises_free b s \<longrightarrow> distinct (fl_labels fl) \<longrightarrow> flight_ok s' fl"
    using fetch_step_spec [OF conjunct1 [OF conjunct2 [OF i]] b(1) ops', of c] step by auto
  have "distinct (fl_labels fl)" using apart f(2) unfolding labels_apart_def by (metis fun_upd_same)
  then have new: "flight_ok s' fl" using f(7) b(2) by blast
  have keep: "flight_ok s' fl'" if "sh_flight s c' = Some fl'" for c' fl'
    by (rule flight_ok_keep [OF _ f(4)]) (use i that f(5,6) in auto)
  have "flights_apart s'"
    using flights_apart_added [OF _ f(2) _ apart] i f(1) b(2) by blast
  then show ?thesis
    unfolding shared_inv_def
    using i f new keep same_tables_trans [OF tabs f(4)] by auto
qed

lemma shared_inv_store:
  assumes inv: "shared_inv V0 s0 hist s" and fl: "sh_flight s c = Some fl"
    and step: "store_step E c fl s = Inr s'"
  shows "shared_inv V0 s0 (batch_append hist (fl_batch fl)) s'"
proof -
  note i = inv [unfolded shared_inv_def]
  define b where "b = fl_batch fl"
  define V where "V = snd (spec_run V0 (b_ops hist))"
  have ok: "shared_ok s V" and fok: "flight_ok s fl" using i fl by (simp_all add: V_def)
  obtain vals where f: "shared_ok s' (snd (spec_run V (b_ops b)))" "same_tables (sh_proxy s) (sh_proxy s')"
      "view (sh_storage s') = put_all (view (sh_storage s)) (fl_labels fl) vals"
      "sh_flight s' = (sh_flight s)(c := None)"
      "map (sh_promises s') (b_promises b) = map (\<lambda>a. Some (Some a))
        (real_answers (b_trues b) (fst (spec_run V (b_ops b))))"
      "\<forall>pid. pid \<notin> set (b_promises b) \<longrightarrow> sh_promises s' pid = sh_promises s pid"
    using store_step_spec [OF ok fok, of c] step by (auto simp: b_def)
  have bwf: "batch_wf b" "batch_wf hist" using fok i by (simp_all add: flight_ok_def b_def)
  have pend: "\<forall>pid\<in>set (b_promises b). sh_promises s pid = Some None"
    using fok by (simp add: flight_ok_def b_def)
  have "set (b_promises hist) \<inter> set (b_promises b) = {}"
    using answered_not_pending [OF _ pend] i by blast
  then have old: "map (sh_promises s') (b_promises hist) = map (sh_promises s) (b_promises hist)"
    using f(6) by (intro map_cong) auto
  have keep: "flight_ok s' fl'" if "sh_flight s' c' = Some fl'" for c' fl'
  proof (rule flight_ok_keep [OF _ f(2)])
    have c': "sh_flight s c' = Some fl'" "c' \<noteq> c" using that f(4) by (auto split: if_splits)
    then show "flight_ok s fl'" using i by blast
    have "set (fl_labels fl) \<inter> set (fl_labels fl') = {}" "set (b_promises b) \<inter> set (b_promises (fl_batch fl')) = {}"
      using i fl c' unfolding flights_apart_def labels_apart_def b_def by metis+
    then show "\<forall>l\<in>set (fl_labels fl'). view (sh_storage s') l = view (sh_storage s) l"
        "\<forall>pid\<in>set (b_promises (fl_batch fl')). sh_promises s' pid = sh_promises s pid"
      using f(6) by (auto simp: f(3) intro!: put_all_other)
  qed
  have spec: "snd (spec_run V0 (b_ops hist @ b_ops b)) = snd (spec_run V (b_ops b))"
      "real_answers (b_trues hist @ b_trues b) (fst (spec_run V0 (b_ops hist @ b_ops b)))
        = real_answers (b_trues hist) (fst (spec_run V0 (b_ops hist)))
          @ real_answers (b_trues b) (fst (spec_run V (b_ops b)))"
    using batch_wf_lengths [OF bwf(2)] by (simp_all add: spec_run_append real_answers_append V_def)
  have apart: "flights_apart s'" using flights_apart_removed [OF _ f(4)] i by blast
  have ans: "map (sh_promises s') (b_promises hist @ b_promises b) = map (\<lambda>a. Some (Some a))
      (real_answers (b_trues hist @ b_trues b) (fst (spec_run V0 (b_ops hist @ b_ops b))))"
    unfolding spec(2) map_append f(5) old using i by simp
  have tabs: "same_tables (sh_proxy s0) (sh_proxy s')"
    using i same_tables_trans [OF _ f(2)] by blast
  show ?thesis
    unfolding shared_inv_def b_def [symmetric]
    using batch_append_wf [OF bwf(2,1)] f(1) tabs ans keep apart
    by (simp add: batch_append_def spec(1) del: map_append)
qed

lemma shared_run_inv:
  assumes "shared_run E (op_ok valid (sh_proxy s0)) labels_apart s0 hist s"
    and "shared_ok s0 V0" and "sh_flight s0 = Map.empty"
  shows "shared_inv V0 s0 hist s"
  using assms
proof (induction rule: shared_run.induct)
  case shared_start
  then show ?case
    by (simp add: shared_inv_def flights_apart_def labels_apart_def) (simp add: batch_empty_def)
next
  case (shared_request hist s pid)
  then show ?case using shared_inv_request by blast
next
  case (shared_draw hist s g)
  then show ?case using shared_inv_draw by blast
next
  case (shared_fetch hist s c b s')
  then show ?case using shared_inv_fetch by blast
next
  case (shared_store hist s c fl s')
  then show ?case using shared_inv_store by blast
qed

text \<open>The labels of a run stay apart, so every batch in flight can be finished.\<close>

lemma shared_run_serialises:
  assumes "shared_run E (op_ok valid (sh_proxy s0)) labels_apart s0 hist s"
    and "shared_ok s0 V0" and "sh_flight s0 = Map.empty"
  shows "map (sh_promises s) (map snd (real_pairs hist)) =
      map (\<lambda>a. Some (Some a)) (fst (spec_run V0 (map fst (real_pairs hist)))) \<and>
    sound (sh_storage s) \<and> proxy_wf (sh_proxy s) \<and>
    holds E (sh_proxy s) (view (sh_storage s)) (snd (spec_run V0 (map fst (real_pairs hist)))) \<and>
    (\<forall>c fl. sh_flight s c = Some fl \<longrightarrow> (\<exists>s'. store_step E c fl s = Inr s'))"
proof -
  have "shared_inv V0 s0 hist s" by (rule shared_run_inv [OF assms])
  note i = this [unfolded shared_inv_def]
  have wf: "batch_wf hist" using i by blast
  have reals: "real_answers (b_trues hist) (fst (spec_run V0 (b_ops hist)))
        = fst (spec_run V0 (map fst (real_pairs hist)))"
      "snd (spec_run V0 (b_ops hist)) = snd (spec_run V0 (map fst (real_pairs hist)))"
    using spec_run_reals [of "b_trues hist" "b_ops hist" V0] wf
    unfolding map_fst_real_pairs [OF wf] batch_wf_def by simp_all
  have "\<exists>s'. store_step E c fl s = Inr s'" if "sh_flight s c = Some fl" for c fl
    using store_step_spec [of s _ fl c] i that by blast
  then show ?thesis
    using i unfolding reals map_snd_real_pairs [OF wf] shared_ok_def by blast
qed

section \<open>Two batches on one label\<close>

text \<open>The second half of a batch of one operation on a key with one replica.\<close>

lemma store_single:
  assumes "sound st" and "replicas p k = 1" and "px_update_cache p k = None"
    and "px_missing_new_replicas p = Map.empty" and "env_decrypt E c0 = Inr x" and "valid x"
    and "v = [] \<or> valid v" and "ps a = Some None" and "y = (if v = [] then x else v)"
  shows "\<exists>c st'. batch_store E [\<lparr>op_key = k, op_value = v\<rparr>] [True] [a] [0] [l] [c0] p st ps =
      Inr (p, st', ps(a \<mapsto> Some y)) \<and>
    sound st' \<and> view st' = (view st)(l \<mapsto> c) \<and> env_decrypt E c = Inr y"
proof -
  have "valid y" using assms(6,7,9) by auto
  then obtain c where c: "env_encrypt E y = Inr c" "env_decrypt E c = Inr y"
    using roundtrip_law by blast
  obtain st' where put: "si_put_batch (env_storage E) st [l] [c] = Inr st'" "sound st'"
      "view st' = put_all (view st) [l] [c]"
    using put_batch_law [OF assms(1), of "[l]" "[c]"] by auto
  have "x \<noteq> []" using assms(6) valid_nonempty by blast
  note up = apply_update_single [OF assms(2,3,4) this, of v, folded assms(9)]
  show ?thesis
    using up c put assms(5,8) by (auto simp: batch_store_def fulfil_def set_value_def)
qed

text \<open>A fetch of such a batch: the label, and the response, which stands for the key's value.\<close>

lemma fetch_single:
  assumes ok: "shared_ok s V" and one: "replicas (sh_proxy s) k = 1"
    and quiet: "px_update_cache (sh_proxy s) k = None" and v: "v = [] \<or> valid v"
  shows "\<exists>s' l x. fetch_step E c (single k v pid) s = Inr s' \<and> label (sh_proxy s) k 0 = Some l \<and>
    in_range (sh_proxy s) k 0 \<and> env_decrypt E x = Inr (V k) \<and>
    sh_flight s' = (sh_flight s)(c \<mapsto>
      \<lparr>fl_batch = single k v pid, fl_rids = [0], fl_labels = [to_string l], fl_responses = [x]\<rparr>) \<and>
    shared_ok s' V \<and> same_tables (sh_proxy s) (sh_proxy s') \<and> px_update_cache (sh_proxy s') k = None \<and>
    sh_storage s' = sh_storage s \<and> sh_promises s' = sh_promises s"
proof -
  have ops: "\<forall>oper\<in>set (b_ops (single k v pid)). op_ok valid (sh_proxy s) oper"
    using one v by (simp add: op_ok_def)
  obtain s' fl where f: "fetch_step E c (single k v pid) s = Inr s'" "fl_batch fl = single k v pid"
      "sh_flight s' = (sh_flight s)(c \<mapsto> fl)" "shared_ok s' V" "same_tables (sh_proxy s) (sh_proxy s')"
      "px_update_cache (sh_proxy s') = px_update_cache (sh_proxy s)"
      "sh_storage s' = sh_storage s" "sh_promises s' = sh_promises s"
      "aligned (sh_proxy s) [\<lparr>op_key = k, op_value = v\<rparr>] (fl_rids fl) (fl_labels fl)"
      "fl_responses fl = map (\<lambda>l. the (view (sh_storage s) l)) (fl_labels fl)"
    using fetch_step_spec [OF ok _ ops, of c] by auto
  obtain l where l: "label (sh_proxy s) k 0 = Some l" "fl_rids fl = [0]" "fl_labels fl = [to_string l]"
      "in_range (sh_proxy s) k 0"
    using aligned_one [OF f(9) _ one] by auto
  obtain x where x: "view (sh_storage s) (to_string l) = Some x" "env_decrypt E x = Inr (V k)"
    using ok l quiet unfolding shared_ok_def holds_def by (fastforce simp: cache_pending_def)
  have "fl = \<lparr>fl_batch = single k v pid, fl_rids = [0], fl_labels = [to_string l], fl_responses = [x]\<rparr>"
    using f(2,10) l(2,3) x(1) by (cases fl) simp
  with f l x quiet show ?thesis by auto
qed

lemma overlap_lost:
  assumes ok: "shared_ok s0 V" and idle: "sh_flight s0 = Map.empty"
    and one: "replicas (sh_proxy s0) k = 1" and quiet: "px_update_cache (sh_proxy s0) k = None"
    and v: "valid v" and ps: "sh_promises s0 a = None" "sh_promises s0 b = None" "a \<noteq> b"
  shows "\<exists>hist s. shared_run E (op_ok valid (sh_proxy s0)) (\<lambda>s. True) s0 hist s \<and>
    real_pairs hist = [(\<lparr>op_key = k, op_value = v\<rparr>, a), (\<lparr>op_key = k, op_value = []\<rparr>, b)] \<and>
    sh_flight s = Map.empty \<and> sh_promises s a = Some (Some v) \<and> sh_promises s b = Some (Some (V k)) \<and>
    holds E (sh_proxy s) (view (sh_storage s)) V"
proof -
  let ?run = "shared_run E (op_ok valid (sh_proxy s0)) (\<lambda>s. True) s0"
  define R where "R = single k [] b"
  define W where "W = single k v a"
  define s1 where "s1 = s0\<lparr>sh_promises := (sh_promises s0)(a \<mapsto> None)\<rparr>"
  define s2 where "s2 = s1\<lparr>sh_promises := (sh_promises s1)(b \<mapsto> None)\<rparr>"
  have "?run batch_empty s1" unfolding s1_def by (rule shared_request [OF shared_start ps(1)])
  then have run2: "?run batch_empty s2"
    unfolding s2_def by (rule shared_request) (use ps in \<open>simp add: s1_def\<close>)
  have s2: "sh_proxy s2 = sh_proxy s0" "sh_flight s2 = Map.empty" "shared_ok s2 V"
      "sh_promises s2 a = Some None" "sh_promises s2 b = Some None"
    using ok idle ps(3) by (simp_all add: s2_def s1_def shared_ok_def)
  have ops: "\<forall>oper\<in>set (b_ops R). op_ok valid (sh_proxy s0) oper"
      "\<forall>oper\<in>set (b_ops W). op_ok valid (sh_proxy s0) oper"
    using one v by (simp_all add: R_def W_def op_ok_def)
  have two: "replicas (sh_proxy s2) k = 1" "px_update_cache (sh_proxy s2) k = None"
    using one quiet s2(1) by simp_all
  from fetch_single [OF s2(3) two, of "[]" 0 b] obtain s3 l x where f3: "fetch_step E 0 R s2 = Inr s3"
      "label (sh_proxy s2) k 0 = Some l" "in_range (sh_proxy s2) k 0" "env_decrypt E x = Inr (V k)"
      "sh_flight s3 = [0 \<mapsto> \<lparr>fl_batch = R, fl_rids = [0], fl_labels = [to_string l], fl_responses = [x]\<rparr>]"
      "shared_ok s3 V" "same_tables (sh_proxy s2) (sh_proxy s3)" "px_update_cache (sh_proxy s3) k = None"
      "sh_storage s3 = sh_storage s2" "sh_promises s3 = sh_promises s2"
    using s2(2) by (auto simp: R_def)
  have run3: "?run batch_empty s3"
    by (rule shared_fetch [OF run2 _ _ ops(1) _ f3(1)]) (use s2 in \<open>simp_all add: R_def promises_free_def\<close>)
  have three: "replicas (sh_proxy s3) k = 1" using two(1) same_tables_simps(1) [OF f3(7)] by simp
  have l3: "label (sh_proxy s3) k 0 = Some l" "in_range (sh_proxy s3) k 0"
    using f3(2,3) same_tables_simps(2,3) [OF f3(7)] by simp_all
  from fetch_single [OF f3(6) three f3(8), of v 1 a] obtain s4 y where f4: "fetch_step E 1 W s3 = Inr s4"
      "env_decrypt E y = Inr (V k)"
      "sh_flight s4 = (sh_flight s3)(1 \<mapsto>
         \<lparr>fl_batch = W, fl_rids = [0], fl_labels = [to_string l], fl_responses = [y]\<rparr>)"
      "shared_ok s4 V" "same_tables (sh_proxy s3) (sh_proxy s4)" "px_update_cache (sh_proxy s4) k = None"
      "sh_storage s4 = sh_storage s3" "sh_promises s4 = sh_promises s3"
    using v l3(1) by (auto simp: W_def)
  have run4: "?run batch_empty s4"
    by (rule shared_fetch [OF run3 _ _ ops(2) _ f4(1)])
      (use s2 f3(5,10) ps(3) in \<open>auto simp: R_def W_def promises_free_def\<close>)
  note ok4 = f4(4) [unfolded shared_ok_def]
  have four: "replicas (sh_proxy s4) k = 1" using three same_tables_simps(1) [OF f4(5)] by simp
  have l4: "label (sh_proxy s4) k 0 = Some l" "in_range (sh_proxy s4) k 0"
    using l3 same_tables_simps(2,3) [OF f4(5)] by simp_all
  have validV: "valid (V k)" using ok4 four by auto
  have pend: "sh_promises s4 a = Some None" "sh_promises s4 b = Some None"
    using s2(4,5) f3(10) f4(8) by simp_all
  obtain c st5 where b5: "batch_store E (b_ops W) (b_trues W) (b_promises W) [0] [to_string l] [y]
        (sh_proxy s4) (sh_storage s4) (sh_promises s4)
        = Inr (sh_proxy s4, st5, (sh_promises s4)(a \<mapsto> Some v))"
      "sound st5" "view st5 = (view (sh_storage s4))(to_string l \<mapsto> c)"
    using store_single [of "sh_storage s4" "sh_proxy s4" k y "V k" v "sh_promises s4" a v "to_string l"]
      ok4 four f4(2,6) validV v pend(1) valid_nonempty by (auto simp: W_def)
  define s5 where "s5 = s4\<lparr>sh_storage := st5, sh_promises := (sh_promises s4)(a \<mapsto> Some v),
      sh_flight := sh_flight s3\<rparr>"
  have landed: "(sh_flight s4)(1 := None) = sh_flight s3"
    using f3(5) f4(3) by auto
  have "store_step E 1 \<lparr>fl_batch = W, fl_rids = [0], fl_labels = [to_string l], fl_responses = [y]\<rparr> s4 = Inr s5"
    using b5(1) landed by (simp add: store_step_def s5_def)
  from shared_store [OF run4 _ this] f4(3) have run5: "?run (batch_append batch_empty W) s5" by simp
  obtain d st6 where b6: "batch_store E (b_ops R) (b_trues R) (b_promises R) [0] [to_string l] [x]
        (sh_proxy s5) (sh_storage s5) (sh_promises s5)
        = Inr (sh_proxy s5, st6, (sh_promises s5)(b \<mapsto> Some (V k)))"
      "view st6 = (view (sh_storage s5))(to_string l \<mapsto> d)" "env_decrypt E d = Inr (V k)"
    using store_single [of "sh_storage s5" "sh_proxy s5" k x "V k" "[]" "sh_promises s5" b "V k" "to_string l"]
      ok4 four f3(4) f4(6) validV b5(2) pend(2) ps(3) by (auto simp: R_def s5_def)
  define s6 where "s6 = s5\<lparr>sh_storage := st6, sh_promises := (sh_promises s5)(b \<mapsto> Some (V k)),
      sh_flight := Map.empty\<rparr>"
  have "store_step E 0 \<lparr>fl_batch = R, fl_rids = [0], fl_labels = [to_string l], fl_responses = [x]\<rparr> s5 = Inr s6"
    using b6(1) f3(5) by (simp add: store_step_def s6_def) (simp add: s5_def)
  from shared_store [OF run5 _ this] f3(5) have run6: "?run (batch_append (batch_append batch_empty W) R) s6"
    by (simp add: s5_def)
  have "holds E (sh_proxy s4) ((view (sh_storage s4))(to_string l \<mapsto> d)) V"
    by (rule holds_rewritten [OF _ _ l4]) (use ok4 f4(6) b6(3) in \<open>simp_all add: cache_pending_def\<close>)
  then have fin: "holds E (sh_proxy s6) (view (sh_storage s6)) V"
    using b5(3) b6(2) by (simp add: s6_def s5_def)
  have "real_pairs (batch_append (batch_append batch_empty W) R)
      = [(\<lparr>op_key = k, op_value = v\<rparr>, a), (\<lparr>op_key = k, op_value = []\<rparr>, b)]"
    by (simp add: real_pairs_append W_def R_def)
  with run6 fin ps(3) show ?thesis
    by (intro exI [of _ "batch_append (batch_append batch_empty W) R"] exI [of _ s6]) (simp add: s6_def s5_def)
qed

end

section \<open>Every run\<close>

text \<open>
  Any number of consumers serve one plain map, as long as the batches in flight at the same
  time touch different labels. However their reads and writes of the storage interleave, the
  promises of the requests whose batches have been written back have the answers of these requests
  run one after the other on the map, in the order of the write backs; the storage and the update
  cache stand for the map they leave; and every batch in flight can be finished without an error.
\<close>

theorem batches_apart_serialise:
  assumes "replica_store E view sound valid"
    and "sound (sh_storage s0)" and "proxy_wf (sh_proxy s0)"
    and "holds E (sh_proxy s0) (view (sh_storage s0)) V0"
    and "px_missing_new_replicas (sh_proxy s0) = Map.empty"
    and "\<forall>k. 0 < replicas (sh_proxy s0) k \<longrightarrow> valid (V0 k)"
    and "sh_flight s0 = Map.empty"
    and "shared_run E (op_ok valid (sh_proxy s0)) labels_apart s0 hist s"
  shows "map (sh_promises s) (map snd (real_pairs hist)) =
      map (\<lambda>a. Some (Some a)) (fst (spec_run V0 (map fst (real_pairs hist)))) \<and>
    sound (sh_storage s) \<and> proxy_wf (sh_proxy s) \<and>
    holds E (sh_proxy s) (view (sh_storage s)) (snd (spec_run V0 (map fst (real_pairs hist)))) \<and>
    (\<forall>c fl. sh_flight s c = Some fl \<longrightarrow> (\<exists>s'. store_step E c fl s = Inr s'))"
proof -
  have "replica_store.shared_ok E view sound valid s0 V0"
    using assms(2-6) by (simp add: replica_store.shared_ok_def [OF assms(1)])
  then show ?thesis
    by (rule replica_store.shared_run_serialises [OF assms(1,8) _ assms(7)])
qed

text \<open>Two consumers over the store of the example: both fetch, then the second writes back first.\<close>

definition demo_shared :: "(string \<rightharpoonup> string) list shared" where
  "demo_shared =
     \<lparr>sh_proxy = demo_proxy, sh_storage = demo_store, sh_rng = sconst 5,
      sh_promises = [0 \<mapsto> None, 1 \<mapsto> None], sh_flight = Map.empty\<rparr>"

lemma demo_shared_ok: "ref_store.shared_ok demo_shared demo_values"
  unfolding ref_store.shared_ok_def
  using demo_wf demo_holds demo_static
  by (simp add: demo_shared_def demo_one_server demo_values_valid)

lemma store_step_flight: "store_step E c fl s = Inr s' \<Longrightarrow> sh_flight s' = (sh_flight s)(c := None)"
  by (auto simp: store_step_def Let_def rbind_Inr_iff)

lemma demo_both_fetched:
  "\<exists>s f0 f1. shared_run ref_env (op_ok engine_valid demo_proxy) labels_apart demo_shared batch_empty s \<and>
     sh_flight s = [0 \<mapsto> f0, 1 \<mapsto> f1] \<and> fl_batch f0 = single ''a'' ''z'' 0 \<and> fl_batch f1 = single ''b'' [] 1"
proof -
  let ?run = "shared_run ref_env (op_ok engine_valid demo_proxy) labels_apart demo_shared batch_empty"
  let ?W = "single ''a'' ''z'' 0" and ?R = "single ''b'' [] 1"
  have ops: "\<forall>oper\<in>set (b_ops ?W). op_ok engine_valid demo_proxy oper"
      "\<forall>oper\<in>set (b_ops ?R). op_ok engine_valid demo_proxy oper"
    by (simp_all add: op_ok_def demo_replicas demo_valid)
  have s0: "sh_proxy demo_shared = demo_proxy" "sh_flight demo_shared = Map.empty"
      "sh_promises demo_shared = [0 \<mapsto> None, 1 \<mapsto> None]"
    by (simp_all add: demo_shared_def)
  obtain s1 f0 where f0: "fetch_step ref_env 0 ?W demo_shared = Inr s1" "fl_batch f0 = ?W"
      "sh_flight s1 = [0 \<mapsto> f0]" "ref_store.shared_ok s1 demo_values" "same_tables demo_proxy (sh_proxy s1)"
      "sh_promises s1 = [0 \<mapsto> None, 1 \<mapsto> None]"
      "aligned demo_proxy (b_ops ?W) (fl_rids f0) (fl_labels f0)"
    using ref_store.fetch_step_spec [OF demo_shared_ok, of ?W 0] ops(1) unfolding s0 by auto
  have l0: "fl_labels f0 = [''0'']"
    using aligned_one [OF f0(7) [unfolded single_simps], of "''a''"]
    by (auto simp: demo_replicas demo_label demo_digits)
  have run1: "?run s1"
    by (rule shared_fetch [OF shared_start _ _ ops(1) _ f0(1)])
      (use l0 f0(3) in \<open>auto simp: s0 promises_free_def labels_apart_def split: if_splits\<close>)
  have ops1: "\<forall>oper\<in>set (b_ops ?R). op_ok engine_valid (sh_proxy s1) oper"
    using ops(2) same_tables_simps(1) [OF f0(5)] by (simp add: op_ok_def)
  obtain s2 f1 where f1: "fetch_step ref_env 1 ?R s1 = Inr s2" "fl_batch f1 = ?R"
      "sh_flight s2 = [0 \<mapsto> f0, 1 \<mapsto> f1]"
      "aligned (sh_proxy s1) (b_ops ?R) (fl_rids f1) (fl_labels f1)"
    using ref_store.fetch_step_spec [OF f0(4) _ ops1, of 1] f0(3) by auto
  obtain i t where "fl_rids f1 = [i]" "fl_labels f1 = [t]"
    using aligned_length [OF f1(4)] by (auto simp: length_Suc_conv)
  then have "fl_labels f1 = [''1''] \<or> fl_labels f1 = [''2'']"
    using f1(4) same_tables_simps(2,3) [OF f0(5)]
    by (auto simp: demo_in_range demo_label demo_digits)
  then have apart: "labels_apart s2"
    using l0 by (auto simp: labels_apart_def f1(3) split: if_splits)
  have "?run s2"
    by (rule shared_fetch [OF run1 _ _ ops(2) _ f1(1) apart])
      (use f0(2,3,6) in \<open>auto simp: promises_free_def split: if_splits\<close>)
  with f1(2,3) f0(2) show ?thesis by blast
qed

theorem batches_apart_serialise_witness:
  "\<exists>hist s. shared_run ref_env (op_ok engine_valid demo_proxy) labels_apart demo_shared hist s \<and>
     real_pairs hist = [(\<lparr>op_key = ''b'', op_value = []\<rparr>, 1), (\<lparr>op_key = ''a'', op_value = ''z''\<rparr>, 0)] \<and>
     sh_flight s = Map.empty \<and> map (sh_promises s) [1, 0] = [Some (Some ''y''), Some (Some ''z'')] \<and>
     holds ref_env (sh_proxy s) (sh_storage s ! 0) (demo_values(''a'' := ''z''))"
proof -
  let ?run = "shared_run ref_env (op_ok engine_valid demo_proxy) labels_apart demo_shared"
  have s0: "sh_proxy demo_shared = demo_proxy" by (simp add: demo_shared_def)
  note init = demo_shared_ok [unfolded ref_store.shared_ok_def s0]
  note spec = batches_apart_serialise [where ?s0.0 = demo_shared, OF ref_store.replica_store_axioms,
      unfolded s0, where ?V0.0 = demo_values]
  have serial: "map (sh_promises s) (map snd (real_pairs hist)) =
      map (\<lambda>a. Some (Some a)) (fst (spec_run demo_values (map fst (real_pairs hist)))) \<and>
    holds ref_env (sh_proxy s) (sh_storage s ! 0) (snd (spec_run demo_values (map fst (real_pairs hist)))) \<and>
    (\<forall>c fl. sh_flight s c = Some fl \<longrightarrow> (\<exists>s'. store_step ref_env c fl s = Inr s'))" if "?run hist s" for hist s
    using spec [OF _ _ _ _ _ _ that] init by (simp add: demo_shared_def)
  obtain s f0 f1 where s: "?run batch_empty s" "sh_flight s = [0 \<mapsto> f0, 1 \<mapsto> f1]"
      "fl_batch f0 = single ''a'' ''z'' 0" "fl_batch f1 = single ''b'' [] 1"
    using demo_both_fetched by blast
  have in_flight: "sh_flight s 1 = Some f1" by (simp add: s(2))
  then obtain s1 where s1: "store_step ref_env 1 f1 s = Inr s1" using serial [OF s(1)] by blast
  have run1: "?run (batch_append batch_empty (fl_batch f1)) s1"
    by (rule shared_store [OF s(1) in_flight s1])
  have fl1: "sh_flight s1 = [0 \<mapsto> f0]" using store_step_flight [OF s1] s(2) by auto
  then have last_flight: "sh_flight s1 0 = Some f0" by simp
  then obtain s2 where s2: "store_step ref_env 0 f0 s1 = Inr s2" using serial [OF run1] by blast
  have run2: "?run (batch_append (batch_append batch_empty (fl_batch f1)) (fl_batch f0)) s2"
    by (rule shared_store [OF run1 last_flight s2])
  have fl2: "sh_flight s2 = Map.empty" using store_step_flight [OF s2] fl1 by auto
  have "real_pairs (batch_append (batch_append batch_empty (fl_batch f1)) (fl_batch f0))
      = [(\<lparr>op_key = ''b'', op_value = []\<rparr>, 1), (\<lparr>op_key = ''a'', op_value = ''z''\<rparr>, 0)]"
    by (simp add: real_pairs_append s(3,4))
  with serial [OF run2] run2 fl2 show ?thesis
    by (intro exI [of _ "batch_append (batch_append batch_empty (fl_batch f1)) (fl_batch f0)"] exI [of _ s2])
      (simp add: spec_step_def demo_values_def Let_def)
qed

text \<open>
  C9. Batches of two consumers on one label lose an acknowledged write. From every idle, well
  formed state there is a run in which one consumer fetches a read of a key with one replica,
  another fetches and writes back a write of the key, and then the first writes back what it has
  read: both requests are answered, the write with the new value, and nothing is in flight, but the
  store stands for the old map again.
\<close>

theorem overlapping_batches_lose_write:
  assumes "replica_store E view sound valid"
    and "sound (sh_storage s0)" and "proxy_wf (sh_proxy s0)"
    and "holds E (sh_proxy s0) (view (sh_storage s0)) V"
    and "px_missing_new_replicas (sh_proxy s0) = Map.empty"
    and "\<forall>k. 0 < replicas (sh_proxy s0) k \<longrightarrow> valid (V k)" and "sh_flight s0 = Map.empty"
    and "replicas (sh_proxy s0) k = 1" and "px_update_cache (sh_proxy s0) k = None" and "valid v"
    and "sh_promises s0 a = None" and "sh_promises s0 b = None" and "a \<noteq> b"
  shows "\<exists>hist s. shared_run E (op_ok valid (sh_proxy s0)) (\<lambda>s. True) s0 hist s \<and>
    real_pairs hist = [(\<lparr>op_key = k, op_value = v\<rparr>, a), (\<lparr>op_key = k, op_value = []\<rparr>, b)] \<and>
    sh_flight s = Map.empty \<and> sh_promises s a = Some (Some v) \<and> sh_promises s b = Some (Some (V k)) \<and>
    holds E (sh_proxy s) (view (sh_storage s)) V"
proof -
  have "replica_store.shared_ok E view sound valid s0 V"
    using assms(2-6) by (simp add: replica_store.shared_ok_def [OF assms(1)])
  then show ?thesis
    by (rule replica_store.overlap_lost [OF assms(1) _ assms(7-13)])
qed

theorem overlapping_batches_lose_write_witness:
  "\<exists>hist s. shared_run ref_env (op_ok engine_valid demo_proxy) (\<lambda>s. True) demo_shared hist s \<and>
    real_pairs hist = [(\<lparr>op_key = ''a'', op_value = ''z''\<rparr>, 2), (\<lparr>op_key = ''a'', op_value = []\<rparr>, 3)] \<and>
    sh_flight s = Map.empty \<and> sh_promises s 2 = Some (Some ''z'') \<and> sh_promises s 3 = Some (Some ''x'') \<and>
    holds ref_env (sh_proxy s) (sh_storage s ! 0) demo_values"
proof -
  have s0: "sh_proxy demo_shared = demo_proxy" "sh_storage demo_shared = demo_store"
      "sh_flight demo_shared = Map.empty" "sh_promises demo_shared = [0 \<mapsto> None, 1 \<mapsto> None]"
    by (simp_all add: demo_shared_def)
  have x: "demo_values ''a'' = ''x''" by (simp add: demo_values_def)
  show ?thesis
    by (rule overlapping_batches_lose_write [OF ref_store.replica_store_axioms, of demo_shared demo_values
          "''a''" "''z''" 2 3, unfolded s0 x])
      (simp_all add: demo_one_server demo_wf demo_holds demo_static demo_values_valid demo_replicas demo_valid
        demo_proxy_def [THEN arg_cong, of px_update_cache])
qed

end
