(* ===== verification/Consumer_Threads.thy ===== *)
theory Consumer_Threads
  imports Many_Consumers
begin

text \<open>
  All the consumer threads of a proxy, step by step. Each \<open>consumer_thread\<close> has its own program
  point, queue, batch and counters and shares the proxy, the storage and the promises with the
  others (\<open>th_shared\<close>, theory \<open>Many_Consumers\<close>). A step of a thread is a \<open>consumer_step\<close>, but for
  \<open>execute_batch\<close>, which takes two: between its read and its write the other threads go on.
  \<open>threads_simulated\<close>: every run of the threads is a \<open>shared_run\<close>.
\<close>

section \<open>Threads\<close>

record consumer_local =
  cl_point :: consumer_point
  cl_queue :: op_queue
  cl_batch :: batch
  cl_serviced :: "32 word"
  cl_previous :: "32 word"
  cl_total :: "32 word"

record 'st threads =
  th_shared :: "'st shared"
  th_local :: "nat \<Rightarrow> consumer_local"
  th_finished :: bool

text \<open>What thread \<open>c\<close> works on, and what of it is its own.\<close>

definition as_consumer :: "'st threads \<Rightarrow> nat \<Rightarrow> 'st consumer" where
  "as_consumer t c =
     (let l = th_local t c; sh = th_shared t
      in \<lparr>cs_point = cl_point l, cs_proxy = sh_proxy sh, cs_queue = cl_queue l, cs_batch = cl_batch l,
          cs_serviced = cl_serviced l, cs_previous = cl_previous l, cs_total = cl_total l,
          cs_storage = sh_storage sh, cs_rng = sh_rng sh, cs_promises = sh_promises sh,
          cs_finished = th_finished t\<rparr>)"

definition local_of :: "'st consumer \<Rightarrow> consumer_local" where
  "local_of s =
     \<lparr>cl_point = cs_point s, cl_queue = cs_queue s, cl_batch = cs_batch s, cl_serviced = cs_serviced s,
      cl_previous = cs_previous s, cl_total = cs_total s\<rparr>"

definition thread_step :: "'st env \<Rightarrow> nat \<Rightarrow> 'st threads \<Rightarrow> 'st threads res" where
  "thread_step E c t =
     (case sh_flight (th_shared t) c of
        Some fl \<Rightarrow>
          rbind (store_step E c fl (th_shared t)) (\<lambda>sh.
            Inr (t\<lparr>th_shared := sh,
                  th_local := (th_local t)(c := (th_local t c)\<lparr>cl_point := Outer, cl_batch := batch_empty\<rparr>)\<rparr>))
      | None \<Rightarrow>
          if executes (as_consumer t c) then
            rbind (fetch_step E c (cl_batch (th_local t c)) (th_shared t)) (\<lambda>sh. Inr (t\<lparr>th_shared := sh\<rparr>))
          else
            rbind (consumer_step E (as_consumer t c)) (\<lambda>s.
              Inr (t\<lparr>th_shared := (th_shared t)\<lparr>sh_rng := cs_rng s\<rparr>,
                    th_local := (th_local t)(c := local_of s)\<rparr>)))"

text \<open>A request thread puts a request with a new promise on the queue of thread \<open>c\<close>.\<close>

definition thread_submit :: "nat \<Rightarrow> operation \<Rightarrow> nat \<Rightarrow> 'st threads \<Rightarrow> 'st threads" where
  "thread_submit c oper pid t =
     t\<lparr>th_shared := (th_shared t)\<lparr>sh_promises := (sh_promises (th_shared t))(pid \<mapsto> None)\<rparr>,
       th_local := (th_local t)(c :=
         (th_local t c)\<lparr>cl_queue := queue_push (oper, pid) (cl_queue (th_local t c))\<rparr>)\<rparr>"

definition stored_by :: "'st threads \<Rightarrow> nat \<Rightarrow> batch \<Rightarrow> batch" where
  "stored_by t c b =
     (case sh_flight (th_shared t) c of None \<Rightarrow> b | Some fl \<Rightarrow> batch_append b (fl_batch fl))"

text \<open>
  \<open>subs c\<close> are the requests queued for thread \<open>c\<close>, \<open>hists c\<close> the batches it has written back and
  \<open>hist\<close> those of all threads, in the order of the write backs.
\<close>

inductive threads_run ::
    "'st env \<Rightarrow> (operation \<Rightarrow> bool) \<Rightarrow> ('st threads \<Rightarrow> bool) \<Rightarrow> 'st threads \<Rightarrow>
     (nat \<Rightarrow> (operation \<times> nat) list) \<Rightarrow> (nat \<Rightarrow> batch) \<Rightarrow> batch \<Rightarrow> 'st threads \<Rightarrow> bool"
  for E A D t0 where
  threads_start: "threads_run E A D t0 (\<lambda>c. []) (\<lambda>c. batch_empty) batch_empty t0"
| threads_submit: "threads_run E A D t0 subs hists hist t \<Longrightarrow> A oper \<Longrightarrow>
    sh_promises (th_shared t) pid = None \<Longrightarrow>
    threads_run E A D t0 (subs(c := subs c @ [(oper, pid)])) hists hist (thread_submit c oper pid t)"
| threads_close: "threads_run E A D t0 subs hists hist t \<Longrightarrow>
    threads_run E A D t0 subs hists hist (t\<lparr>th_finished := True\<rparr>)"
| threads_step: "threads_run E A D t0 subs hists hist t \<Longrightarrow> thread_step E c t = Inr t' \<Longrightarrow> D t' \<Longrightarrow>
    threads_run E A D t0 subs (hists(c := stored_by t c (hists c))) (stored_by t c hist) t'"

definition local_new :: consumer_local where
  "local_new =
     \<lparr>cl_point = Outer, cl_queue = queue_new, cl_batch = batch_empty, cl_serviced = 0, cl_previous = 0,
      cl_total = 0\<rparr>"

definition threads_initial :: "'st threads \<Rightarrow> bool" where
  "threads_initial t \<longleftrightarrow> (\<forall>c. th_local t c = local_new) \<and> sh_flight (th_shared t) = Map.empty \<and>
     sh_promises (th_shared t) = Map.empty"

section \<open>Steps that fill a batch\<close>

definition local_wf :: "consumer_local \<Rightarrow> bool" where
  "local_wf l \<longleftrightarrow> batch_wf (cl_batch l) \<and> queue_ok (cl_queue l) \<and>
     (cl_point l = Outer \<or> cl_point l = Done \<longrightarrow> cl_batch l = batch_empty)"

definition waiting :: "consumer_local \<Rightarrow> (operation \<times> nat) list" where
  "waiting l = real_pairs (cl_batch l) @ m_queue (cl_queue l)"

lemma filling_step_cases:
  assumes "consumer_step E s = Inr s'" and "\<not> executes s"
  obtains (control) "cs_queue s' = cs_queue s" "cs_batch s' = cs_batch s \<or> cs_batch s' = batch_empty"
      "cs_proxy s' = cs_proxy s" "cs_batch s' = cs_batch s \<or> cs_point s = Outer"
      "cs_point s' = Outer \<or> cs_point s' = Done \<Longrightarrow> cs_point s = Outer \<or> cs_point s = Done"
    | (slot) i j where "cs_point s = Slots i j"
      "security_step (cs_proxy s) (cs_queue s) (cs_batch s) (cs_rng s) = Inr (cs_queue s', cs_batch s', cs_rng s')"
      "cs_proxy s' = cs_proxy s" "cs_point s' = Slots i (j + 1)"
  using assms
  by (cases "cs_point s")
    (auto simp: consumer_step_def executes_def rbind_Inr_iff split: if_splits)

lemma filling_step:
  assumes "consumer_step E s = Inr s'" and "\<not> executes s" and "local_wf (local_of s)"
  shows "cs_proxy s' = cs_proxy s \<and> local_wf (local_of s') \<and> waiting (local_of s') = waiting (local_of s)"
  using assms(1,2)
proof (cases rule: filling_step_cases)
  case control
  with assms(3) show ?thesis by (auto simp: local_wf_def local_of_def waiting_def)
next
  case slot
  with security_step_pairs [OF slot(2)] assms(3) show ?thesis
    by (simp add: local_wf_def local_of_def waiting_def)
qed

lemma filling_step_ops:
  assumes "consumer_step E s = Inr s'" and "\<not> executes s" and "dists_ok (cs_proxy s)"
    and "\<forall>oper\<in>set (b_ops (cs_batch s)) \<union> fst ` set (m_queue (cs_queue s)). op_ok ok (cs_proxy s) oper"
  shows "\<forall>oper\<in>set (b_ops (cs_batch s')) \<union> fst ` set (m_queue (cs_queue s')). op_ok ok (cs_proxy s) oper"
  using assms(1,2)
proof (cases rule: filling_step_cases)
  case control
  then have "set (b_ops (cs_batch s')) \<subseteq> set (b_ops (cs_batch s))" by (auto simp: batch_empty_def)
  with control(1) assms(4) show ?thesis by (simp add: ball_Un subset_iff)
next
  case slot
  show ?thesis by (rule security_step_ops [OF slot(2) assms(3,4)])
qed

lemma filling_step_total:
  assumes "\<not> executes s" and "dists_ok (cs_proxy s)" and "queue_ok (cs_queue s)"
  shows "\<exists>s'. consumer_step E s = Inr s'"
proof (cases "cs_point s")
  case (Slots i j)
  have "\<forall>g. \<exists>k. sample (px_real_distribution (cs_proxy s)) g = Inr (k, stl g)"
      "\<forall>g. \<exists>k. sample (px_fake_distribution (cs_proxy s)) g = Inr (k, stl g)"
    using dist_ok_sample assms(2) unfolding dists_ok_def by blast+
  from security_step_total [OF assms(3) this, of "cs_batch s" "cs_rng s"]
  obtain q b g where "security_step (cs_proxy s) (cs_queue s) (cs_batch s) (cs_rng s) = Inr (q, b, g)"
    by (metis prod.exhaust)
  with Slots show ?thesis by (simp add: consumer_step_def)
qed (use assms(1) in \<open>auto simp: consumer_step_def executes_def\<close>)

section \<open>The invariant of every run\<close>

definition pids_of :: "(operation \<times> nat) list \<Rightarrow> nat set" where
  "pids_of rs = snd ` set rs"

lemma pids_of_simps [simp]:
  "pids_of [] = {}" "pids_of (rs @ rs') = pids_of rs \<union> pids_of rs'" "pids_of [(oper, pid)] = {pid}"
  by (auto simp: pids_of_def)

lemma pids_of_real_pairs: "batch_wf b \<Longrightarrow> pids_of (real_pairs b) = set (b_promises b)"
  using map_snd_real_pairs [of b] by (metis pids_of_def set_map)

text \<open>
  For each thread: its requests are those it has answered, then those it has in its batch and its
  queue, which are pending; no two requests share a promise; the global order restricted to the
  thread is the thread's own.
\<close>

definition threads_inv ::
    "(nat \<Rightarrow> (operation \<times> nat) list) \<Rightarrow> (nat \<Rightarrow> batch) \<Rightarrow> batch \<Rightarrow> 'st threads \<Rightarrow> bool" where
  "threads_inv subs hists hist t \<longleftrightarrow>
     (\<forall>c. local_wf (th_local t c) \<and> batch_wf (hists c) \<and> distinct (map snd (subs c)) \<and>
        subs c = real_pairs (hists c) @ waiting (th_local t c) \<and>
        (\<forall>pid\<in>pids_of (subs c). sh_promises (th_shared t) pid \<noteq> None) \<and>
        (\<forall>pid\<in>pids_of (waiting (th_local t c)). sh_promises (th_shared t) pid = Some None) \<and>
        filter (\<lambda>r. snd r \<in> pids_of (subs c)) (real_pairs hist) = real_pairs (hists c)) \<and>
     (\<forall>c fl. sh_flight (th_shared t) c = Some fl \<longrightarrow> fl_batch fl = cl_batch (th_local t c)) \<and>
     (\<forall>c c'. c \<noteq> c' \<longrightarrow> pids_of (subs c) \<inter> pids_of (subs c') = {}) \<and>
     batch_wf hist \<and> (\<forall>pid\<in>pids_of (real_pairs hist). sh_promises (th_shared t) pid \<noteq> None)"

lemma threads_invD:
  assumes "threads_inv subs hists hist t"
  shows "local_wf (th_local t c)" and "batch_wf (hists c)" and "distinct (map snd (subs c))"
    and "subs c = real_pairs (hists c) @ waiting (th_local t c)"
    and "\<forall>pid\<in>pids_of (subs c). sh_promises (th_shared t) pid \<noteq> None"
    and "\<forall>pid\<in>pids_of (waiting (th_local t c)). sh_promises (th_shared t) pid = Some None"
    and "filter (\<lambda>r. snd r \<in> pids_of (subs c)) (real_pairs hist) = real_pairs (hists c)"
    and "sh_flight (th_shared t) c = Some fl \<Longrightarrow> fl_batch fl = cl_batch (th_local t c)"
    and "c \<noteq> c' \<Longrightarrow> pids_of (subs c) \<inter> pids_of (subs c') = {}"
    and "batch_wf hist" and "\<forall>pid\<in>pids_of (real_pairs hist). sh_promises (th_shared t) pid \<noteq> None"
  using assms unfolding threads_inv_def by blast+

lemma threads_inv_initial: "threads_initial t \<Longrightarrow> threads_inv (\<lambda>c. []) (\<lambda>c. batch_empty) batch_empty t"
  by (simp add: threads_inv_def threads_initial_def local_new_def local_wf_def waiting_def queue_new_def queue_ok_def)

lemma threads_inv_cong:
  assumes "threads_inv subs hists hist t" and "sh_promises (th_shared t') = sh_promises (th_shared t)"
    and "\<And>c. local_wf (th_local t' c)" and "\<And>c. waiting (th_local t' c) = waiting (th_local t c)"
    and "\<And>c fl. sh_flight (th_shared t') c = Some fl \<Longrightarrow> fl_batch fl = cl_batch (th_local t' c)"
  shows "threads_inv subs hists hist t'"
  using assms(1) unfolding threads_inv_def assms(2,4) using assms(3,5) by blast

lemma threads_inv_close:
  assumes "threads_inv subs hists hist t"
  shows "threads_inv subs hists hist (t\<lparr>th_finished := True\<rparr>)"
  by (rule threads_inv_cong [OF assms]) (use threads_invD(1,8) [OF assms] in simp_all)

text \<open>A new request.\<close>

lemma waiting_push:
  "waiting (l\<lparr>cl_queue := queue_push r (cl_queue l)\<rparr>) = waiting l @ [r]"
  by (simp add: waiting_def)

lemma threads_inv_submit:
  assumes inv: "threads_inv subs hists hist t" and fresh: "sh_promises (th_shared t) pid = None"
  shows "threads_inv (subs(c := subs c @ [(oper, pid)])) hists hist (thread_submit c oper pid t)"
proof -
  note d = threads_invD [OF inv]
  define t' where "t' = thread_submit c oper pid t"
  have new: "pid \<notin> pids_of (subs c')" for c' using d(5) [of c'] fresh by blast
  have other: "pid \<notin> pids_of (real_pairs hist)" using d(11) fresh by blast
  have t': "th_shared t' = (th_shared t)\<lparr>sh_promises := (sh_promises (th_shared t))(pid \<mapsto> None)\<rparr>"
      "th_local t' = (th_local t)(c := (th_local t c)\<lparr>cl_queue := queue_push (oper, pid) (cl_queue (th_local t c))\<rparr>)"
    by (simp_all add: t'_def thread_submit_def)
  have "local_wf (th_local t' c')" for c'
    using d(1) [of c'] d(1) [of c] cppq.ok_enq [of "cl_queue (th_local t c)"]
    by (cases "c' = c") (auto simp: t'(2) local_wf_def)
  moreover have "distinct (map snd ((subs(c := subs c @ [(oper, pid)])) c'))" for c'
    using d(3) [of c'] new [of c] by (auto simp: pids_of_def)
  moreover have "filter (\<lambda>r. snd r \<in> pids_of ((subs(c := subs c @ [(oper, pid)])) c')) (real_pairs hist)
      = real_pairs (hists c')" for c'
  proof -
    have "filter (\<lambda>r. snd r \<in> pids_of ((subs(c := subs c @ [(oper, pid)])) c')) (real_pairs hist)
        = filter (\<lambda>r. snd r \<in> pids_of (subs c')) (real_pairs hist)"
      using other by (intro filter_cong) (auto simp: pids_of_def)
    with d(7) show ?thesis by simp
  qed
  moreover have "(subs(c := subs c @ [(oper, pid)])) c' = real_pairs (hists c') @ waiting (th_local t' c')" for c'
    using d(4) [of c'] by (cases "c' = c") (simp_all add: t'(2) waiting_push)
  moreover have "\<forall>q\<in>pids_of (waiting (th_local t' c')). sh_promises (th_shared t') q = Some None" for c'
    using d(6) [of c'] by (auto simp: t' waiting_push)
  moreover have "\<forall>q\<in>pids_of ((subs(c := subs c @ [(oper, pid)])) c'). sh_promises (th_shared t') q \<noteq> None" for c'
    using d(5) [of c'] by (auto simp: t')
  moreover have "c' \<noteq> c'' \<Longrightarrow> pids_of ((subs(c := subs c @ [(oper, pid)])) c')
      \<inter> pids_of ((subs(c := subs c @ [(oper, pid)])) c'') = {}" for c' c''
    using d(9) [of c' c''] new [of c'] new [of c''] by auto
  moreover have "sh_flight (th_shared t') c' = Some fl \<Longrightarrow> fl_batch fl = cl_batch (th_local t' c')" for c' fl
    using d(8) [of c' fl] by (auto simp: t')
  moreover have "\<forall>q\<in>pids_of (real_pairs hist). sh_promises (th_shared t') q \<noteq> None"
    using d(11) by (auto simp: t')
  ultimately show ?thesis
    unfolding t'_def [symmetric] threads_inv_def using d(2,10) by blast
qed

text \<open>A step that fills a batch.\<close>

lemma threads_inv_fill:
  assumes inv: "threads_inv subs hists hist t" and idle: "sh_flight (th_shared t) c = None"
    and sh: "sh_promises (th_shared t') = sh_promises (th_shared t)" "sh_flight (th_shared t') = sh_flight (th_shared t)"
    and l: "th_local t' = (th_local t)(c := l)" "local_wf l" "waiting l = waiting (th_local t c)"
  shows "threads_inv subs hists hist t'"
  by (rule threads_inv_cong [OF inv sh(1)])
    (use threads_invD(1,8) [OF inv] idle l in \<open>auto simp: sh(2) split: if_splits\<close>)

lemma threads_inv_fetch:
  assumes inv: "threads_inv subs hists hist t" and step: "fetch_step E c (cl_batch (th_local t c)) (th_shared t) = Inr sh"
  shows "threads_inv subs hists hist (t\<lparr>th_shared := sh\<rparr>)"
proof -
  obtain fl where "sh_promises sh = sh_promises (th_shared t)" "sh_flight sh = (sh_flight (th_shared t))(c \<mapsto> fl)"
      "fl_batch fl = cl_batch (th_local t c)"
    using step by (auto simp: fetch_step_def rbind_Inr_iff)
  then show ?thesis
    by (intro threads_inv_cong [OF inv]) (use threads_invD(1,8) [OF inv] in \<open>auto split: if_splits\<close>)
qed

text \<open>The second half of a batch: exactly its promises get a value.\<close>

lemma store_step_promises:
  assumes "store_step E c fl s = Inr s'" and "batch_wf (fl_batch fl)" and "distinct (b_promises (fl_batch fl))"
  shows "(\<forall>pid\<in>set (b_promises (fl_batch fl)). \<exists>v. sh_promises s' pid = Some (Some v)) \<and>
    (\<forall>pid. pid \<notin> set (b_promises (fl_batch fl)) \<longrightarrow> sh_promises s' pid = sh_promises s pid)"
proof -
  define b where "b = fl_batch fl"
  obtain cs p where
    "process_responses E (b_ops b) (fl_rids fl) (fl_responses fl) (b_trues b) (b_promises b) (sh_proxy s)
       (sh_promises s) = Inr (cs, p, sh_promises s')"
    using assms(1) by (auto simp: store_step_def batch_store_def rbind_Inr_iff b_def Let_def)
  from process_responses_promises [OF this] assms(2,3) batch_wf_lengths [of b] show ?thesis
    by (simp add: b_def batch_wf_def)
qed

lemma filter_store:
  assumes "batch_wf hist" and "batch_wf b" and "set (b_promises b) \<subseteq> S"
  shows "filter (\<lambda>r. snd r \<in> S) (real_pairs (batch_append hist b)) = filter (\<lambda>r. snd r \<in> S) (real_pairs hist) @ real_pairs b"
proof -
  have "filter (\<lambda>r. snd r \<in> S) (real_pairs b) = real_pairs b"
    using pids_of_real_pairs [OF assms(2)] assms(3) by (auto simp: filter_id_conv pids_of_def)
  then show ?thesis by (simp add: real_pairs_append [OF assms(1)])
qed

lemma filter_store_other:
  assumes "batch_wf hist" and "batch_wf b" and "set (b_promises b) \<inter> S = {}"
  shows "filter (\<lambda>r. snd r \<in> S) (real_pairs (batch_append hist b)) = filter (\<lambda>r. snd r \<in> S) (real_pairs hist)"
proof -
  have "filter (\<lambda>r. snd r \<in> S) (real_pairs b) = []"
    using pids_of_real_pairs [OF assms(2)] assms(3) by (auto simp: filter_empty_conv pids_of_def)
  then show ?thesis by (simp add: real_pairs_append [OF assms(1)])
qed

lemma threads_inv_store:
  assumes inv: "threads_inv subs hists hist t" and fl: "sh_flight (th_shared t) c = Some fl"
    and step: "store_step E c fl (th_shared t) = Inr sh"
  shows "threads_inv subs (hists(c := batch_append (hists c) (fl_batch fl))) (batch_append hist (fl_batch fl))
    (t\<lparr>th_shared := sh, th_local := (th_local t)(c := (th_local t c)\<lparr>cl_point := Outer, cl_batch := batch_empty\<rparr>)\<rparr>)"
proof -
  note d = threads_invD [OF inv]
  define b where "b = fl_batch fl"
  define l where "l = (th_local t c)\<lparr>cl_point := Outer, cl_batch := batch_empty\<rparr>"
  have b: "b = cl_batch (th_local t c)" using d(8) fl by (simp add: b_def)
  have wf: "batch_wf b" using d(1) [of c] by (simp add: b local_wf_def)
  have subs: "subs c = real_pairs (hists c) @ real_pairs b @ m_queue (cl_queue (th_local t c))"
    using d(4) [of c] by (simp add: waiting_def b)
  have wl: "waiting l = m_queue (cl_queue (th_local t c))" by (simp add: l_def waiting_def)
  have bp: "set (b_promises b) = pids_of (real_pairs b)" using pids_of_real_pairs [OF wf] by simp
  have mine: "set (b_promises b) \<subseteq> pids_of (subs c)" by (auto simp: subs bp)
  have db: "distinct (b_promises b)" using d(3) [of c] map_snd_real_pairs [OF wf] by (simp add: subs)
  have apart: "set (b_promises b) \<inter> pids_of (waiting l) = {}"
    using d(3) [of c] by (simp add: subs bp wl pids_of_def)
  have others: "set (b_promises b) \<inter> pids_of (subs c') = {}" if "c' \<noteq> c" for c'
    using d(9) [OF that] mine by blast
  have pr: "\<forall>pid\<in>set (b_promises b). \<exists>v. sh_promises sh pid = Some (Some v)"
      "\<And>pid. pid \<notin> set (b_promises b) \<Longrightarrow> sh_promises sh pid = sh_promises (th_shared t) pid"
    using store_step_promises [OF step] wf db by (auto simp: b_def)
  have kept: "sh_promises sh pid \<noteq> None" if "sh_promises (th_shared t) pid \<noteq> None" for pid
    using pr that by (cases "pid \<in> set (b_promises b)") auto
  have loc: "local_wf l" using d(1) [of c] by (simp add: l_def local_wf_def)
  have flights: "sh_flight sh = (sh_flight (th_shared t))(c := None)" by (rule store_step_flight [OF step])
  have wait: "sh_promises sh pid = Some None" if w: "pid \<in> pids_of (waiting (((th_local t)(c := l)) c'))" for c' pid
  proof (cases "c' = c")
    case True
    have "\<forall>pid\<in>pids_of (waiting l). sh_promises (th_shared t) pid = Some None"
      unfolding wl using d(6) [of c] by (simp add: waiting_def ball_Un)
    then have "sh_promises (th_shared t) pid = Some None" using w True by simp
    moreover have "pid \<notin> set (b_promises b)" using apart w True by auto
    ultimately show ?thesis by (simp add: pr(2))
  next
    case False
    then have "sh_promises (th_shared t) pid = Some None" using w d(6) [of c'] by simp
    moreover have "pid \<notin> set (b_promises b)" using others [OF False] w False by (auto simp: d(4) [of c'])
    ultimately show ?thesis by (simp add: pr(2))
  qed
  have restricted: "filter (\<lambda>r. snd r \<in> pids_of (subs c')) (real_pairs (batch_append hist b))
      = real_pairs ((hists(c := batch_append (hists c) b)) c')" for c'
    using filter_store [OF d(10) wf mine] filter_store_other [OF d(10) wf others] d(7) [of c']
    by (cases "c' = c") (simp_all add: real_pairs_append [OF d(2)])
  have order: "subs c' = real_pairs ((hists(c := batch_append (hists c) b)) c') @ waiting (((th_local t)(c := l)) c')" for c'
    using d(4) [of c'] by (cases "c' = c") (simp_all add: subs wl real_pairs_append [OF d(2)])
  have hist: "\<forall>pid\<in>pids_of (real_pairs (batch_append hist b)). sh_promises sh pid \<noteq> None"
    using d(11) pr(1) kept by (auto simp: real_pairs_append [OF d(10)] bp [symmetric])
  show ?thesis
    unfolding threads_inv_def b_def [symmetric] l_def [symmetric]
    using d(2,3,5,9) loc wait restricted order hist kept batch_append_wf [OF d(10) wf] batch_append_wf [OF d(2) wf]
      d(1,8) flights
    by (simp split: if_splits)
qed

section \<open>Simulation\<close>

definition threads_ops :: "(operation \<Rightarrow> bool) \<Rightarrow> 'st threads \<Rightarrow> bool" where
  "threads_ops A t \<longleftrightarrow>
     (\<forall>c. \<forall>oper\<in>set (b_ops (cl_batch (th_local t c))) \<union> fst ` set (m_queue (cl_queue (th_local t c))). A oper)"

lemma as_consumer_simps [simp]:
  "cs_proxy (as_consumer t c) = sh_proxy (th_shared t)" "cs_batch (as_consumer t c) = cl_batch (th_local t c)"
  "cs_queue (as_consumer t c) = cl_queue (th_local t c)" "cs_rng (as_consumer t c) = sh_rng (th_shared t)"
  "cs_point (as_consumer t c) = cl_point (th_local t c)" "cs_finished (as_consumer t c) = th_finished t"
  "local_of (as_consumer t c) = th_local t c"
  by (simp_all add: as_consumer_def local_of_def Let_def)

lemma local_of_simps [simp]:
  "cl_batch (local_of s) = cs_batch s" "cl_queue (local_of s) = cs_queue s" "cl_point (local_of s) = cs_point s"
  by (simp_all add: local_of_def)

text \<open>The three kinds of step.\<close>

lemma thread_step_cases:
  assumes "thread_step E c t = Inr t'"
  obtains (store) fl sh where "sh_flight (th_shared t) c = Some fl" "store_step E c fl (th_shared t) = Inr sh"
      "t' = t\<lparr>th_shared := sh, th_local := (th_local t)(c := (th_local t c)\<lparr>cl_point := Outer, cl_batch := batch_empty\<rparr>)\<rparr>"
    | (fetch) sh where "sh_flight (th_shared t) c = None" "executes (as_consumer t c)"
      "fetch_step E c (cl_batch (th_local t c)) (th_shared t) = Inr sh" "t' = t\<lparr>th_shared := sh\<rparr>"
    | (fill) s where "sh_flight (th_shared t) c = None" "\<not> executes (as_consumer t c)"
      "consumer_step E (as_consumer t c) = Inr s"
      "t' = t\<lparr>th_shared := (th_shared t)\<lparr>sh_rng := cs_rng s\<rparr>, th_local := (th_local t)(c := local_of s)\<rparr>"
  using assms by (auto simp: thread_step_def rbind_Inr_iff split: option.splits if_splits)

text \<open>A thread that comes to execute its batch holds pending promises that no other thread holds.\<close>

lemma promises_free_inv:
  assumes inv: "threads_inv subs hists hist t" and idle: "sh_flight (th_shared t) c = None"
  shows "promises_free (cl_batch (th_local t c)) (th_shared t)"
proof -
  note d = threads_invD [OF inv]
  define b where "b = cl_batch (th_local t c)"
  have wf: "batch_wf (cl_batch (th_local t c'))" for c' using d(1) [of c'] by (simp add: local_wf_def)
  have mine: "set (b_promises (cl_batch (th_local t c'))) \<subseteq> pids_of (waiting (th_local t c'))" for c'
    using pids_of_real_pairs [OF wf] by (auto simp: waiting_def)
  have sub: "set (b_promises (cl_batch (th_local t c'))) \<subseteq> pids_of (subs c')" for c'
    using mine [of c'] d(4) [of c'] by auto
  have "distinct (map snd (real_pairs b))" using d(3) [of c] d(4) [of c] by (simp add: waiting_def b_def)
  then have "distinct (b_promises b)" by (simp only: map_snd_real_pairs [OF wf [of c, folded b_def]])
  moreover have "\<forall>pid\<in>set (b_promises b). sh_promises (th_shared t) pid = Some None"
    using mine [of c] d(6) [of c] by (auto simp: b_def)
  moreover have "set (b_promises (fl_batch fl)) \<inter> set (b_promises b) = {}"
    if fl: "sh_flight (th_shared t) c' = Some fl" for c' fl
  proof -
    have "c' \<noteq> c" using fl idle by auto
    from d(9) [OF this] show ?thesis using sub [of c'] sub [of c] d(8) [OF fl] by (auto simp: b_def)
  qed
  ultimately show ?thesis by (simp add: promises_free_def b_def)
qed

context replica_store begin

lemma threads_simulated:
  assumes run: "threads_run E (op_ok valid (sh_proxy (th_shared t0))) (\<lambda>t. labels_apart (th_shared t)) t0 subs hists hist t"
    and init: "threads_initial t0" and ok: "shared_ok (th_shared t0) V0" and dists: "dists_ok (sh_proxy (th_shared t0))"
  shows "shared_run E (op_ok valid (sh_proxy (th_shared t0))) labels_apart (th_shared t0) hist (th_shared t) \<and>
    threads_inv subs hists hist t \<and> threads_ops (op_ok valid (sh_proxy (th_shared t0))) t"
  using run
proof (induction rule: threads_run.induct)
  case threads_start
  have "threads_ops A t0" for A
    using init by (simp add: threads_ops_def threads_initial_def local_new_def batch_empty_def queue_new_def)
  with threads_inv_initial [OF init] show ?case by (blast intro: shared_start)
next
  case (threads_submit subs hists hist t oper pid c)
  then have "threads_ops (op_ok valid (sh_proxy (th_shared t0))) (thread_submit c oper pid t)"
    by (auto simp: threads_ops_def thread_submit_def)
  moreover have "threads_inv (subs(c := subs c @ [(oper, pid)])) hists hist (thread_submit c oper pid t)"
    using threads_submit threads_inv_submit by blast
  moreover have "shared_run E (op_ok valid (sh_proxy (th_shared t0))) labels_apart (th_shared t0) hist
      (th_shared (thread_submit c oper pid t))"
    using shared_request [OF conjunct1 [OF threads_submit.IH] threads_submit.hyps(3)] by (simp add: thread_submit_def)
  ultimately show ?case by blast
next
  case (threads_close subs hists hist t)
  then show ?case using threads_inv_close by (auto simp: threads_ops_def)
next
  case (threads_step subs hists hist t c t')
  let ?A = "op_ok valid (sh_proxy (th_shared t0))"
  have ih: "shared_run E ?A labels_apart (th_shared t0) hist (th_shared t)" "threads_inv subs hists hist t"
      "threads_ops ?A t"
    using threads_step.IH by blast+
  have idle: "sh_flight (th_shared t0) = Map.empty" using init by (simp add: threads_initial_def)
  have tabs: "same_tables (sh_proxy (th_shared t0)) (sh_proxy (th_shared t))"
    using shared_run_inv [OF ih(1) ok idle] by (simp add: shared_inv_def)
  have A: "?A = op_ok valid (sh_proxy (th_shared t))"
    using same_tables_simps(1) [OF tabs] by (simp add: op_ok_def fun_eq_iff)
  from threads_step.hyps(2) show ?case
  proof (cases rule: thread_step_cases)
    case (store fl sh)
    have "threads_ops ?A t'"
      using ih(3) by (auto simp: threads_ops_def store(3) batch_empty_def)
    moreover have "threads_inv subs (hists(c := batch_append (hists c) (fl_batch fl))) (batch_append hist (fl_batch fl)) t'"
      unfolding store(3) by (rule threads_inv_store [OF ih(2) store(1,2)])
    moreover have "shared_run E ?A labels_apart (th_shared t0) (batch_append hist (fl_batch fl)) (th_shared t')"
      using shared_store [OF ih(1) store(1,2)] by (simp add: store(3))
    moreover have st: "stored_by t c = (\<lambda>b. batch_append b (fl_batch fl))" by (simp add: stored_by_def store(1) fun_eq_iff)
    ultimately show ?thesis unfolding st by blast
  next
    case (fetch sh)
    have b: "batch_wf (cl_batch (th_local t c))" using threads_invD(1) [OF ih(2), of c] by (simp add: local_wf_def)
    have ops: "\<forall>oper\<in>set (b_ops (cl_batch (th_local t c))). ?A oper" using ih(3) unfolding threads_ops_def by blast
    have "labels_apart sh" using threads_step.hyps(3) fetch(4) by simp
    from shared_fetch [OF ih(1) fetch(1) b ops promises_free_inv [OF ih(2) fetch(1)] fetch(3) this]
    have "shared_run E ?A labels_apart (th_shared t0) hist (th_shared t')" by (simp add: fetch(4))
    moreover have "threads_inv subs hists hist t'" unfolding fetch(4) by (rule threads_inv_fetch [OF ih(2) fetch(3)])
    moreover have "threads_ops ?A t'" using ih(3) by (simp add: threads_ops_def fetch(4))
    moreover have st: "stored_by t c = (\<lambda>b. b)" by (simp add: stored_by_def fetch(1) fun_eq_iff)
    ultimately show ?thesis unfolding st fun_upd_triv by blast
  next
    case (fill s)
    have wf: "local_wf (local_of (as_consumer t c))" using threads_invD(1) [OF ih(2)] by simp
    have dists': "dists_ok (cs_proxy (as_consumer t c))" using dists dists_ok_same_tables [OF tabs] by simp
    note f = filling_step [OF fill(3,2) wf]
    have ops: "\<forall>oper\<in>set (b_ops (cs_batch s)) \<union> fst ` set (m_queue (cs_queue s)). ?A oper"
      using filling_step_ops [OF fill(3,2) dists', of valid] ih(3) unfolding A by (simp add: threads_ops_def)
    have "threads_ops ?A t'" using ih(3) ops by (simp add: threads_ops_def fill(4))
    moreover have "threads_inv subs hists hist t'"
      by (rule threads_inv_fill [OF ih(2) fill(1), where l = "local_of s"]) (use f in \<open>simp_all add: fill(4)\<close>)
    moreover have "shared_run E ?A labels_apart (th_shared t0) hist (th_shared t')"
      using shared_draw [OF ih(1)] by (simp add: fill(4))
    moreover have st: "stored_by t c = (\<lambda>b. b)" by (simp add: stored_by_def fill(1) fun_eq_iff)
    ultimately show ?thesis unfolding st fun_upd_triv by blast
  qed
qed

text \<open>No step of a thread raises.\<close>

lemma thread_step_returns:
  assumes run: "threads_run E (op_ok valid (sh_proxy (th_shared t0))) (\<lambda>t. labels_apart (th_shared t)) t0 subs hists hist t"
    and init: "threads_initial t0" and ok: "shared_ok (th_shared t0) V0" and dists: "dists_ok (sh_proxy (th_shared t0))"
  shows "\<exists>t'. thread_step E c t = Inr t'"
proof -
  note sim = threads_simulated [OF assms]
  have idle: "sh_flight (th_shared t0) = Map.empty" using init by (simp add: threads_initial_def)
  have shared: "shared_run E (op_ok valid (sh_proxy (th_shared t0))) labels_apart (th_shared t0) hist (th_shared t)"
    using sim by blast
  note inv = shared_run_inv [OF this ok idle, unfolded shared_inv_def]
  have tabs: "same_tables (sh_proxy (th_shared t0)) (sh_proxy (th_shared t))" using inv by blast
  have A: "op_ok valid (sh_proxy (th_shared t0)) = op_ok valid (sh_proxy (th_shared t))"
    using same_tables_simps(1) [OF tabs] by (simp add: op_ok_def fun_eq_iff)
  have wf: "local_wf (th_local t c)" using sim threads_invD(1) by blast
  show ?thesis
  proof (cases "sh_flight (th_shared t) c")
    case (Some fl)
    then obtain sh where "store_step E c fl (th_shared t) = Inr sh"
      using shared_run_serialises [OF shared ok idle] by blast
    with Some show ?thesis by (simp add: thread_step_def)
  next
    case None
    show ?thesis
    proof (cases "executes (as_consumer t c)")
      case True
      have "\<forall>oper\<in>set (b_ops (cl_batch (th_local t c))). op_ok valid (sh_proxy (th_shared t)) oper"
        using conjunct2 [OF conjunct2 [OF sim]] unfolding threads_ops_def A by blast
      then obtain sh where "fetch_step E c (cl_batch (th_local t c)) (th_shared t) = Inr sh"
        using fetch_step_spec [of "th_shared t" _ "cl_batch (th_local t c)" c] inv wf unfolding local_wf_def by blast
      with None True show ?thesis by (simp add: thread_step_def)
    next
      case False
      have "dists_ok (cs_proxy (as_consumer t c))" using dists dists_ok_same_tables [OF tabs] by simp
      then obtain s where "consumer_step E (as_consumer t c) = Inr s"
        using filling_step_total [OF False] wf by (auto simp: local_wf_def)
      with None False show ?thesis by (simp add: thread_step_def)
    qed
  qed
qed

end

end
