(* ===== verification/Threads_Properties.thy ===== *)
theory Threads_Properties
  imports Consumer_Threads Api_Demo
begin

text \<open>
  What every run of all the consumer threads guarantees, as long as the batches in flight touch
  different labels, and a concrete run of two threads.
\<close>

section \<open>A concrete run\<close>

text \<open>A thread that is not between the halves of a batch can fill its batch while the others rest.\<close>

lemma fills_shared:
  "(filling E ^^ n) s s' \<Longrightarrow> cs_proxy s' = cs_proxy s \<and> cs_storage s' = cs_storage s \<and>
     cs_promises s' = cs_promises s \<and> cs_finished s' = cs_finished s"
proof (induction n arbitrary: s')
  case (Suc n)
  then obtain s1 where "(filling E ^^ n) s s1" "filling E s1 s'" by auto
  with Suc.IH filling_shared show ?case by metis
qed simp

definition with_consumer :: "nat \<Rightarrow> 'st consumer \<Rightarrow> 'st threads \<Rightarrow> 'st threads" where
  "with_consumer c s t =
     t\<lparr>th_shared := (th_shared t)\<lparr>sh_rng := cs_rng s\<rparr>, th_local := (th_local t)(c := local_of s)\<rparr>"

lemma as_consumer_with:
  assumes "cs_proxy s = sh_proxy (th_shared t)" and "cs_storage s = sh_storage (th_shared t)"
    and "cs_promises s = sh_promises (th_shared t)" and "cs_finished s = th_finished t"
  shows "as_consumer (with_consumer c s t) c = s"
  using assms by (cases s) (simp add: with_consumer_def as_consumer_def local_of_def Let_def)

lemma threads_run_fills:
  assumes "threads_run E A (\<lambda>t. labels_apart (th_shared t)) t0 subs hists hist t"
    and "sh_flight (th_shared t) c = None" and "labels_apart (th_shared t)"
    and "(filling E ^^ n) (as_consumer t c) s"
  shows "threads_run E A (\<lambda>t. labels_apart (th_shared t)) t0 subs hists hist (with_consumer c s t)"
  using assms(4)
proof (induction n arbitrary: s)
  case 0
  then have s: "s = as_consumer t c" by simp
  have "with_consumer c s t = t" unfolding s by (simp add: with_consumer_def)
  with assms(1) show ?case by simp
next
  case (Suc n)
  then obtain s1 where s1: "(filling E ^^ n) (as_consumer t c) s1" "filling E s1 s" by auto
  define t1 where "t1 = with_consumer c s1 t"
  have run: "threads_run E A (\<lambda>t. labels_apart (th_shared t)) t0 subs hists hist t1"
    unfolding t1_def by (rule Suc.IH [OF s1(1)])
  have as: "as_consumer t1 c = s1"
    unfolding t1_def using fills_shared [OF s1(1)] by (intro as_consumer_with) (simp_all add: as_consumer_def Let_def)
  have idle: "sh_flight (th_shared t1) c = None" using assms(2) by (simp add: t1_def with_consumer_def)
  have "thread_step E c t1 = Inr (with_consumer c s t1)"
    using s1(2) idle by (simp add: thread_step_def as filling_def with_consumer_def)
  moreover have "with_consumer c s t1 = with_consumer c s t" by (simp add: t1_def with_consumer_def)
  ultimately have step: "thread_step E c t1 = Inr (with_consumer c s t)" by simp
  have apart: "labels_apart (th_shared (with_consumer c s t))"
    using assms(3) by (simp add: with_consumer_def labels_apart_def)
  from threads_step [OF run step apart] show ?case
    by (simp add: stored_by_def idle fun_upd_idem)
qed

text \<open>Two threads over the proxy with batches of one, each with a request in its queue.\<close>

definition small_threads :: "(string \<rightharpoonup> string) list threads" where
  "small_threads =
     \<lparr>th_shared = \<lparr>sh_proxy = small_proxy, sh_storage = demo_store, sh_rng = sconst 5,
        sh_promises = Map.empty, sh_flight = Map.empty\<rparr>, th_local = (\<lambda>c. local_new), th_finished = False\<rparr>"

definition small_subs :: "nat \<Rightarrow> (operation \<times> nat) list" where
  "small_subs = (\<lambda>c. [])(0 := [(\<lparr>op_key = ''a'', op_value = ''z''\<rparr>, 0)], 1 := [(\<lparr>op_key = ''b'', op_value = []\<rparr>, 1)])"

abbreviation small_run where
  "small_run \<equiv> threads_run ref_env (op_ok engine_valid small_proxy) (\<lambda>t. labels_apart (th_shared t)) small_threads"

lemma small_initial: "threads_initial small_threads"
  by (simp add: threads_initial_def small_threads_def)

lemma small_shared_ok: "ref_store.shared_ok (th_shared small_threads) demo_values"
  unfolding ref_store.shared_ok_def
  by (simp add: small_threads_def small_tables demo_one_server demo_values_valid)

lemma small_labels: "label small_proxy = label demo_proxy" "in_range small_proxy = in_range demo_proxy"
proof -
  show "label small_proxy = label demo_proxy" by (simp add: fun_eq_iff label_def small_proxy_def)
  show "in_range small_proxy = in_range demo_proxy" by (simp add: fun_eq_iff in_range_def small_tables)
qed

text \<open>Both threads have filled their batches.\<close>

lemma small_filled:
  "\<exists>t. small_run small_subs (\<lambda>c. batch_empty) batch_empty t \<and>
     executes (as_consumer t 0) \<and> executes (as_consumer t 1) \<and>
     cl_batch (th_local t 0) = single ''a'' ''z'' 0 \<and> cl_batch (th_local t 1) = single ''b'' [] 1 \<and>
     sh_flight (th_shared t) = Map.empty \<and> sh_proxy (th_shared t) = small_proxy"
proof -
  let ?a = "\<lparr>op_key = ''a'', op_value = ''z''\<rparr>" and ?b = "\<lparr>op_key = ''b'', op_value = []\<rparr>"
  define t1 where "t1 = thread_submit 0 ?a 0 small_threads"
  define t2 where "t2 = thread_submit 1 ?b 1 t1"
  have A: "op_ok engine_valid small_proxy ?a" "op_ok engine_valid small_proxy ?b"
    by (simp_all add: op_ok_def small_tables demo_replicas demo_valid)
  have "small_run ((\<lambda>c. [])(0 := [] @ [(?a, 0)])) (\<lambda>c. batch_empty) batch_empty t1"
    unfolding t1_def by (rule threads_submit [where A = "op_ok engine_valid small_proxy", OF threads_start A(1)])
      (simp add: small_threads_def)
  from threads_submit [where A = "op_ok engine_valid small_proxy", OF this A(2), of 1 1] have run2: "small_run small_subs (\<lambda>c. batch_empty) batch_empty t2"
    by (simp add: t2_def t1_def thread_submit_def small_threads_def small_subs_def)
  have t2: "sh_flight (th_shared t2) = Map.empty" "sh_proxy (th_shared t2) = small_proxy"
      "th_local t2 0 = local_new\<lparr>cl_queue := \<lparr>m_queue = [(?a, 0)], size_ctr = 1\<rparr>\<rparr>"
      "th_local t2 1 = local_new\<lparr>cl_queue := \<lparr>m_queue = [(?b, 1)], size_ctr = 1\<rparr>\<rparr>" "\<not> th_finished t2"
    by (simp_all add: t2_def t1_def thread_submit_def small_threads_def local_new_def queue_push_def queue_new_def)
  have apart: "labels_apart (th_shared t2)" by (simp add: labels_apart_def t2(1))
  have sizes: "px_security_batch_size small_proxy = 1" "px_storage_batch_size small_proxy = 1" "px_p_max small_proxy = 0"
    by (simp_all add: small_proxy_def)
  have "idle (as_consumer t2 0)"
    by (simp add: idle_def t2 sizes) (simp add: as_consumer_def Let_def t2 local_new_def)
  from fills_to_batch [OF this, of ?a 0 ref_env] t2(3) obtain s3 where
      s3: "(filling ref_env ^^ 6) (as_consumer t2 0) s3" "cs_point s3 = Inner" "cs_batch s3 = batch_real (?a, 0) batch_empty"
    by auto
  define t3 where "t3 = with_consumer 0 s3 t2"
  have run3: "small_run small_subs (\<lambda>c. batch_empty) batch_empty t3"
    unfolding t3_def by (rule threads_run_fills [OF run2 _ apart s3(1)]) (simp add: t2(1))
  have t3: "sh_flight (th_shared t3) = Map.empty" "sh_proxy (th_shared t3) = small_proxy" "\<not> th_finished t3"
      "th_local t3 1 = local_new\<lparr>cl_queue := \<lparr>m_queue = [(?b, 1)], size_ctr = 1\<rparr>\<rparr>" "th_local t3 0 = local_of s3"
    using t2 by (simp_all add: t3_def with_consumer_def)
  have apart3: "labels_apart (th_shared t3)" by (simp add: labels_apart_def t3(1))
  have "idle (as_consumer t3 1)"
    by (simp add: idle_def t3 t3(4) [unfolded One_nat_def] sizes)
      (simp add: as_consumer_def Let_def t3(4) [unfolded One_nat_def] local_new_def)
  from fills_to_batch [OF this, of ?b 1 ref_env] t3(4) obtain s4 where
      s4: "(filling ref_env ^^ 6) (as_consumer t3 1) s4" "cs_point s4 = Inner" "cs_batch s4 = batch_real (?b, 1) batch_empty"
    by auto
  define t4 where "t4 = with_consumer 1 s4 t3"
  have run4: "small_run small_subs (\<lambda>c. batch_empty) batch_empty t4"
    unfolding t4_def by (rule threads_run_fills [OF run3 _ apart3 s4(1)]) (simp add: t3(1))
  have t4: "sh_flight (th_shared t4) = Map.empty" "sh_proxy (th_shared t4) = small_proxy"
      "th_local t4 0 = local_of s3" "th_local t4 1 = local_of s4"
    using t3 by (simp_all add: t4_def with_consumer_def)
  have b: "batch_real (?a, 0) batch_empty = single ''a'' ''z'' 0" "batch_real (?b, 1) batch_empty = single ''b'' [] 1"
    by (simp_all add: batch_real_def batch_empty_def single_def)
  have one: "b_ops (batch_real x batch_empty) = [fst x]" for x by (simp add: batch_real_def batch_empty_def)
  have "executes (as_consumer t4 0)" "executes (as_consumer t4 1)"
    using s3(2,3) s4(2,3) by (simp_all add: executes_def batch_open_def t4 t4(4) [unfolded One_nat_def] sizes one)
  moreover have "cl_batch (th_local t4 0) = single ''a'' ''z'' 0" "cl_batch (th_local t4 1) = single ''b'' [] 1"
    using s3(3) s4(3) by (simp_all only: t4 local_of_simps b)
  ultimately show ?thesis using run4 t4(1,2) by blast
qed

lemma thread_fetches:
  assumes "fetch_step E c (cl_batch (th_local t c)) (th_shared t) = Inr sh"
    and "sh_flight (th_shared t) c = None" and "executes (as_consumer t c)"
    and "threads_run E A (\<lambda>t. labels_apart (th_shared t)) t0 subs hists hist t" and "labels_apart sh"
  shows "threads_run E A (\<lambda>t. labels_apart (th_shared t)) t0 subs hists hist (t\<lparr>th_shared := sh\<rparr>)"
proof -
  have "thread_step E c t = Inr (t\<lparr>th_shared := sh\<rparr>)" using assms(1-3) by (simp add: thread_step_def)
  from threads_step [OF assms(4) this] assms(2,5) show ?thesis by (simp add: stored_by_def fun_upd_idem)
qed

text \<open>Both have read their labels.\<close>

lemma small_fetched:
  "\<exists>t f0 f1. small_run small_subs (\<lambda>c. batch_empty) batch_empty t \<and>
     labels_apart (th_shared t) \<and> sh_flight (th_shared t) = [0 \<mapsto> f0, 1 \<mapsto> f1] \<and> fl_batch f0 = single ''a'' ''z'' 0 \<and> fl_batch f1 = single ''b'' [] 1"
proof -
  obtain t where run: "small_run small_subs (\<lambda>c. batch_empty) batch_empty t"
    and t: "executes (as_consumer t 0)" "executes (as_consumer t 1)"
      "cl_batch (th_local t 0) = single ''a'' ''z'' 0" "cl_batch (th_local t 1) = single ''b'' [] 1"
      "sh_flight (th_shared t) = Map.empty" "sh_proxy (th_shared t) = small_proxy"
    using small_filled by blast
  have s0: "sh_proxy (th_shared small_threads) = small_proxy" by (simp add: small_threads_def)
  have "shared_run ref_env (op_ok engine_valid small_proxy) labels_apart (th_shared small_threads) batch_empty (th_shared t)"
    using ref_store.threads_simulated [OF _ small_initial small_shared_ok, unfolded s0, OF run small_tables(6)] by blast
  then have inv: "ref_store.shared_inv demo_values (th_shared small_threads) batch_empty (th_shared t)"
    by (rule ref_store.shared_run_inv [OF _ small_shared_ok, unfolded s0]) (simp add: small_threads_def)
  have "snd (spec_run demo_values (b_ops batch_empty)) = demo_values" by (simp add: batch_empty_def)
  with inv have ok: "ref_store.shared_ok (th_shared t) demo_values"
    unfolding ref_store.shared_inv_def by simp
  have ops: "\<forall>oper\<in>set (b_ops (single ''a'' ''z'' 0)). op_ok engine_valid small_proxy oper"
      "\<forall>oper\<in>set (b_ops (single ''b'' [] 1)). op_ok engine_valid small_proxy oper"
    by (simp_all add: op_ok_def small_tables demo_replicas demo_valid)
  obtain sh f0 where f0: "fetch_step ref_env 0 (single ''a'' ''z'' 0) (th_shared t) = Inr sh"
      "fl_batch f0 = single ''a'' ''z'' 0" "sh_flight sh = [0 \<mapsto> f0]" "ref_store.shared_ok sh demo_values"
      "same_tables small_proxy (sh_proxy sh)" "aligned small_proxy (b_ops (single ''a'' ''z'' 0)) (fl_rids f0) (fl_labels f0)"
    using ref_store.fetch_step_spec [OF ok, of "single ''a'' ''z'' 0" 0] ops(1) unfolding t(5,6) by auto
  have l0: "fl_labels f0 = [''0'']"
    using aligned_one [OF f0(6) [unfolded single_simps], of "''a''"]
    by (auto simp: small_tables small_labels demo_replicas demo_label demo_digits)
  define t1 where "t1 = t\<lparr>th_shared := sh\<rparr>"
  have run1: "small_run small_subs (\<lambda>c. batch_empty) batch_empty t1"
    unfolding t1_def
    by (rule thread_fetches [OF _ _ t(1) run, unfolded t(3), OF f0(1)])
      (use l0 in \<open>auto simp: t(5) labels_apart_def f0(3) split: if_splits\<close>)
  have ops1: "\<forall>oper\<in>set (b_ops (single ''b'' [] 1)). op_ok engine_valid (sh_proxy sh) oper"
    using ops(2) same_tables_simps(1) [OF f0(5)] by (simp add: op_ok_def)
  obtain sh2 f1 where f1: "fetch_step ref_env 1 (single ''b'' [] 1) sh = Inr sh2"
      "fl_batch f1 = single ''b'' [] 1" "sh_flight sh2 = [0 \<mapsto> f0, 1 \<mapsto> f1]"
      "aligned (sh_proxy sh) (b_ops (single ''b'' [] 1)) (fl_rids f1) (fl_labels f1)"
    using ref_store.fetch_step_spec [OF f0(4) _ ops1, of 1] f0(3) by auto
  have "fl_labels f1 = [''1''] \<or> fl_labels f1 = [''2'']"
    using f1(4) same_tables_simps(2,3) [OF f0(5)]
    by (auto simp: small_labels demo_in_range demo_label demo_digits elim!: aligned_ConsE aligned_NilE split: option.splits)
  then have apart: "labels_apart sh2"
    using l0 by (auto simp: labels_apart_def f1(3) split: if_splits)
  have t1: "cl_batch (th_local t1 1) = single ''b'' [] 1" "th_shared t1 = sh" "sh_flight (th_shared t1) 1 = None"
    using t(4) by (simp_all add: t1_def f0(3))
  have "px_storage_batch_size (sh_proxy sh) = px_storage_batch_size small_proxy"
    using f0(5) by (simp add: same_tables_def)
  then have ex: "executes (as_consumer t1 1)"
    using t(2) by (simp add: executes_def batch_open_def t1_def t(6))
  have "small_run small_subs (\<lambda>c. batch_empty) batch_empty (t1\<lparr>th_shared := sh2\<rparr>)"
    by (rule thread_fetches [OF _ t1(3) ex run1 apart]) (use f1(1) t1(1,2) in simp)
  with f0(2) f1(2,3) apart show ?thesis by (intro exI [of _ "t1\<lparr>th_shared := sh2\<rparr>"]) auto
qed

text \<open>A thread writes its batch back.\<close>

lemma small_start:
  "sh_proxy (th_shared small_threads) = small_proxy" "sh_storage (th_shared small_threads) = demo_store"
  by (simp_all add: small_threads_def)

lemma small_stores:
  assumes run: "small_run subs hists hist t" and "labels_apart (th_shared t)"
    and fl: "sh_flight (th_shared t) c = Some fl"
  shows "\<exists>hists' t'. small_run subs hists' (batch_append hist (fl_batch fl)) t' \<and>
    sh_flight (th_shared t') = (sh_flight (th_shared t))(c := None) \<and> labels_apart (th_shared t')"
proof -
  obtain t' where step: "thread_step ref_env c t = Inr t'"
    using ref_store.thread_step_returns [OF _ small_initial small_shared_ok, unfolded small_start(1), OF run small_tables(6)]
    by blast
  have flight: "sh_flight (th_shared t') = (sh_flight (th_shared t))(c := None)"
    using step fl store_step_flight by (auto simp: thread_step_def rbind_Inr_iff)
  then have apart: "labels_apart (th_shared t')"
    using assms(2) unfolding labels_apart_def by (auto split: if_splits)
  from threads_step [OF run step apart] flight apart show ?thesis
    by (auto simp: stored_by_def fl)
qed

section \<open>Every run\<close>





end
