(* ===== verification/Earlier_Response.thy ===== *)
theory Earlier_Response
  imports Multiface
begin

text \<open>
  \<^verbatim>\<open>service/src/thrift_response.h\<close> and \<^verbatim>\<open>.cpp\<close>: the response service as it was generated from an
  earlier interface, with the four methods \<open>async_get\<close>, \<open>async_put\<close>, \<open>async_get_batch\<close> and
  \<open>async_put_batch\<close> in place of \<open>async_response\<close>. Its classes have the names of those of
  \<^verbatim>\<open>thrift_response_service\<close>, and it includes a header that the repository no longer has: it is
  not part of the program that is built. The structs and methods are modelled like the others;
  \<open>seq_struct_takes\<close> and \<open>oneway_dispatched\<close> carry the proofs.
\<close>

section \<open>Structs\<close>

subsection \<open>\<^verbatim>\<open>async_get\<close>\<close>

record response_async_get_args =
  rag_seq_id :: sequence_id
  rag_result :: string
  rag_isset_seq_id :: bool
  rag_isset_result :: bool

definition response_async_get_args_new :: response_async_get_args where
  "response_async_get_args_new =
     \<lparr>rag_seq_id = sequence_id_new, rag_result = [],
      rag_isset_seq_id = False, rag_isset_result = False\<rparr>"

definition response_async_get_args_eq :: "response_async_get_args \<Rightarrow> response_async_get_args \<Rightarrow> bool" where
  "response_async_get_args_eq a rhs =
     (if \<not> sequence_id_eq (rag_seq_id a) (rag_seq_id rhs) then False
      else if \<not> (rag_result a = rag_result rhs) then False
      else True)"

definition response_async_get_args_neq :: "response_async_get_args \<Rightarrow> response_async_get_args \<Rightarrow> bool" where
  "response_async_get_args_neq a rhs = (\<not> response_async_get_args_eq a rhs)"

definition response_async_get_args_field ::
    "'w tproto \<Rightarrow> 16 word \<Rightarrow> ttype \<Rightarrow> response_async_get_args \<Rightarrow> ('w, response_async_get_args \<times> 32 word) io" where
  "response_async_get_args_field P fid ftype x =
     (if fid = 1 then
        read_if P ftype T_STRUCT (sequence_id_read P (rag_seq_id x)) (\<lambda>v. x\<lparr>rag_seq_id := v, rag_isset_seq_id := True\<rparr>) x
      else if fid = 2 then
        read_if P ftype T_STRING (readString P) (\<lambda>v. x\<lparr>rag_result := v, rag_isset_result := True\<rparr>) x
      else skip_field P ftype x)"

definition response_async_get_args_read ::
    "'w tproto \<Rightarrow> response_async_get_args \<Rightarrow> ('w, response_async_get_args \<times> 32 word) io" where
  "response_async_get_args_read P this = read_struct P (response_async_get_args_field P) this"

definition response_async_get_args_write :: "'w tproto \<Rightarrow> response_async_get_args \<Rightarrow> ('w, 32 word) io" where
  "response_async_get_args_write P this =
     write_struct P ''pancake_thrift_response_async_get_args''
       [write_field P ''seq_id'' T_STRUCT 1 (sequence_id_write P (rag_seq_id this)),
        write_field P ''result'' T_STRING 2 (writeString P (rag_result this))]"

definition response_async_get_pargs_write :: "'w tproto \<Rightarrow> sequence_id \<Rightarrow> string \<Rightarrow> ('w, 32 word) io" where
  "response_async_get_pargs_write P seq_id result =
     write_struct P ''pancake_thrift_response_async_get_pargs''
       [write_field P ''seq_id'' T_STRUCT 1 (sequence_id_write P seq_id),
        write_field P ''result'' T_STRING 2 (writeString P result)]"

subsection \<open>\<^verbatim>\<open>async_put\<close>\<close>

record response_async_put_args =
  rap_seq_id :: sequence_id
  rap_key :: string
  rap_value :: string
  rap_isset_seq_id :: bool
  rap_isset_key :: bool
  rap_isset_value :: bool

definition response_async_put_args_new :: response_async_put_args where
  "response_async_put_args_new =
     \<lparr>rap_seq_id = sequence_id_new, rap_key = [], rap_value = [],
      rap_isset_seq_id = False, rap_isset_key = False, rap_isset_value = False\<rparr>"

definition response_async_put_args_eq :: "response_async_put_args \<Rightarrow> response_async_put_args \<Rightarrow> bool" where
  "response_async_put_args_eq a rhs =
     (if \<not> sequence_id_eq (rap_seq_id a) (rap_seq_id rhs) then False
      else if \<not> (rap_key a = rap_key rhs) then False
      else if \<not> (rap_value a = rap_value rhs) then False
      else True)"

definition response_async_put_args_neq :: "response_async_put_args \<Rightarrow> response_async_put_args \<Rightarrow> bool" where
  "response_async_put_args_neq a rhs = (\<not> response_async_put_args_eq a rhs)"

definition response_async_put_args_field ::
    "'w tproto \<Rightarrow> 16 word \<Rightarrow> ttype \<Rightarrow> response_async_put_args \<Rightarrow> ('w, response_async_put_args \<times> 32 word) io" where
  "response_async_put_args_field P fid ftype x =
     (if fid = 1 then
        read_if P ftype T_STRUCT (sequence_id_read P (rap_seq_id x)) (\<lambda>v. x\<lparr>rap_seq_id := v, rap_isset_seq_id := True\<rparr>) x
      else if fid = 2 then
        read_if P ftype T_STRING (readString P) (\<lambda>v. x\<lparr>rap_key := v, rap_isset_key := True\<rparr>) x
      else if fid = 3 then
        read_if P ftype T_STRING (readString P) (\<lambda>v. x\<lparr>rap_value := v, rap_isset_value := True\<rparr>) x
      else skip_field P ftype x)"

definition response_async_put_args_read ::
    "'w tproto \<Rightarrow> response_async_put_args \<Rightarrow> ('w, response_async_put_args \<times> 32 word) io" where
  "response_async_put_args_read P this = read_struct P (response_async_put_args_field P) this"

definition response_async_put_args_write :: "'w tproto \<Rightarrow> response_async_put_args \<Rightarrow> ('w, 32 word) io" where
  "response_async_put_args_write P this =
     write_struct P ''pancake_thrift_response_async_put_args''
       [write_field P ''seq_id'' T_STRUCT 1 (sequence_id_write P (rap_seq_id this)),
        write_field P ''key'' T_STRING 2 (writeString P (rap_key this)),
        write_field P ''value'' T_STRING 3 (writeString P (rap_value this))]"

definition response_async_put_pargs_write :: "'w tproto \<Rightarrow> sequence_id \<Rightarrow> string \<Rightarrow> string \<Rightarrow> ('w, 32 word) io" where
  "response_async_put_pargs_write P seq_id key value =
     write_struct P ''pancake_thrift_response_async_put_pargs''
       [write_field P ''seq_id'' T_STRUCT 1 (sequence_id_write P seq_id),
        write_field P ''key'' T_STRING 2 (writeString P key),
        write_field P ''value'' T_STRING 3 (writeString P value)]"

subsection \<open>\<^verbatim>\<open>async_get_batch\<close>\<close>

record response_async_get_batch_args =
  ragb_seq_id :: sequence_id
  ragb_keys :: "string list"
  ragb_isset_seq_id :: bool
  ragb_isset_keys :: bool

definition response_async_get_batch_args_new :: response_async_get_batch_args where
  "response_async_get_batch_args_new =
     \<lparr>ragb_seq_id = sequence_id_new, ragb_keys = [],
      ragb_isset_seq_id = False, ragb_isset_keys = False\<rparr>"

definition response_async_get_batch_args_eq :: "response_async_get_batch_args \<Rightarrow> response_async_get_batch_args \<Rightarrow> bool" where
  "response_async_get_batch_args_eq a rhs =
     (if \<not> sequence_id_eq (ragb_seq_id a) (ragb_seq_id rhs) then False
      else if \<not> (ragb_keys a = ragb_keys rhs) then False
      else True)"

definition response_async_get_batch_args_neq :: "response_async_get_batch_args \<Rightarrow> response_async_get_batch_args \<Rightarrow> bool" where
  "response_async_get_batch_args_neq a rhs = (\<not> response_async_get_batch_args_eq a rhs)"

definition response_async_get_batch_args_field ::
    "'w tproto \<Rightarrow> 16 word \<Rightarrow> ttype \<Rightarrow> response_async_get_batch_args \<Rightarrow> ('w, response_async_get_batch_args \<times> 32 word) io" where
  "response_async_get_batch_args_field P fid ftype x =
     (if fid = 1 then
        read_if P ftype T_STRUCT (sequence_id_read P (ragb_seq_id x)) (\<lambda>v. x\<lparr>ragb_seq_id := v, ragb_isset_seq_id := True\<rparr>) x
      else if fid = 2 then
        read_if P ftype T_LIST (read_string_list P) (\<lambda>v. x\<lparr>ragb_keys := v, ragb_isset_keys := True\<rparr>) x
      else skip_field P ftype x)"

definition response_async_get_batch_args_read ::
    "'w tproto \<Rightarrow> response_async_get_batch_args \<Rightarrow> ('w, response_async_get_batch_args \<times> 32 word) io" where
  "response_async_get_batch_args_read P this = read_struct P (response_async_get_batch_args_field P) this"

definition response_async_get_batch_args_write :: "'w tproto \<Rightarrow> response_async_get_batch_args \<Rightarrow> ('w, 32 word) io" where
  "response_async_get_batch_args_write P this =
     write_struct P ''pancake_thrift_response_async_get_batch_args''
       [write_field P ''seq_id'' T_STRUCT 1 (sequence_id_write P (ragb_seq_id this)),
        write_field P ''keys'' T_LIST 2 (write_string_list P (ragb_keys this))]"

definition response_async_get_batch_pargs_write :: "'w tproto \<Rightarrow> sequence_id \<Rightarrow> string list \<Rightarrow> ('w, 32 word) io" where
  "response_async_get_batch_pargs_write P seq_id keys =
     write_struct P ''pancake_thrift_response_async_get_batch_pargs''
       [write_field P ''seq_id'' T_STRUCT 1 (sequence_id_write P seq_id),
        write_field P ''keys'' T_LIST 2 (write_string_list P keys)]"

subsection \<open>\<^verbatim>\<open>async_put_batch\<close>\<close>

record response_async_put_batch_args =
  rapb_seq_id :: sequence_id
  rapb_keys :: "string list"
  rapb_values :: "string list"
  rapb_isset_seq_id :: bool
  rapb_isset_keys :: bool
  rapb_isset_values :: bool

definition response_async_put_batch_args_new :: response_async_put_batch_args where
  "response_async_put_batch_args_new =
     \<lparr>rapb_seq_id = sequence_id_new, rapb_keys = [], rapb_values = [],
      rapb_isset_seq_id = False, rapb_isset_keys = False, rapb_isset_values = False\<rparr>"

definition response_async_put_batch_args_eq :: "response_async_put_batch_args \<Rightarrow> response_async_put_batch_args \<Rightarrow> bool" where
  "response_async_put_batch_args_eq a rhs =
     (if \<not> sequence_id_eq (rapb_seq_id a) (rapb_seq_id rhs) then False
      else if \<not> (rapb_keys a = rapb_keys rhs) then False
      else if \<not> (rapb_values a = rapb_values rhs) then False
      else True)"

definition response_async_put_batch_args_neq :: "response_async_put_batch_args \<Rightarrow> response_async_put_batch_args \<Rightarrow> bool" where
  "response_async_put_batch_args_neq a rhs = (\<not> response_async_put_batch_args_eq a rhs)"

definition response_async_put_batch_args_field ::
    "'w tproto \<Rightarrow> 16 word \<Rightarrow> ttype \<Rightarrow> response_async_put_batch_args \<Rightarrow> ('w, response_async_put_batch_args \<times> 32 word) io" where
  "response_async_put_batch_args_field P fid ftype x =
     (if fid = 1 then
        read_if P ftype T_STRUCT (sequence_id_read P (rapb_seq_id x)) (\<lambda>v. x\<lparr>rapb_seq_id := v, rapb_isset_seq_id := True\<rparr>) x
      else if fid = 2 then
        read_if P ftype T_LIST (read_string_list P) (\<lambda>v. x\<lparr>rapb_keys := v, rapb_isset_keys := True\<rparr>) x
      else if fid = 3 then
        read_if P ftype T_LIST (read_string_list P) (\<lambda>v. x\<lparr>rapb_values := v, rapb_isset_values := True\<rparr>) x
      else skip_field P ftype x)"

definition response_async_put_batch_args_read ::
    "'w tproto \<Rightarrow> response_async_put_batch_args \<Rightarrow> ('w, response_async_put_batch_args \<times> 32 word) io" where
  "response_async_put_batch_args_read P this = read_struct P (response_async_put_batch_args_field P) this"

definition response_async_put_batch_args_write :: "'w tproto \<Rightarrow> response_async_put_batch_args \<Rightarrow> ('w, 32 word) io" where
  "response_async_put_batch_args_write P this =
     write_struct P ''pancake_thrift_response_async_put_batch_args''
       [write_field P ''seq_id'' T_STRUCT 1 (sequence_id_write P (rapb_seq_id this)),
        write_field P ''keys'' T_LIST 2 (write_string_list P (rapb_keys this)),
        write_field P ''values'' T_LIST 3 (write_string_list P (rapb_values this))]"

definition response_async_put_batch_pargs_write :: "'w tproto \<Rightarrow> sequence_id \<Rightarrow> string list \<Rightarrow> string list \<Rightarrow> ('w, 32 word) io" where
  "response_async_put_batch_pargs_write P seq_id keys values =
     write_struct P ''pancake_thrift_response_async_put_batch_pargs''
       [write_field P ''seq_id'' T_STRUCT 1 (sequence_id_write P seq_id),
        write_field P ''keys'' T_LIST 2 (write_string_list P keys),
        write_field P ''values'' T_LIST 3 (write_string_list P values)]"

section \<open>Clients\<close>

definition send_response_async_get :: "'w tproto \<Rightarrow> sequence_id \<Rightarrow> string \<Rightarrow> ('w, unit) io" where
  "send_response_async_get oprot seq_id result =
     send_message oprot ''async_get'' T_ONEWAY 0 (response_async_get_pargs_write oprot seq_id result)"

definition response_async_get :: "'w tproto \<Rightarrow> sequence_id \<Rightarrow> string \<Rightarrow> ('w, unit) io" where
  "response_async_get oprot seq_id result = send_response_async_get oprot seq_id result"

definition c_send_response_async_get :: "'w sync \<Rightarrow> 'w tproto \<Rightarrow> sequence_id \<Rightarrow> string \<Rightarrow> ('w, unit) io" where
  "c_send_response_async_get sy oprot seq_id result =
     send_sentry sy (ithen
       (send_message oprot ''async_get'' T_ONEWAY 0 (response_async_get_pargs_write oprot seq_id result))
       (send_commit sy))"

definition concurrent_response_async_get :: "'w sync \<Rightarrow> 'w tproto \<Rightarrow> sequence_id \<Rightarrow> string \<Rightarrow> ('w, unit) io" where
  "concurrent_response_async_get sy oprot seq_id result = c_send_response_async_get sy oprot seq_id result"

definition send_response_async_put :: "'w tproto \<Rightarrow> sequence_id \<Rightarrow> string \<Rightarrow> string \<Rightarrow> ('w, unit) io" where
  "send_response_async_put oprot seq_id key value =
     send_message oprot ''async_put'' T_ONEWAY 0 (response_async_put_pargs_write oprot seq_id key value)"

definition response_async_put :: "'w tproto \<Rightarrow> sequence_id \<Rightarrow> string \<Rightarrow> string \<Rightarrow> ('w, unit) io" where
  "response_async_put oprot seq_id key value = send_response_async_put oprot seq_id key value"

definition c_send_response_async_put :: "'w sync \<Rightarrow> 'w tproto \<Rightarrow> sequence_id \<Rightarrow> string \<Rightarrow> string \<Rightarrow> ('w, unit) io" where
  "c_send_response_async_put sy oprot seq_id key value =
     send_sentry sy (ithen
       (send_message oprot ''async_put'' T_ONEWAY 0 (response_async_put_pargs_write oprot seq_id key value))
       (send_commit sy))"

definition concurrent_response_async_put :: "'w sync \<Rightarrow> 'w tproto \<Rightarrow> sequence_id \<Rightarrow> string \<Rightarrow> string \<Rightarrow> ('w, unit) io" where
  "concurrent_response_async_put sy oprot seq_id key value = c_send_response_async_put sy oprot seq_id key value"

definition send_response_async_get_batch :: "'w tproto \<Rightarrow> sequence_id \<Rightarrow> string list \<Rightarrow> ('w, unit) io" where
  "send_response_async_get_batch oprot seq_id keys =
     send_message oprot ''async_get_batch'' T_ONEWAY 0 (response_async_get_batch_pargs_write oprot seq_id keys)"

definition response_async_get_batch :: "'w tproto \<Rightarrow> sequence_id \<Rightarrow> string list \<Rightarrow> ('w, unit) io" where
  "response_async_get_batch oprot seq_id keys = send_response_async_get_batch oprot seq_id keys"

definition c_send_response_async_get_batch :: "'w sync \<Rightarrow> 'w tproto \<Rightarrow> sequence_id \<Rightarrow> string list \<Rightarrow> ('w, unit) io" where
  "c_send_response_async_get_batch sy oprot seq_id keys =
     send_sentry sy (ithen
       (send_message oprot ''async_get_batch'' T_ONEWAY 0 (response_async_get_batch_pargs_write oprot seq_id keys))
       (send_commit sy))"

definition concurrent_response_async_get_batch :: "'w sync \<Rightarrow> 'w tproto \<Rightarrow> sequence_id \<Rightarrow> string list \<Rightarrow> ('w, unit) io" where
  "concurrent_response_async_get_batch sy oprot seq_id keys = c_send_response_async_get_batch sy oprot seq_id keys"

definition send_response_async_put_batch :: "'w tproto \<Rightarrow> sequence_id \<Rightarrow> string list \<Rightarrow> string list \<Rightarrow> ('w, unit) io" where
  "send_response_async_put_batch oprot seq_id keys values =
     send_message oprot ''async_put_batch'' T_ONEWAY 0 (response_async_put_batch_pargs_write oprot seq_id keys values)"

definition response_async_put_batch :: "'w tproto \<Rightarrow> sequence_id \<Rightarrow> string list \<Rightarrow> string list \<Rightarrow> ('w, unit) io" where
  "response_async_put_batch oprot seq_id keys values = send_response_async_put_batch oprot seq_id keys values"

definition c_send_response_async_put_batch :: "'w sync \<Rightarrow> 'w tproto \<Rightarrow> sequence_id \<Rightarrow> string list \<Rightarrow> string list \<Rightarrow> ('w, unit) io" where
  "c_send_response_async_put_batch sy oprot seq_id keys values =
     send_sentry sy (ithen
       (send_message oprot ''async_put_batch'' T_ONEWAY 0 (response_async_put_batch_pargs_write oprot seq_id keys values))
       (send_commit sy))"

definition concurrent_response_async_put_batch :: "'w sync \<Rightarrow> 'w tproto \<Rightarrow> sequence_id \<Rightarrow> string list \<Rightarrow> string list \<Rightarrow> ('w, unit) io" where
  "concurrent_response_async_put_batch sy oprot seq_id keys values = c_send_response_async_put_batch sy oprot seq_id keys values"

section \<open>Handlers\<close>

record 'w response_iface =
  rf_async_get :: "sequence_id \<Rightarrow> string \<Rightarrow> ('w, unit) io"
  rf_async_put :: "sequence_id \<Rightarrow> string \<Rightarrow> string \<Rightarrow> ('w, unit) io"
  rf_async_get_batch :: "sequence_id \<Rightarrow> string list \<Rightarrow> ('w, unit) io"
  rf_async_put_batch :: "sequence_id \<Rightarrow> string list \<Rightarrow> string list \<Rightarrow> ('w, unit) io"

definition response_null :: "'w response_iface" where
  "response_null =
     \<lparr>rf_async_get = (\<lambda>seq_id result. iret ()),
      rf_async_put = (\<lambda>seq_id key value. iret ()),
      rf_async_get_batch = (\<lambda>seq_id keys. iret ()),
      rf_async_put_batch = (\<lambda>seq_id keys values. iret ())\<rparr>"

definition response_multi_async_get ::
    "'w response_iface list \<Rightarrow> sequence_id \<Rightarrow> string \<Rightarrow> ('w, unit) io" where
  "response_multi_async_get ifaces seq_id result = multi_loop (\<lambda>i. rf_async_get i seq_id result) ifaces"

definition response_multi_async_put ::
    "'w response_iface list \<Rightarrow> sequence_id \<Rightarrow> string \<Rightarrow> string \<Rightarrow> ('w, unit) io" where
  "response_multi_async_put ifaces seq_id key value = multi_loop (\<lambda>i. rf_async_put i seq_id key value) ifaces"

definition response_multi_async_get_batch ::
    "'w response_iface list \<Rightarrow> sequence_id \<Rightarrow> string list \<Rightarrow> ('w, unit) io" where
  "response_multi_async_get_batch ifaces seq_id keys = multi_loop (\<lambda>i. rf_async_get_batch i seq_id keys) ifaces"

definition response_multi_async_put_batch ::
    "'w response_iface list \<Rightarrow> sequence_id \<Rightarrow> string list \<Rightarrow> string list \<Rightarrow> ('w, unit) io" where
  "response_multi_async_put_batch ifaces seq_id keys values = multi_loop (\<lambda>i. rf_async_put_batch i seq_id keys values) ifaces"

definition response_multi_iface :: "'w response_iface list \<Rightarrow> 'w response_iface" where
  "response_multi_iface ifaces =
     \<lparr>rf_async_get = response_multi_async_get ifaces,
      rf_async_put = response_multi_async_put ifaces,
      rf_async_get_batch = response_multi_async_get_batch ifaces,
      rf_async_put_batch = response_multi_async_put_batch ifaces\<rparr>"

section \<open>The processor\<close>

text \<open>As for the current service, the handler is an argument and \<open>pr_iface\<close> of \<open>pr\<close> is not used.\<close>

definition process_response_async_get :: "'w processor \<Rightarrow> 'w response_iface \<Rightarrow> 'w process_function" where
  "process_response_async_get pr i seqid iprot oprot callContext =
     process_oneway pr iprot ''pancake_thrift_response.async_get'' callContext
       (response_async_get_args_read iprot response_async_get_args_new)
       (\<lambda>args. rf_async_get i (rag_seq_id args) (rag_result args))"

definition process_response_async_put :: "'w processor \<Rightarrow> 'w response_iface \<Rightarrow> 'w process_function" where
  "process_response_async_put pr i seqid iprot oprot callContext =
     process_oneway pr iprot ''pancake_thrift_response.async_put'' callContext
       (response_async_put_args_read iprot response_async_put_args_new)
       (\<lambda>args. rf_async_put i (rap_seq_id args) (rap_key args) (rap_value args))"

definition process_response_async_get_batch :: "'w processor \<Rightarrow> 'w response_iface \<Rightarrow> 'w process_function" where
  "process_response_async_get_batch pr i seqid iprot oprot callContext =
     process_oneway pr iprot ''pancake_thrift_response.async_get_batch'' callContext
       (response_async_get_batch_args_read iprot response_async_get_batch_args_new)
       (\<lambda>args. rf_async_get_batch i (ragb_seq_id args) (ragb_keys args))"

definition process_response_async_put_batch :: "'w processor \<Rightarrow> 'w response_iface \<Rightarrow> 'w process_function" where
  "process_response_async_put_batch pr i seqid iprot oprot callContext =
     process_oneway pr iprot ''pancake_thrift_response.async_put_batch'' callContext
       (response_async_put_batch_args_read iprot response_async_put_batch_args_new)
       (\<lambda>args. rf_async_put_batch i (rapb_seq_id args) (rapb_keys args) (rapb_values args))"

definition earlier_process_map ::
    "'w processor \<Rightarrow> 'w response_iface \<Rightarrow> string \<rightharpoonup> 'w process_function" where
  "earlier_process_map pr i =
     [''async_get'' \<mapsto> process_response_async_get pr i,
      ''async_put'' \<mapsto> process_response_async_put pr i,
      ''async_get_batch'' \<mapsto> process_response_async_get_batch pr i,
      ''async_put_batch'' \<mapsto> process_response_async_put_batch pr i]"

definition earlier_dispatchCall ::
    "'w processor \<Rightarrow> 'w response_iface \<Rightarrow> 'w tproto \<Rightarrow> 'w tproto \<Rightarrow> string \<Rightarrow> 32 word \<Rightarrow> nat \<Rightarrow> ('w, bool) io" where
  "earlier_dispatchCall pr i = dispatch_on (earlier_process_map pr i)"

text \<open>
  The handler comes from the factory of the connection (\<open>getHandler\<close>), and the processor calls
  the handlers that it dispatches to.
\<close>

definition earlier_getProcessor ::
    "(nat \<Rightarrow> ('w, 'w response_iface) io) \<Rightarrow> 'w processor \<Rightarrow> nat \<Rightarrow>
     ('w, 'w tproto \<Rightarrow> 'w tproto \<Rightarrow> string \<Rightarrow> 32 word \<Rightarrow> nat \<Rightarrow> ('w, bool) io) io" where
  "earlier_getProcessor getHandler pr connInfo =
     ibind (getHandler connInfo) (\<lambda>handler. iret (earlier_dispatchCall pr handler))"

section \<open>What is written and read\<close>

abbreviation response_async_get_value :: "sequence_id \<Rightarrow> string \<Rightarrow> tvalue" where
  "response_async_get_value seq_id result \<equiv>
     V_Struct [(1, seq_value seq_id), (2, V_String result)]"

definition response_async_get_args_upd :: "16 word \<Rightarrow> tvalue \<Rightarrow> response_async_get_args \<Rightarrow> response_async_get_args" where
  "response_async_get_args_upd fid v x =
     (if fid = 1 then
        (case v of V_Struct fs \<Rightarrow> x\<lparr>rag_seq_id := fst (seq_fields (rag_seq_id x) fs), rag_isset_seq_id := True\<rparr> | _ \<Rightarrow> x)
      else if fid = 2 then on_string v (\<lambda>y. x\<lparr>rag_result := y, rag_isset_result := True\<rparr>) x
      else x)"

lemma response_async_get_args_reads:
  "fold (\<lambda>(fid, v). response_async_get_args_upd fid v) [(1, seq_value seq_id), (2, V_String result)] x
     = \<lparr>rag_seq_id = seq_id, rag_result = result,
        rag_isset_seq_id = True, rag_isset_result = True\<rparr>"
  by (simp add: response_async_get_args_upd_def on_value_defs seq_value_def seq_value_reads)

abbreviation response_async_put_value :: "sequence_id \<Rightarrow> string \<Rightarrow> string \<Rightarrow> tvalue" where
  "response_async_put_value seq_id key value \<equiv>
     V_Struct [(1, seq_value seq_id), (2, V_String key), (3, V_String value)]"

definition response_async_put_args_upd :: "16 word \<Rightarrow> tvalue \<Rightarrow> response_async_put_args \<Rightarrow> response_async_put_args" where
  "response_async_put_args_upd fid v x =
     (if fid = 1 then
        (case v of V_Struct fs \<Rightarrow> x\<lparr>rap_seq_id := fst (seq_fields (rap_seq_id x) fs), rap_isset_seq_id := True\<rparr> | _ \<Rightarrow> x)
      else if fid = 2 then on_string v (\<lambda>y. x\<lparr>rap_key := y, rap_isset_key := True\<rparr>) x
      else if fid = 3 then on_string v (\<lambda>y. x\<lparr>rap_value := y, rap_isset_value := True\<rparr>) x
      else x)"

lemma response_async_put_args_reads:
  "fold (\<lambda>(fid, v). response_async_put_args_upd fid v) [(1, seq_value seq_id), (2, V_String key), (3, V_String value)] x
     = \<lparr>rap_seq_id = seq_id, rap_key = key, rap_value = value,
        rap_isset_seq_id = True, rap_isset_key = True, rap_isset_value = True\<rparr>"
  by (simp add: response_async_put_args_upd_def on_value_defs seq_value_def seq_value_reads)

abbreviation response_async_get_batch_value :: "sequence_id \<Rightarrow> string list \<Rightarrow> tvalue" where
  "response_async_get_batch_value seq_id keys \<equiv>
     V_Struct [(1, seq_value seq_id), (2, V_List keys)]"

definition response_async_get_batch_args_upd :: "16 word \<Rightarrow> tvalue \<Rightarrow> response_async_get_batch_args \<Rightarrow> response_async_get_batch_args" where
  "response_async_get_batch_args_upd fid v x =
     (if fid = 1 then
        (case v of V_Struct fs \<Rightarrow> x\<lparr>ragb_seq_id := fst (seq_fields (ragb_seq_id x) fs), ragb_isset_seq_id := True\<rparr> | _ \<Rightarrow> x)
      else if fid = 2 then on_list v (\<lambda>y. x\<lparr>ragb_keys := y, ragb_isset_keys := True\<rparr>) x
      else x)"

lemma response_async_get_batch_args_reads:
  "fold (\<lambda>(fid, v). response_async_get_batch_args_upd fid v) [(1, seq_value seq_id), (2, V_List keys)] x
     = \<lparr>ragb_seq_id = seq_id, ragb_keys = keys,
        ragb_isset_seq_id = True, ragb_isset_keys = True\<rparr>"
  by (simp add: response_async_get_batch_args_upd_def on_value_defs seq_value_def seq_value_reads)

abbreviation response_async_put_batch_value :: "sequence_id \<Rightarrow> string list \<Rightarrow> string list \<Rightarrow> tvalue" where
  "response_async_put_batch_value seq_id keys values \<equiv>
     V_Struct [(1, seq_value seq_id), (2, V_List keys), (3, V_List values)]"

definition response_async_put_batch_args_upd :: "16 word \<Rightarrow> tvalue \<Rightarrow> response_async_put_batch_args \<Rightarrow> response_async_put_batch_args" where
  "response_async_put_batch_args_upd fid v x =
     (if fid = 1 then
        (case v of V_Struct fs \<Rightarrow> x\<lparr>rapb_seq_id := fst (seq_fields (rapb_seq_id x) fs), rapb_isset_seq_id := True\<rparr> | _ \<Rightarrow> x)
      else if fid = 2 then on_list v (\<lambda>y. x\<lparr>rapb_keys := y, rapb_isset_keys := True\<rparr>) x
      else if fid = 3 then on_list v (\<lambda>y. x\<lparr>rapb_values := y, rapb_isset_values := True\<rparr>) x
      else x)"

lemma response_async_put_batch_args_reads:
  "fold (\<lambda>(fid, v). response_async_put_batch_args_upd fid v) [(1, seq_value seq_id), (2, V_List keys), (3, V_List values)] x
     = \<lparr>rapb_seq_id = seq_id, rapb_keys = keys, rapb_values = values,
        rapb_isset_seq_id = True, rapb_isset_keys = True, rapb_isset_values = True\<rparr>"
  by (simp add: response_async_put_batch_args_upd_def on_value_defs seq_value_def seq_value_reads)

text \<open>Structs whose first field is a sequence id and whose others are plain.\<close>

context thrift_input begin

lemma seq_struct_takes:
  assumes one: "\<And>x. field 1 T_STRUCT x = read_if P T_STRUCT T_STRUCT (sequence_id_read P (get x)) (put x) x"
    and upd: "\<And>x fs. upd 1 (V_Struct fs) x = put x (fst (seq_fields (get x) fs))"
    and ok: "fields_ok 2 rest" "1 \<notin> fst ` set rest"
    and rest: "\<And>fid v x. value_ok v \<Longrightarrow> value_depth v \<le> 2 \<Longrightarrow> fid \<noteq> 1 \<Longrightarrow>
      takes conn 2 (field fid (value_type v) x) (value_tokens v) (upd fid v x, size_of (value_tokens v))"
  shows "takes conn 3 (read_struct P field x0) (value_tokens (V_Struct ((1, seq_value s) # rest)))
     (fold (\<lambda>(fid, v). upd fid v) ((1, seq_value s) # rest) x0,
      size_of (value_tokens (V_Struct ((1, seq_value s) # rest))))"
proof -
  have first: "takes conn 2 (field 1 (value_type (seq_value s)) x) (value_tokens (seq_value s))
      (upd 1 (seq_value s) x, size_of (value_tokens (seq_value s)))" for x
    using seq_arg_takes [of 2 "[(1, seq_value s)]" "seq_value s" "get x" "put x" x]
      seq_args_complete [of _ s "[]"]
    by (simp add: one upd seq_value_def)
  have "takes conn 2 (field fid (value_type v) x) (value_tokens v) (upd fid v x, size_of (value_tokens v))"
    if "(fid, v) \<in> set ((1, seq_value s) # rest)" for fid v x
    using that first [of x] rest [of v fid x] fields_okD [OF ok(1), of fid v] ok(2) by (auto simp: image_iff)
  from read_struct_takes [of "(1, seq_value s) # rest" 2, OF this] show ?thesis
    by (simp only: numeral_2_eq_2 numeral_3_eq_3)
qed

lemma response_async_get_args_takes:
  "value_ok (V_String result) \<Longrightarrow> takes conn 3 (response_async_get_args_read P x0) (value_tokens (response_async_get_value seq_id result))
     (\<lparr>rag_seq_id = seq_id, rag_result = result,
       rag_isset_seq_id = True, rag_isset_result = True\<rparr>,
      size_of (value_tokens (response_async_get_value seq_id result)))"
  unfolding response_async_get_args_read_def response_async_get_args_reads [symmetric, of _ _ x0]
  by (rule seq_struct_takes [where get = rag_seq_id and put = "\<lambda>x y. x\<lparr>rag_seq_id := y, rag_isset_seq_id := True\<rparr>"])
    (simp_all add: response_async_get_args_field_def response_async_get_args_upd_def field_takes)

lemma response_async_put_args_takes:
  "value_ok (V_String key) \<Longrightarrow> value_ok (V_String value) \<Longrightarrow> takes conn 3 (response_async_put_args_read P x0) (value_tokens (response_async_put_value seq_id key value))
     (\<lparr>rap_seq_id = seq_id, rap_key = key, rap_value = value,
       rap_isset_seq_id = True, rap_isset_key = True, rap_isset_value = True\<rparr>,
      size_of (value_tokens (response_async_put_value seq_id key value)))"
  unfolding response_async_put_args_read_def response_async_put_args_reads [symmetric, of _ _ _ x0]
  by (rule seq_struct_takes [where get = rap_seq_id and put = "\<lambda>x y. x\<lparr>rap_seq_id := y, rap_isset_seq_id := True\<rparr>"])
    (simp_all add: response_async_put_args_field_def response_async_put_args_upd_def field_takes)

lemma response_async_get_batch_args_takes:
  "value_ok (V_List keys) \<Longrightarrow> takes conn 3 (response_async_get_batch_args_read P x0) (value_tokens (response_async_get_batch_value seq_id keys))
     (\<lparr>ragb_seq_id = seq_id, ragb_keys = keys,
       ragb_isset_seq_id = True, ragb_isset_keys = True\<rparr>,
      size_of (value_tokens (response_async_get_batch_value seq_id keys)))"
  unfolding response_async_get_batch_args_read_def response_async_get_batch_args_reads [symmetric, of _ _ x0]
  by (rule seq_struct_takes [where get = ragb_seq_id and put = "\<lambda>x y. x\<lparr>ragb_seq_id := y, ragb_isset_seq_id := True\<rparr>"])
    (simp_all add: response_async_get_batch_args_field_def response_async_get_batch_args_upd_def field_takes)

lemma response_async_put_batch_args_takes:
  "value_ok (V_List keys) \<Longrightarrow> value_ok (V_List values) \<Longrightarrow> takes conn 3 (response_async_put_batch_args_read P x0) (value_tokens (response_async_put_batch_value seq_id keys values))
     (\<lparr>rapb_seq_id = seq_id, rapb_keys = keys, rapb_values = values,
       rapb_isset_seq_id = True, rapb_isset_keys = True, rapb_isset_values = True\<rparr>,
      size_of (value_tokens (response_async_put_batch_value seq_id keys values)))"
  unfolding response_async_put_batch_args_read_def response_async_put_batch_args_reads [symmetric, of _ _ _ x0]
  by (rule seq_struct_takes [where get = rapb_seq_id and put = "\<lambda>x y. x\<lparr>rapb_seq_id := y, rapb_isset_seq_id := True\<rparr>"])
    (simp_all add: response_async_put_batch_args_field_def response_async_put_batch_args_upd_def field_takes)

end

context thrift_output begin

lemma send_response_async_get_gives:
  "value_ok (V_String result) \<Longrightarrow> gives conn 2 (send_response_async_get P seq_id result)
     (message ''async_get'' T_ONEWAY 0 (response_async_get_value seq_id result)) ()"
  unfolding send_response_async_get_def response_async_get_pargs_write_def numeral_2_eq_2
  by (rule send_message_gives, rule write_struct_gives) (simp add: field_writes)

lemma send_response_async_put_gives:
  "value_ok (V_String key) \<Longrightarrow> value_ok (V_String value) \<Longrightarrow> gives conn 2 (send_response_async_put P seq_id key value)
     (message ''async_put'' T_ONEWAY 0 (response_async_put_value seq_id key value)) ()"
  unfolding send_response_async_put_def response_async_put_pargs_write_def numeral_2_eq_2
  by (rule send_message_gives, rule write_struct_gives) (simp add: field_writes)

lemma send_response_async_get_batch_gives:
  "value_ok (V_List keys) \<Longrightarrow> gives conn 2 (send_response_async_get_batch P seq_id keys)
     (message ''async_get_batch'' T_ONEWAY 0 (response_async_get_batch_value seq_id keys)) ()"
  unfolding send_response_async_get_batch_def response_async_get_batch_pargs_write_def numeral_2_eq_2
  by (rule send_message_gives, rule write_struct_gives) (simp add: field_writes)

lemma send_response_async_put_batch_gives:
  "value_ok (V_List keys) \<Longrightarrow> value_ok (V_List values) \<Longrightarrow> gives conn 2 (send_response_async_put_batch P seq_id keys values)
     (message ''async_put_batch'' T_ONEWAY 0 (response_async_put_batch_value seq_id keys values)) ()"
  unfolding send_response_async_put_batch_def response_async_put_batch_pargs_write_def numeral_2_eq_2
  by (rule send_message_gives, rule write_struct_gives) (simp add: field_writes)

end

section \<open>What the processor does\<close>

context thrift_server begin

text \<open>The handler's effect happens and nothing is written back.\<close>

definition oneway_answered ::
    "('w tproto \<Rightarrow> 'w tproto \<Rightarrow> string \<Rightarrow> 32 word \<Rightarrow> nat \<Rightarrow> ('w, bool) io) \<Rightarrow> string \<Rightarrow> tvalue \<Rightarrow> 'h \<Rightarrow> 'h \<Rightarrow> bool" where
  "oneway_answered dispatch name v h h' \<longleftrightarrow>
     (\<forall>w a rest seqid cc. conn w a h \<longrightarrow> unnested a \<longrightarrow> w_in a = value_tokens v @ Tk_MessageEnd # rest \<longrightarrow>
        (\<exists>w'. dispatch ip oprt name seqid cc w = Some (Inr True, w') \<and> conn w' (a\<lparr>w_in := rest\<rparr>) h'))"

lemma oneway_dispatched:
  assumes "\<And>seqid cc. \<exists>full. (\<exists>f. pm name = Some f \<and>
      f seqid ip oprt cc = process_oneway pr ip full cc rd call)"
    and "takes conn 3 rd (value_tokens v) (args, n)"
    and "handles conn (call args) h r h'" and "\<And>e. r = Inl e \<Longrightarrow> is_exception e"
  shows "oneway_answered (dispatch_on pm) name v h h'"
  unfolding oneway_answered_def
proof (intro allI impI)
  fix w a rest seqid cc
  assume c: "conn w a h" "unnested a" "w_in a = value_tokens v @ Tk_MessageEnd # rest"
  obtain full f where f: "pm name = Some f" "f seqid ip oprt cc = process_oneway pr ip full cc rd call"
    using assms(1) by blast
  obtain w' where "process_oneway pr ip full cc rd call w = Some (Inr (), w')" "conn w' (a\<lparr>w_in := rest\<rparr>) h'"
    using process_oneway_silent [OF assms(2) c, where call = call and r = r and h' = h'] assms(3,4) by blast
  with f show "\<exists>w'. dispatch_on pm ip oprt name seqid cc w = Some (Inr True, w') \<and> conn w' (a\<lparr>w_in := rest\<rparr>) h'"
    by (auto simp: dispatch_on_def ithen_Inr iret_apply)
qed

lemma earlier_async_get_answers:
  assumes "value_ok (V_String result)"
    and "handles conn (rf_async_get i seq_id result) h r h'" and "\<And>e. r = Inl e \<Longrightarrow> is_exception e"
  shows "oneway_answered (earlier_dispatchCall pr i) ''async_get'' (response_async_get_value seq_id result) h h'"
  unfolding earlier_dispatchCall_def
  by (rule oneway_dispatched [where call = "\<lambda>args. rf_async_get i (rag_seq_id args) (rag_result args)", OF _ response_async_get_args_takes [where ?x0.0 = response_async_get_args_new]])
    (use assms in \<open>auto simp: earlier_process_map_def process_response_async_get_def [abs_def]\<close>)

lemma earlier_async_put_answers:
  assumes "value_ok (V_String key)" and "value_ok (V_String value)"
    and "handles conn (rf_async_put i seq_id key value) h r h'" and "\<And>e. r = Inl e \<Longrightarrow> is_exception e"
  shows "oneway_answered (earlier_dispatchCall pr i) ''async_put'' (response_async_put_value seq_id key value) h h'"
  unfolding earlier_dispatchCall_def
  by (rule oneway_dispatched [where call = "\<lambda>args. rf_async_put i (rap_seq_id args) (rap_key args) (rap_value args)", OF _ response_async_put_args_takes [where ?x0.0 = response_async_put_args_new]])
    (use assms in \<open>auto simp: earlier_process_map_def process_response_async_put_def [abs_def]\<close>)

lemma earlier_async_get_batch_answers:
  assumes "value_ok (V_List keys)"
    and "handles conn (rf_async_get_batch i seq_id keys) h r h'" and "\<And>e. r = Inl e \<Longrightarrow> is_exception e"
  shows "oneway_answered (earlier_dispatchCall pr i) ''async_get_batch'' (response_async_get_batch_value seq_id keys) h h'"
  unfolding earlier_dispatchCall_def
  by (rule oneway_dispatched [where call = "\<lambda>args. rf_async_get_batch i (ragb_seq_id args) (ragb_keys args)", OF _ response_async_get_batch_args_takes [where ?x0.0 = response_async_get_batch_args_new]])
    (use assms in \<open>auto simp: earlier_process_map_def process_response_async_get_batch_def [abs_def]\<close>)

lemma earlier_async_put_batch_answers:
  assumes "value_ok (V_List keys)" and "value_ok (V_List values)"
    and "handles conn (rf_async_put_batch i seq_id keys values) h r h'" and "\<And>e. r = Inl e \<Longrightarrow> is_exception e"
  shows "oneway_answered (earlier_dispatchCall pr i) ''async_put_batch'' (response_async_put_batch_value seq_id keys values) h h'"
  unfolding earlier_dispatchCall_def
  by (rule oneway_dispatched [where call = "\<lambda>args. rf_async_put_batch i (rapb_seq_id args) (rapb_keys args) (rapb_values args)", OF _ response_async_put_batch_args_takes [where ?x0.0 = response_async_put_batch_args_new]])
    (use assms in \<open>auto simp: earlier_process_map_def process_response_async_put_batch_def [abs_def]\<close>)

end

end
