(* ===== verification/Earlier_Properties.thy ===== *)
theory Earlier_Properties
  imports Thrift_Properties Earlier_Response
begin

text \<open>
  The earlier response service end to end, and against the service that replaced it.
\<close>

text \<open>
  C25. A call over the earlier response service reaches the handler as it was made: what the
  client writes for \<open>async_put_batch\<close> is one oneway message, and the processor that finds it after
  the header consumes it, runs the handler's method once with the same identifier, keys and values,
  and writes nothing back, also when the handler throws.
\<close>

theorem earlier_put_batch_arrives:
  assumes "thrift_output co cconn csz" and "thrift_server ip op conn sz pr"
    and "value_ok (V_List keys)" and "value_ok (V_List vals)"
    and "handles conn (rf_async_put_batch i seq_id keys vals) h r h'"
    and "\<And>e. r = Inl e \<Longrightarrow> is_exception e"
  shows "\<exists>call. gives cconn 2 (send_response_async_put_batch co seq_id keys vals)
      (Tk_Message ''async_put_batch'' T_ONEWAY 0 # call) () \<and>
    (\<forall>w a rest. conn w a h \<longrightarrow> unnested a \<longrightarrow> w_in a = call @ rest \<longrightarrow>
       (\<exists>w'. earlier_dispatchCall pr i ip op ''async_put_batch'' seqid ctx w = Some (Inr True, w') \<and>
          conn w' (a\<lparr>w_in := rest\<rparr>) h'))"
proof (rule exI [of _ "value_tokens (response_async_put_batch_value seq_id keys vals) @ [Tk_MessageEnd]"],
    intro conjI allI impI)
  show "gives cconn 2 (send_response_async_put_batch co seq_id keys vals)
      (Tk_Message ''async_put_batch'' T_ONEWAY 0 #
        value_tokens (response_async_put_batch_value seq_id keys vals) @ [Tk_MessageEnd]) ()"
    using thrift_output.send_response_async_put_batch_gives [OF assms(1,3,4), of seq_id]
    by (simp add: message_def del: value_tokens.simps)
  fix w a rest
  assume "conn w a h" "unnested a"
    "w_in a = (value_tokens (response_async_put_batch_value seq_id keys vals) @ [Tk_MessageEnd]) @ rest"
  then show "\<exists>w'. earlier_dispatchCall pr i ip op ''async_put_batch'' seqid ctx w = Some (Inr True, w') \<and>
      conn w' (a\<lparr>w_in := rest\<rparr>) h'"
    using thrift_server.earlier_async_put_batch_answers [OF assms(2-6)]
    by (simp add: thrift_server.oneway_answered_def [OF assms(2)] del: value_tokens.simps)
qed

text \<open>A handler that counts its calls and throws.\<close>

definition counting_response :: "nat wired response_iface" where
  "counting_response = response_null\<lparr>rf_async_put_batch :=
     (\<lambda>seq_id keys values (a, n). Some (Inl (Logic_error (concat (keys @ values))), (a, Suc n)))\<rparr>"

theorem earlier_put_batch_arrives_witness:
  "\<exists>call. gives token_conn 2 (send_response_async_put_batch (token_proto :: unit wired tproto) sequence_id_new [''k''] [''v''])
      (Tk_Message ''async_put_batch'' T_ONEWAY 0 # call) () \<and>
    (\<exists>w'. earlier_dispatchCall (plain_processor marking_iface) counting_response token_proto token_proto
        ''async_put_batch'' 0 0 (wire_new\<lparr>w_in := call\<rparr>, 0) = Some (Inr True, w') \<and>
      w_out (fst w') = [] \<and> w_in (fst w') = [] \<and> snd w' = 1)"
proof -
  have h: "handles token_conn (rf_async_put_batch counting_response sequence_id_new [''k''] [''v'']) 0
      (Inl (Logic_error ''kv'')) 1"
    by (simp add: handles_def counting_response_def token_conn_def)
  obtain call where c: "gives token_conn 2
        (send_response_async_put_batch (token_proto :: unit wired tproto) sequence_id_new [''k''] [''v''])
        (Tk_Message ''async_put_batch'' T_ONEWAY 0 # call) ()"
    "\<forall>w a rest. token_conn w a 0 \<longrightarrow> unnested a \<longrightarrow> w_in a = call @ rest \<longrightarrow>
       (\<exists>w'. earlier_dispatchCall (plain_processor marking_iface) counting_response token_proto token_proto
          ''async_put_batch'' 0 0 w = Some (Inr True, w') \<and> token_conn w' (a\<lparr>w_in := rest\<rparr>) 1)"
    using earlier_put_batch_arrives [OF tok_out.thrift_output_axioms tok_server.thrift_server_axioms [of marking_iface] _ _ h, where seqid = 0 and ctx = 0]
    by auto
  have "\<exists>w'. earlier_dispatchCall (plain_processor marking_iface) counting_response token_proto token_proto
      ''async_put_batch'' 0 0 (wire_new\<lparr>w_in := call\<rparr>, 0) = Some (Inr True, w') \<and>
    token_conn w' (wire_new\<lparr>w_in := call\<rparr>\<lparr>w_in := []\<rparr>) 1"
    by (rule c(2) [rule_format]) (simp_all add: token_conn_def unnested_def wire_new_def)
  with c(1) show ?thesis by (auto simp: token_conn_def wire_new_def)
qed

text \<open>The processor that replaced it does not know these methods: the oneway call is answered with an exception.\<close>

lemma earlier_call_is_unknown:
  assumes "thrift_server ip op conn sz pr" and "value_ok (V_List keys)" and "value_ok (V_List vals)"
    and "conn w a h" and "unnested a"
    and "w_in a = value_tokens (response_async_put_batch_value seq_id keys vals) @ Tk_MessageEnd # rest"
  shows "\<exists>w'. response_dispatchCall pr respond ip op ''async_put_batch'' seqid cc w = Some (Inr True, w') \<and>
    conn w' (a\<lparr>w_in := rest, w_out := w_out a @ exception_message ''async_put_batch'' seqid UNKNOWN_METHOD
      (''Invalid method name: '' @ CHR 0x27 # ''async_put_batch'' @ [CHR 0x27])\<rparr>) h"
  unfolding response_dispatchCall_def
  by (rule thrift_server.dispatch_unknown [OF assms(1) _ assms(4-6)])
    (use assms(2,3) in \<open>simp_all add: response_process_map_def\<close>)

end
