(* ===== verification/Oram_Util.thy ===== *)
theory Oram_Util
  imports Util "HOL-Library.Multiset"
begin

text \<open>
  The two routines of \<^verbatim>\<open>proxy/src/path_oram_util.h\<close> that the header defines. The rest of the ORAM
  baseline is declared and not implemented. \<open>permute_loop\<close> rearranges the first \<open>n\<close> items and can
  produce every order of them.
\<close>

text \<open>\<open>std::uniform_int_distribution<size_t>(0, i)(gen)\<close>.\<close>

definition uniform_upto :: "nat \<Rightarrow> rng \<Rightarrow> nat \<times> rng" where
  "uniform_upto i g = (shd g mod (i + 1), stl g)"

text \<open>The loop over \<open>i\<close>, which ends at 0.\<close>

fun permute_loop :: "nat \<Rightarrow> 'a list \<Rightarrow> rng \<Rightarrow> 'a list \<times> rng" where
  "permute_loop 0 items g = (items, g)"
| "permute_loop (Suc i) items g =
     (let (j, g') = uniform_upto (Suc i) g; tmp = items ! Suc i
      in permute_loop i (items[Suc i := items ! j, j := tmp]) g')"

text \<open>
  With \<open>n = 0\<close> the index starts at the largest \<open>size_t\<close>, with \<open>n\<close> beyond the array past its end:
  both access memory that is not the array's.
\<close>

definition psuedo_random_permute :: "'a list \<Rightarrow> nat \<Rightarrow> rng \<Rightarrow> ('a list \<times> rng) res" where
  "psuedo_random_permute items n g =
     (if n = 0 \<or> length items < n then Inl Undefined else Inr (permute_loop (n - 1) items g))"

text \<open>\<open>n - 1\<close> wraps for \<open>n = 0\<close>: the number is then any \<open>size_t\<close>.\<close>

definition rand_int :: "nat \<Rightarrow> rng \<Rightarrow> nat \<times> rng" where
  "rand_int n g = uniform_upto (if n = 0 then 2 ^ 64 - 1 else n - 1) g"

lemma rand_int_range: "0 < n \<Longrightarrow> fst (rand_int n g) < n"
  by (simp add: rand_int_def uniform_upto_def)

text \<open>One turn of the loop.\<close>

definition swapped :: "nat \<Rightarrow> nat \<Rightarrow> 'a list \<Rightarrow> 'a list" where
  "swapped i j items = items[i := items ! j, j := items ! i]"

lemma swapped_simps:
  "i < length items \<Longrightarrow> j < length items \<Longrightarrow> mset (swapped i j items) = mset items"
  "length (swapped i j items) = length items"
  "i < k \<Longrightarrow> j < k \<Longrightarrow> drop k (swapped i j items) = drop k items"
  by (simp_all add: swapped_def mset_swap)

lemma permute_loop_Suc:
  "permute_loop (Suc i) items g = permute_loop i (swapped (Suc i) (shd g mod (i + 2)) items) (stl g)"
  by (simp add: uniform_upto_def swapped_def Let_def)

lemma permute_loop_keeps:
  assumes "i < length items"
  shows "mset (fst (permute_loop i items g)) = mset items \<and>
    drop (Suc i) (fst (permute_loop i items g)) = drop (Suc i) items"
  using assms
proof (induction i arbitrary: items g)
  case (Suc i)
  define j where "j = shd g mod (i + 2)"
  define items' where "items' = swapped (Suc i) j items"
  have j: "j < Suc (Suc i)" using mod_less_divisor [of "i + 2" "shd g"] by (simp add: j_def)
  then have "mset items' = mset items" "length items' = length items"
      "drop (Suc (Suc i)) items' = drop (Suc (Suc i)) items"
    using Suc.prems by (simp_all add: items'_def swapped_simps)
  moreover have ih: "mset (fst (permute_loop i items' (stl g))) = mset items' \<and>
      drop (Suc i) (fst (permute_loop i items' (stl g))) = drop (Suc i) items'"
    using Suc.IH [of items' "stl g"] Suc.prems calculation(2) by simp
  moreover have "drop (Suc (Suc i)) (fst (permute_loop i items' (stl g))) = drop (Suc (Suc i)) items'"
    using arg_cong [OF conjunct2 [OF ih], of "drop 1"] by simp
  ultimately show ?case unfolding permute_loop_Suc j_def [symmetric] items'_def [symmetric] by simp
qed simp

text \<open>The array is rearranged, and items past the first \<open>n\<close> stay where they are.\<close>

lemma permute_rearranges:
  assumes "0 < n" and "n \<le> length items"
  shows "\<exists>items' g'. psuedo_random_permute items n g = Inr (items', g') \<and>
    mset items' = mset items \<and> drop n items' = drop n items"
proof -
  have "n - 1 < length items" "Suc (n - 1) = n" using assms by simp_all
  then have "mset (fst (permute_loop (n - 1) items g)) = mset items \<and>
      drop n (fst (permute_loop (n - 1) items g)) = drop n items"
    using permute_loop_keeps [of "n - 1" items g] by simp
  moreover have "psuedo_random_permute items n g = Inr (permute_loop (n - 1) items g)"
    using assms by (simp add: psuedo_random_permute_def)
  ultimately show ?thesis by (cases "permute_loop (n - 1) items g") simp
qed

text \<open>Every order of the first items comes out for some draws.\<close>

lemma permute_loop_reaches:
  assumes "i < length items" and "mset target = mset items" and "drop (Suc i) target = drop (Suc i) items"
  shows "\<exists>g. fst (permute_loop i items g) = target"
  using assms
proof (induction i arbitrary: items)
  case 0
  then have "length target = length items" by (metis size_mset)
  with 0 have "tl target = tl items" "mset target = mset items" "items \<noteq> []" "target \<noteq> []"
    by (auto simp: drop_Suc)
  then have "target = items" by (cases items; cases target) auto
  then show ?case by simp
next
  case (Suc i)
  have len: "length target = length items" using Suc.prems(2) by (metis size_mset)
  have split: "mset (take (Suc (Suc i)) target) = mset (take (Suc (Suc i)) items)"
    using Suc.prems(2,3) by (metis append_take_drop_id mset_append add_right_cancel)
  have "target ! Suc i \<in> set (take (Suc (Suc i)) target)"
    using Suc.prems(1) len by (auto simp: in_set_conv_nth intro!: exI [of _ "Suc i"])
  then have "target ! Suc i \<in> set (take (Suc (Suc i)) items)"
    using split by (metis set_mset_mset)
  then obtain j where j: "j < Suc (Suc i)" "items ! j = target ! Suc i"
    using Suc.prems(1) by (auto simp: in_set_conv_nth)
  define items' where "items' = swapped (Suc i) j items"
  have m: "mset items' = mset items" "length items' = length items"
    using j Suc.prems(1) by (simp_all add: items'_def swapped_simps)
  have at: "items' ! Suc i = target ! Suc i"
    using j Suc.prems(1) by (cases "j = Suc i") (simp_all add: items'_def swapped_def)
  have "drop (Suc (Suc i)) items' = drop (Suc (Suc i)) items" using j(1) by (simp add: items'_def swapped_simps)
  then have "drop (Suc i) target = drop (Suc i) items'"
    using Suc.prems(1,3) len at m(2) by (simp add: Cons_nth_drop_Suc [symmetric])
  then obtain g where g: "fst (permute_loop i items' g) = target"
    using Suc.IH [of items'] Suc.prems(1,2) m by auto
  have "j mod (i + 2) = j" using j(1) by simp
  then have "fst (permute_loop (Suc i) items (j ## g)) = target"
    using g by (simp add: permute_loop_Suc items'_def del: permute_loop.simps)
  then show ?case by blast
qed

end
