(* ===== verification/Serving.thy ===== *)
theory Serving
  imports Server_Start Handler
begin

text \<open>
  What \<open>main\<close> of \<^verbatim>\<open>server/src/proxy_server.cpp\<close> does after \<open>init\<close>: \<open>thrift_server::create\<close>
  (\<^verbatim>\<open>service/src/thrift_server.cpp\<close>), the thread that serves, \<open>wait_for_server_start\<close>
  (\<^verbatim>\<open>service/src/thrift_utils.h\<close>), and \<open>flush_thread\<close>, which \<open>main\<close> has commented out. Sleeping
  takes no step. The two loops may not end and are partial functions.
\<close>

section \<open>Waiting for the server\<close>

text \<open>
  One turn of the loop: the result is the new value of \<open>check\<close>. \<open>topen\<close> and \<open>tclose\<close> are the calls
  on the transport.
\<close>

definition connect_once :: "('w, unit) io \<Rightarrow> ('w, unit) io \<Rightarrow> ('w, bool) io" where
  "connect_once topen tclose = icatch is_transport (ithen topen (ithen tclose (iret False))) (iret True)"

partial_function (option) wait_for_server_start ::
    "('w, unit) io \<Rightarrow> ('w, unit) io \<Rightarrow> 'w \<Rightarrow> ((cpp_error + unit) \<times> 'w) option" where
  "wait_for_server_start topen tclose w =
     ibind (connect_once topen tclose) (\<lambda>check w1.
       if check then wait_for_server_start topen tclose w1 else Some (Inr (), w1)) w"

text \<open>A turn in which the connection is refused.\<close>

definition refused :: "('w, unit) io \<Rightarrow> 'w \<Rightarrow> 'w \<Rightarrow> bool" where
  "refused topen w w' \<longleftrightarrow> (\<exists>e. topen w = Some (Inl e, w') \<and> is_transport e)"

lemma refused_waits:
  assumes "refused topen w w'"
  shows "wait_for_server_start topen tclose w = wait_for_server_start topen tclose w'"
proof -
  obtain e where "topen w = Some (Inl e, w')" "is_transport e" using assms by (auto simp: refused_def)
  then have "connect_once topen tclose w = Some (Inr True, w')"
    by (simp add: connect_once_def icatch_Inl ithen_Inl iret_apply)
  then show ?thesis by (simp add: wait_for_server_start.simps [of _ _ w] ibind_def)
qed

text \<open>It returns once a connection succeeds, after any number of refusals, and not before.\<close>

lemma wait_returns:
  assumes "(refused topen)\<^sup>*\<^sup>* w w1" and "topen w1 = Some (Inr (), w2)" and "tclose w2 = Some (Inr (), w3)"
  shows "wait_for_server_start topen tclose w = Some (Inr (), w3)"
  using assms(1)
proof (induction rule: converse_rtranclp_induct)
  case base
  have "connect_once topen tclose w1 = Some (Inr False, w3)"
    using assms(2,3) by (simp add: connect_once_def icatch_Inr ithen_Inr iret_apply)
  then show ?case by (simp add: wait_for_server_start.simps [of _ _ w1] ibind_def)
next
  case (step w w')
  then show ?case using refused_waits by metis
qed

lemma refused_connect: "refused topen w w' \<Longrightarrow> connect_once topen tclose w = Some (Inr True, w')"
  by (auto simp: refused_def connect_once_def icatch_Inl ithen_Inl iret_apply)

lemma wait_goes_on:
  assumes "Q w" and "\<And>w. Q w \<Longrightarrow> \<exists>w'. refused topen w w' \<and> Q w'"
  shows "wait_for_server_start topen tclose w = None"
proof -
  have "t = topen \<longrightarrow> \<not> Q v" if "wait_for_server_start t c v = Some y" for t c v y
  proof (rule wait_for_server_start.raw_induct [where P = "\<lambda>t c v y. t = topen \<longrightarrow> \<not> Q v", OF _ that])
    fix F t c v y
    assume ih: "\<And>t c v y. F t c v = Some y \<Longrightarrow> t = topen \<longrightarrow> \<not> Q v"
      and run: "ibind (connect_once t c) (\<lambda>check w1. if check then F t c w1 else Some (Inr (), w1)) v = Some y"
    show "t = topen \<longrightarrow> \<not> Q v"
    proof (intro impI notI)
      assume t: "t = topen" and q: "Q v"
      obtain v' where v': "refused topen v v'" "Q v'" using assms(2) [OF q] by blast
      have "F t c v' = Some y" using run refused_connect [OF v'(1), of c] by (simp add: t ibind_def)
      from ih [OF this] show False using t v'(2) by blast
    qed
  qed
  with assms(1) show ?thesis by (cases "wait_for_server_start topen tclose w") auto
qed

section \<open>The flush thread\<close>

text \<open>It has no way out but an exception: the line that reports its end is never reached.\<close>

partial_function (option) flush_thread ::
    "'st storage_interface \<Rightarrow> ('st, 'z) api_scheme \<Rightarrow> ((cpp_error + unit) \<times> ('st, 'z) api_scheme) option" where
  "flush_thread S w = ibind (flush S) (\<lambda>_. flush_thread S) w"

lemma flush_thread_no_return:
  assumes "flush_thread S w = Some (r, w')"
  shows "\<exists>e. r = Inl e"
proof -
  have "\<exists>e. fst y = Inl e" if "flush_thread S v = Some y"
    for S :: "'st storage_interface" and v :: "('st, 'z) api_scheme" and y
  proof (rule flush_thread.raw_induct [where P = "\<lambda>S v y. \<exists>e. fst y = Inl e", OF _ that])
    fix F and S :: "'st storage_interface" and v :: "('st, 'z) api_scheme" and y
    assume ih: "\<And>S v y. F S v = Some y \<Longrightarrow> \<exists>e. fst y = Inl e"
      and run: "ibind (flush S) (\<lambda>_. F S) v = Some y"
    obtain r v' where m: "flush S v = Some (r, v')"
      using run by (cases "flush S v") (auto simp: ibind_def)
    show "\<exists>e. fst y = Inl e"
    proof (cases r)
      case (Inl e)
      then show ?thesis using run m by (auto simp: ibind_def)
    next
      case (Inr u)
      then have "F S v' = Some y" using run m by (simp add: ibind_def)
      then show ?thesis by (rule ih)
    qed
  qed
  from this [OF assms] show ?thesis by simp
qed

section \<open>Serving\<close>

text \<open>The library's server, by what \<open>create\<close> sets.\<close>

record tserver =
  ts_proxy_type :: string
  ts_port :: nat
  ts_send_timeout :: nat
  ts_workers :: nat
  ts_io_threads :: nat

definition thrift_server_create :: "string \<Rightarrow> nat \<Rightarrow> nat \<Rightarrow> tserver" where
  "thrift_server_create proxy_type port num_threads =
     \<lparr>ts_proxy_type = proxy_type, ts_port = port, ts_send_timeout = 1200000, ts_workers = 15,
      ts_io_threads = num_threads\<rparr>"

text \<open>
  The end of \<open>main\<close>. \<open>serve\<close> starts the thread that serves the proxy; \<open>w\<close> is what the main thread
  sees of the world. The thread is never joined, so when \<open>main\<close> returns its destructor ends the
  process with \<open>std::terminate\<close>.
\<close>

definition serve_main ::
    "('a \<Rightarrow> tserver \<Rightarrow> ('w, unit) io) \<Rightarrow> ('w, unit) io \<Rightarrow> ('w, unit) io \<Rightarrow> 'a \<Rightarrow> ('w, unit) io" where
  "serve_main serve topen tclose proxy =
     ithen (serve proxy (thrift_server_create ''pancake'' 9090 1))
       (ithen (wait_for_server_start topen tclose) (ithrow Aborted))"

lemma serve_main_aborts:
  assumes "serve proxy (thrift_server_create ''pancake'' 9090 1) w = Some (Inr (), w1)"
    and "(refused topen)\<^sup>*\<^sup>* w1 w2" and "topen w2 = Some (Inr (), w3)" and "tclose w3 = Some (Inr (), w4)"
  shows "serve_main serve topen tclose proxy w = Some (Inl Aborted, w4)"
  using assms(1) wait_returns [where topen = topen and tclose = tclose, OF assms(2-4)]
  by (simp add: serve_main_def ithen_Inr ithrow_apply)

end
