(* ===== verification/Bench_Main.thy ===== *)
theory Bench_Main
  imports Benchmark Server_Start
begin

text \<open>
  \<open>main\<close> of \<^verbatim>\<open>benchmark/src/proxy_benchmark.cpp\<close>: the command line, the trace and the threads of
  the clients. The threads share the trace, which they only read, and the counter \<open>xput\<close>, to which
  each adds its own; \<open>bench_total\<close> is what they leave in it. The name of the output directory is
  made of the date and is an argument.
\<close>

record bench_options =
  bo_proxy_host :: string
  bo_proxy_port :: int
  bo_trace_location :: string
  bo_object_size :: int
  bo_num_clients :: int
  bo_output_directory :: string

definition bench_default :: "string \<Rightarrow> bench_options" where
  "bench_default output_directory =
     \<lparr>bo_proxy_host = ''127.0.0.1'', bo_proxy_port = 9090, bo_trace_location = [], bo_object_size = 1000,
      bo_num_clients = 1, bo_output_directory = output_directory\<rparr>"

definition bench_set_option :: "char \<Rightarrow> string \<Rightarrow> bench_options \<Rightarrow> bench_options res" where
  "bench_set_option opt optarg bo =
     (if opt = CHR ''h'' then Inr (bo\<lparr>bo_proxy_host := optarg\<rparr>)
      else if opt = CHR ''p'' then rbind (atoi optarg) (\<lambda>n. Inr (bo\<lparr>bo_proxy_port := n\<rparr>))
      else if opt = CHR ''t'' then Inr (bo\<lparr>bo_trace_location := optarg\<rparr>)
      else if opt = CHR ''s'' then rbind (atoi optarg) (\<lambda>n. Inr (bo\<lparr>bo_object_size := n\<rparr>))
      else if opt = CHR ''n'' then rbind (atoi optarg) (\<lambda>n. Inr (bo\<lparr>bo_num_clients := n\<rparr>))
      else if opt = CHR ''o'' then Inr (bo\<lparr>bo_output_directory := optarg\<rparr>)
      else Inl (Exited (- 1)))"

fun bench_read_options :: "(char \<times> string) list \<Rightarrow> bench_options \<Rightarrow> bench_options res" where
  "bench_read_options [] bo = Inr bo"
| "bench_read_options ((opt, optarg) # os) bo = rbind (bench_set_option opt optarg bo) (bench_read_options os)"

text \<open>\<open>getopt\<close> accepts \<open>b\<close> with an argument, and the switch has no case for it.\<close>

lemma option_b_exits: "bench_read_options ((CHR ''b'', optarg) # os) bo = Inl (Exited (- 1))"
  by (simp add: bench_set_option_def)

text \<open>
  The threads, each a function of the counter on a world of its own, and the joins. An exception
  that leaves a thread ends the process.
\<close>

fun bench_join :: "((int \<Rightarrow> ('w, int) io) \<times> 'w) list \<Rightarrow> int \<Rightarrow> int res option" where
  "bench_join [] xput = Some (Inr xput)"
| "bench_join ((thread, w) # threads) xput =
     (case thread xput w of
        None \<Rightarrow> None
      | Some (Inl e, w') \<Rightarrow> Some (Inl Aborted)
      | Some (Inr xput', w') \<Rightarrow> bench_join threads xput')"

text \<open>\<open>spawn o trace i\<close> is the thread of client \<open>i\<close>. A negative number of clients starts none.\<close>

definition bench_main ::
    "(string \<Rightarrow> string option) \<Rightarrow> (bench_options \<Rightarrow> trace_vector \<Rightarrow> nat \<Rightarrow> (int \<Rightarrow> ('w, int) io) \<times> 'w) \<Rightarrow> string \<Rightarrow>
     (char \<times> string) list \<Rightarrow> int res option" where
  "bench_main files spawn output_directory argv =
     (case bench_read_options argv (bench_default output_directory) of
        Inl e \<Rightarrow> Some (Inl e)
      | Inr bo \<Rightarrow>
          (case load_trace (files (bo_trace_location bo)) [] 50 of
             Inl e \<Rightarrow> Some (Inl e)
           | Inr trace \<Rightarrow> bench_join (map (spawn bo trace) [0..<nat (bo_num_clients bo)]) 0))"

section \<open>The total\<close>

text \<open>A thread that adds \<open>d\<close> to the counter, as \<open>bench_client\<close> does when it returns.\<close>

definition adds :: "int \<Rightarrow> (int \<Rightarrow> ('w, int) io) \<times> 'w \<Rightarrow> bool" where
  "adds d thread \<longleftrightarrow> (\<forall>xput. \<exists>w'. fst thread xput (snd thread) = Some (Inr (int32 (xput + d)), w'))"

lemma int32_add_left: "int32 (int32 x + y) = int32 (x + y)"
proof -
  have "int32 (int32 x) = int32 x" by (simp add: int32_def)
  then show ?thesis
    using signed_take_bit_add [of 31 "int32 x" y] signed_take_bit_add [of 31 x y] by (simp add: int32_def)
qed

lemma bench_total:
  assumes "list_all2 adds ds threads"
  shows "bench_join threads (int32 xput) = Some (Inr (int32 (xput + sum_list ds)))"
  using assms
proof (induction arbitrary: xput rule: list_all2_induct)
  case (Cons d ds t ts)
  obtain w' where "fst t (int32 xput) (snd t) = Some (Inr (int32 (int32 xput + d)), w')"
    using Cons.hyps(1) by (auto simp: adds_def)
  then show ?case
    using Cons.IH [of "xput + d"] by (cases t) (simp add: int32_add_left add.assoc)
qed simp

text \<open>In whatever order the threads get to it, the counter ends with the sum.\<close>

lemma bench_total_any_order:
  assumes "list_all2 adds ds threads" and "list_all2 adds ds' threads'" and "mset ds = mset ds'"
  shows "bench_join threads 0 = bench_join threads' 0"
proof -
  have "sum_list ds = sum_list ds'" using assms(3) by (metis sum_mset_sum_list)
  moreover have "int32 0 = 0" by (simp add: int32_def)
  ultimately show ?thesis
    using bench_total [OF assms(1), of 0] bench_total [OF assms(2), of 0] by simp
qed

lemma bench_client_adds:
  assumes "bench_client transport_open join P meanwhile trace clocks 0 w = Some (Inr x, w')"
  shows "\<exists>d. adds d (bench_client transport_open join P meanwhile trace clocks, w)"
proof -
  obtain r1 l1 r2 l2 r3 l3 where c: "clocks = ((r1, l1), (r2, l2), (r3, l3))" by (metis prod.exhaust)
  obtain w1 x1 w2 x2 w3 x3 w4 w5 where
      "async_client_init transport_open P w = Some (Inr (), w1)"
      "warmup P meanwhile trace r1 l1 0 w1 = Some (Inr x1, w2)"
      "run_benchmark P meanwhile 20 True trace r2 l2 x1 w2 = Some (Inr x2, w3)"
      "cooldown P meanwhile trace r3 l3 x2 w3 = Some (Inr x3, w4)"
      "async_client_finish join w4 = Some (Inr (), w5)"
    using assms by (auto simp: c bench_client_def ithen_def ibind_Inr_iff)
  then have "bench_client transport_open join P meanwhile trace clocks xput w
      = Some (Inr (int32 (xput + x2)), w5)" for xput
    by (simp add: c bench_client_def ithen_def ibind_def iret_def)
  then show ?thesis by (auto simp: adds_def)
qed

end
