(* ===== verification/Spec2Isabelle.thy ===== *)
theory Spec2Isabelle
  imports Benchmark Multiface Static_Mode Server_Properties Client_Properties Thrift_Termination Service_Properties
    Api_Properties Thrift_Properties Component_Properties Batch_Properties Consumer_Properties
    Init_Properties Swap_Properties Threads_Properties Earlier_Properties Oram_Util Serving Bench_Main
begin

text \<open>
  Pancake: a frequency-smoothing proxy for encrypted key-value stores.

  \<^bold>\<open>The program.\<close> Clients talk to a proxy over Thrift. A call becomes requests in the queue of a
  consumer thread; the consumer mixes each request with real and fake accesses drawn from two
  distributions, so that every label in the store is read and written equally often, and fetches
  and rewrites the labels in batches, encrypted. A key has several replicas; a write goes to the
  accessed replica at once and to the others when they happen to be accessed, out of an update
  cache. Asynchronous calls leave their futures to a responder thread, which sends the results over
  a second Thrift service. The server's \<open>main\<close> learns the distribution from a trace file.

  \<^bold>\<open>Conventions\<close> (theories \<open>Pancake_Prelude\<close>, \<open>Io_Monad\<close>). Code without shared state returns
  \<open>cpp_error + 'a\<close>: an exception, a failed assertion, undefined behaviour. Code on a shared world
  is an action \<open>('w, 'a) io\<close>, which gives its result together with the world it leaves behind, also
  when it throws; \<open>None\<close> is not returning (a wait that is not over, a loop that does not end).
  Random generators are streams of draws. The iteration order of a hash table is a parameter. Object
  fields carry a prefix per class: \<open>px_\<close> and \<open>ap_\<close> for \<open>pancake_proxy\<close>, \<open>cs_\<close> for the locals of
  \<open>consumer_thread\<close>, \<open>sv_\<close> for the handler factory, \<open>ac_\<close> for \<open>async_proxy_client\<close>, \<open>ld_\<close> for
  the trace loader. Counters of type \<open>int\<close> and \<open>size_t\<close> are words where they can wrap.

  \<^bold>\<open>Theories and sources\<close> (paths under \<^verbatim>\<open>src/\<close>).

  \<^item> \<open>Util\<close>: \<^verbatim>\<open>proxy/src/util.cpp\<close>. \<open>Cpp_Queue\<close>: \<^verbatim>\<open>proxy/src/queue.h\<close>, \<^verbatim>\<open>operation.h\<close>; the locale
    \<open>fifo\<close> is what producers and consumers rely on. \<open>Distribution\<close>: \<^verbatim>\<open>proxy/src/distribution.cpp\<close>.
  \<^item> \<open>Update_Cache\<close>: \<^verbatim>\<open>proxy/src/update_cache.cpp\<close>; the locale \<open>write_back_log\<close> is its contract, a
    write is handed out once per replica.
  \<^item> \<open>Storage\<close>, \<open>Redis_Storage\<close>: \<^verbatim>\<open>libstorage/src\<close>. The record \<open>storage_interface\<close> is the abstract
    class, the locale \<open>kv_storage\<close> its contract; \<open>ssdb_laws\<close> and \<open>redis_laws\<close> are what the client
    libraries document, and give \<open>kv_storage\<close> for RocksDB and for one Redis server.
  \<^item> \<open>Encryption_Engine\<close>: \<^verbatim>\<open>proxy/src/encryption_engine.cpp\<close> over the calls of OpenSSL; the locale
    \<open>cipher\<close> is the round trip the proxy needs.
  \<^item> \<open>Proxy_State\<close>, \<open>Batch\<close>, \<open>Consumer\<close>, \<open>Many_Consumers\<close>, \<open>Consumer_Threads\<close>, \<open>Replicas\<close>,
    \<open>Swapping\<close>: \<^verbatim>\<open>proxy/src/pancake_proxy.cpp\<close>: the tables, \<open>create_security_batch\<close> and
    \<open>execute_batch\<close>, \<open>consumer_thread\<close>, alone and next to the others, \<open>create_replicas\<close> and
    \<open>insert_replicas\<close>, \<open>update_distribution\<close> with the functions it calls. The locale
    \<open>replica_store\<close> joins \<open>cipher\<close> and \<open>kv_storage\<close> into the store of labels.
  \<^item> \<open>Proxy_Api\<close>, \<open>Responder\<close>, \<open>Proxy_Init\<close>: the calls \<open>get\<close>, \<open>put\<close>, their batches and asynchronous
    forms, \<open>flush\<close>; \<open>responder_thread\<close>; \<open>init\<close> and \<open>close\<close>.
  \<^item> \<open>Thrift_Protocol\<close>, \<open>Thrift_Types\<close>, \<open>Thrift_Args\<close>, \<open>Thrift_Client\<close>, \<open>Thrift_Processor\<close>,
    \<open>Thrift_Concurrent\<close>, \<open>Response_Service\<close>, \<open>Multiface\<close>: the generated code of \<^verbatim>\<open>service/src\<close>
    (\<^verbatim>\<open>proxy_types\<close>, \<^verbatim>\<open>thrift\<close>, \<^verbatim>\<open>thrift_response_service\<close>), struct by struct and method by method.
    The protocol object is a record of actions; the locales \<open>thrift_input\<close>, \<open>thrift_output\<close> and
    \<open>thrift_server\<close> say that a reader sees the tokens a writer emitted. \<open>Earlier_Response\<close>:
    \<^verbatim>\<open>thrift_response.*\<close>, the response service of an earlier interface, which is not in the build.
  \<^item> \<open>Response_Clients\<close>, \<open>Handler\<close>: \<^verbatim>\<open>service/src/thrift_response_client*.cpp\<close>,
    \<^verbatim>\<open>thrift_handler*.cpp\<close>.
  \<^item> \<open>Trace\<close>, \<open>Server_Start\<close>, \<open>Serving\<close>: \<^verbatim>\<open>server/src/proxy_server.cpp\<close>, with \<open>load_trace\<close> of the
    benchmark, \<^verbatim>\<open>service/src/thrift_server.cpp\<close> and \<^verbatim>\<open>thrift_utils.h\<close>.
  \<^item> \<open>Client_Library\<close>: \<^verbatim>\<open>libclient/src\<close>. \<open>Benchmark\<close>, \<open>Bench_Main\<close>: the client thread and \<open>main\<close> of
    \<^verbatim>\<open>benchmark/src/proxy_benchmark.cpp\<close>. \<open>Oram_Util\<close>: \<^verbatim>\<open>proxy/src/path_oram_util.h\<close>.
\<close>

text \<open>
  \<^bold>\<open>What the lemmas show.\<close>

  \<^item> \<open>Batch_Refinement\<close>, \<open>Batch_Properties\<close>: a batch over distinct labels answers and stores like its
    operations one after the other on a plain map; \<open>same_label_loses_write\<close> is the case that is
    excluded, in which an acknowledged write is lost.
  \<^item> \<open>Many_Consumers\<close>: \<open>shared_run\<close> interleaves the halves of the batches of several consumers, the
    reads and the write backs. \<open>Consumer_Threads\<close>: \<open>threads_run\<close> is all consumer threads step by step,
    with their queues; every run is a \<open>shared_run\<close>. \<open>Threads_Properties\<close>: while the batches in flight
    touch different labels, all threads together answer like one plain map, each in the order of its
    queue, and none gets stuck. Two batches on one label can lose an acknowledged write.
  \<^item> \<open>Consumer_Properties\<close>: \<open>consumer_run\<close> interleaves the consumer with arriving requests and
    \<open>close\<close>. In every run requests are answered in order with the values of a plain map, and no step
    raises. \<open>Consumer_Liveness\<close>: a batch is executed once the queued requests fill it, after a known
    number of steps, and not before: fewer requests wait. \<open>Init_Properties\<close>: \<open>create_replicas\<close>
    establishes the invariant this needs, and real and fake accesses in equal shares make all
    labels equally likely. \<open>Static_Mode\<close>: in a server started by \<open>main\<close> there are no fake accesses.
  \<^item> \<open>Api_Refinement\<close>, \<open>Api_Serving\<close>, \<open>Api_Properties\<close>: the calls keep queues and promises well formed,
    and, with the consumer behind the queue, return the values of a plain map. What other threads do
    while a call waits is the argument \<open>wait\<close>, whose contract \<open>waits_serving\<close> the consumer's own
    steps satisfy.
  \<^item> \<open>Thrift_Properties\<close>, \<open>Thrift_Service\<close>: a remote call is the local call, an exception reaches the
    caller, oneway calls write nothing. \<open>Thrift_Termination\<close>: the processor gets through any input,
    for a protocol in which every read of a field header makes the input shorter.
    \<open>Earlier_Properties\<close>: calls of the earlier response service arrive as they were made.
    \<open>Service_Properties\<close>, \<open>Server_Properties\<close>: the same over the handler, and from \<open>main\<close> on a
    proper trace; asynchronous reads are followed to the responder's answer.
  \<^item> \<open>Client_Properties\<close>: requests in flight are bounded, responses are counted, the reading thread
    can be stopped. \<open>Bench_Main\<close>: the benchmark's total is the sum over its clients in any order.
  \<^item> \<open>Serving\<close>: the server waits until a connection succeeds and not longer, and ends by
    \<open>std::terminate\<close>.
  \<^item> \<open>Swap_Properties\<close>: the new fake distribution smooths and labels stay balanced, but labels are
    turned into single digits and grown keys are read before they are written.
  \<^item> \<open>Component_Properties\<close>: queue, update cache, storage clients, encryption.
  \<^item> \<open>Proxy_Demo\<close>, \<open>Api_Demo\<close>, \<open>Token_Protocol\<close>, and the in-memory servers and reference cipher in
    the component theories are concrete instances on which the theorems are run.

  \<^bold>\<open>Bounds and fuel.\<close> The readers' loops are partial functions and need no fuel; \<open>unread\<close>, the number
  of tokens left, is the measure of \<open>Thrift_Termination\<close>. Structs nest at most \<open>recursion_limit\<close>
  (64) deep, the library's default; the generated structs nest twice. \<open>consume_until\<close> takes the number
  of consumer steps a call may wait for: the concrete instances give it 8, and a request on an idle
  consumer with batches of one is answered in fewer; the theorems hold for every number. Loops over
  the replicas and the trace are structural. The number of keys is assumed below \<open>2^30\<close>, so
  that the number of replicas fits the \<open>int\<close> the code keeps it in.

  \<^bold>\<open>Simplifications.\<close> Probabilities are reals and not doubles, so rounding is not seen. Operations
  that hold a lock, and those of the concurrent hash tables, are single steps; a call of the proxy is
  interleaved with other threads where it waits for a future, not between two of its pushes. Data
  races that the C++ standard leaves undefined are not modelled: the theorems about calls are for
  one consumer's queue, and a thread runs each half of its batch without interruption. With no keys
  at all \<open>main\<close> divides by zero; on reals that is zero, and the theorems ask for at least one line
  in the trace. Output parameters of Thrift methods are results:
  the model does not say what a method that throws has already written there.

  \<^bold>\<open>Not modelled.\<close> \<^verbatim>\<open>libstorage/src/memcached.cpp\<close> (in no build target, and not valid C++);
  \<^verbatim>\<open>proxy/src/path_oram.h\<close> and the cipher routines of \<^verbatim>\<open>path_oram_util.h\<close> (declarations without an
  implementation); \<^verbatim>\<open>proxy/src/queue.cpp\<close> (the text of \<^verbatim>\<open>queue.h\<close> again, in no build target);
  \<^verbatim>\<open>service/src/proxy_constants.*\<close> and \<^verbatim>\<open>benchmark/src/timer.h\<close>; the creation of directories,
  printing and timing. Libraries (Thrift, OpenSSL, the Redis and ssdb clients,
  the standard library's generators and hash functions) are parameters.
\<close>

end
